(* ===== verification/Prelude.thy ===== *)
theory Prelude
  imports Complex_Main "HOL-Library.AList" "HOL-Library.Word" "HOL-Library.Monad_Syntax"
    "HOL-Library.Sublist" "HOL-Library.Char_ord" "HOL-Library.Multiset"
begin

text \<open>
  The shared base of the development: results of fallible operations, hash maps as
  association lists whose order stands for the iteration order, arithmetic at a
  machine width, and the two interfaces that several components implement, a keyed
  store and a system of steps that keep an invariant.
\<close>

declare map_of_eq_Some_iff [simp del]

named_theorems hmap \<open>reading a hash map after an update\<close>
named_theorems keeps \<open>operations that keep the invariant of their component\<close>


section \<open>Results\<close>

type_synonym ('e, 'a) result = "'e + 'a"

abbreviation Err :: "'e \<Rightarrow> ('e, 'a) result" where "Err \<equiv> Inl"
abbreviation Ok :: "'a \<Rightarrow> ('e, 'a) result" where "Ok \<equiv> Inr"

fun res_bind :: "('e, 'a) result \<Rightarrow> ('a \<Rightarrow> ('e, 'b) result) \<Rightarrow> ('e, 'b) result" where
  "res_bind (Inl e) f = Inl e"
| "res_bind (Inr a) f = f a"

fun is_ok :: "('e, 'a) result \<Rightarrow> bool" where
  "is_ok (Inl e) = False"
| "is_ok (Inr a) = True"

lemma res_bind_eq_Ok:
  "res_bind r f = Inr b \<longleftrightarrow> (\<exists>a. r = Inr a \<and> f a = Inr b)"
  by (cases r) auto

lemma res_bind_eq_Err:
  "res_bind r f = Inl e \<longleftrightarrow> r = Inl e \<or> (\<exists>a. r = Inr a \<and> f a = Inl e)"
  by (cases r) auto

lemma is_ok_iff: "is_ok r \<longleftrightarrow> (\<exists>a. r = Inr a)"
  by (cases r) auto


section \<open>Hash maps\<close>

type_synonym ('k, 'v) hash_map = "('k \<times> 'v) list"

abbreviation hm_get :: "('k, 'v) hash_map \<Rightarrow> 'k \<Rightarrow> 'v option" where
  "hm_get \<equiv> map_of"

abbreviation hm_insert :: "'k \<Rightarrow> 'v \<Rightarrow> ('k, 'v) hash_map \<Rightarrow> ('k, 'v) hash_map" where
  "hm_insert \<equiv> AList.update"

abbreviation hm_remove :: "'k \<Rightarrow> ('k, 'v) hash_map \<Rightarrow> ('k, 'v) hash_map" where
  "hm_remove \<equiv> AList.delete"

abbreviation hm_keys :: "('k, 'v) hash_map \<Rightarrow> 'k list" where
  "hm_keys m \<equiv> map fst m"

abbreviation hm_values :: "('k, 'v) hash_map \<Rightarrow> 'v list" where
  "hm_values m \<equiv> map snd m"

abbreviation hm_wf :: "('k, 'v) hash_map \<Rightarrow> bool" where
  "hm_wf m \<equiv> distinct (map fst m)"

definition hm_has :: "('k, 'v) hash_map \<Rightarrow> 'k \<Rightarrow> bool" where
  "hm_has m k = (map_of m k \<noteq> None)"

definition hm_retain :: "('k \<Rightarrow> 'v \<Rightarrow> bool) \<Rightarrow> ('k, 'v) hash_map \<Rightarrow> ('k, 'v) hash_map" where
  "hm_retain P m = filter (\<lambda>(k, v). P k v) m"

fun hm_alter :: "('v \<Rightarrow> 'v) \<Rightarrow> 'k \<Rightarrow> ('k, 'v) hash_map \<Rightarrow> ('k, 'v) hash_map" where
  "hm_alter f k [] = []"
| "hm_alter f k ((k', v) # m) = (if k' = k then (k', f v) # m else (k', v) # hm_alter f k m)"

lemma hm_get_insert [hmap, simp]:
  "hm_get (hm_insert k v m) k' = (if k' = k then Some v else hm_get m k')"
  by (simp add: update_conv)

lemma hm_get_remove [hmap, simp]:
  "hm_get (hm_remove k m) k' = (if k' = k then None else hm_get m k')"
  by (simp add: delete_conv)

lemma hm_get_retain [hmap]:
  "hm_wf m \<Longrightarrow> hm_get (hm_retain P m) k
    = (case hm_get m k of None \<Rightarrow> None | Some v \<Rightarrow> if P k v then Some v else None)"
proof (induction m)
  case (Cons p m)
  obtain k' v where [simp]: "p = (k', v)" by force
  have "k = k' \<Longrightarrow> hm_get m k = None" using Cons.prems by (simp add: map_of_eq_None_iff)
  with Cons show ?case by (auto simp: hm_retain_def)
qed (simp add: hm_retain_def)

lemma hm_keys_alter [hmap, simp]: "hm_keys (hm_alter f k m) = hm_keys m"
  by (induction m rule: hm_alter.induct) auto

lemma hm_get_alter [hmap, simp]:
  "hm_get (hm_alter f k m) k' = (if k' = k then map_option f (hm_get m k) else hm_get m k')"
  by (induction f k m rule: hm_alter.induct) auto

lemma hm_wf_insert [keeps, intro]: "hm_wf m \<Longrightarrow> hm_wf (hm_insert k v m)"
  by (rule distinct_update)

lemma hm_wf_remove [keeps, intro]: "hm_wf m \<Longrightarrow> hm_wf (hm_remove k m)"
  by (rule distinct_delete)

lemma hm_wf_retain [keeps, intro]: "hm_wf m \<Longrightarrow> hm_wf (hm_retain P m)"
  unfolding hm_retain_def by (rule distinct_map_filter)

lemma hm_has_iff: "hm_has m k \<longleftrightarrow> k \<in> fst ` set m"
  by (simp add: hm_has_def map_of_eq_None_iff)

lemma hm_has_get: "hm_has m k \<longleftrightarrow> (\<exists>v. hm_get m k = Some v)"
  by (auto simp: hm_has_def)

lemma hm_insert_keys: "fst ` set (hm_insert k v m) = insert k (fst ` set m)"
  by (induction m) auto

lemma hm_keys_remove: "fst ` set (hm_remove k m) = fst ` set m - {k}"
  by (auto simp: AList.delete_eq image_iff)

lemma hm_set_get: "hm_wf m \<Longrightarrow> (k, v) \<in> set m \<longleftrightarrow> hm_get m k = Some v"
  by (rule map_of_eq_Some_iff [symmetric])


section \<open>Ordered maps\<close>

text \<open>A \<^verbatim>\<open>BTreeMap\<close> is an association list in strictly ascending order of its keys.\<close>

fun bt_insert :: "'k::linorder \<Rightarrow> 'v \<Rightarrow> ('k \<times> 'v) list \<Rightarrow> ('k \<times> 'v) list" where
  "bt_insert k v [] = [(k, v)]"
| "bt_insert k v ((k', v') # m) =
    (if k < k' then (k, v) # (k', v') # m
     else if k = k' then (k, v) # m
     else (k', v') # bt_insert k v m)"

abbreviation bt_wf :: "('k::linorder \<times> 'v) list \<Rightarrow> bool" where
  "bt_wf m \<equiv> sorted_wrt (<) (map fst m)"

lemma bt_insert_keys: "fst ` set (bt_insert k v m) = insert k (fst ` set m)"
  by (induction k v m rule: bt_insert.induct) auto

lemma bt_wf_insert [keeps, intro]: "bt_wf m \<Longrightarrow> bt_wf (bt_insert k v m)"
proof (induction k v m rule: bt_insert.induct)
  case (2 k v k' v' m)
  then show ?case by (auto simp: bt_insert_keys)
qed simp

lemma bt_get_insert [hmap]:
  "bt_wf m \<Longrightarrow> map_of (bt_insert k v m) k' = (if k' = k then Some v else map_of m k')"
  by (induction k v m rule: bt_insert.induct) auto

lemma bt_wf_filter [keeps, intro]: "bt_wf m \<Longrightarrow> bt_wf (filter P m)"
  by (induction m) auto

lemma bt_insert_last:
  "bt_wf m \<Longrightarrow> (\<And>x. x \<in> fst ` set m \<Longrightarrow> x < k) \<Longrightarrow> bt_insert k v m = m @ [(k, v)]"
proof (induction k v m rule: bt_insert.induct)
  case (2 k v k' v' m)
  have "k' < k" by (rule 2(3)) simp
  then have "\<not> k < k'" "k \<noteq> k'" by auto
  with 2 show ?case by simp
qed simp


section \<open>Folds and sums over lists\<close>

lemma fold_invariant:
  assumes "I s" and "\<And>x s. x \<in> set xs \<Longrightarrow> I s \<Longrightarrow> I (f x s)"
  shows "I (fold f xs s)"
  using assms by (induction xs arbitrary: s) auto

lemma set_map_filter: "set (List.map_filter f xs) = {y. \<exists>x \<in> set xs. f x = Some y}"
  by (induction xs) (auto simp: map_filter_simps split: option.splits)

lemma find_eq_Some:
  "List.find P xs = Some x \<Longrightarrow> x \<in> set xs \<and> P x"
  by (auto simp: find_Some_iff)

lemma find_eq_None: "List.find P xs = None \<longleftrightarrow> (\<forall>x\<in>set xs. \<not> P x)"
  by (auto simp: find_None_iff)


section \<open>Words\<close>

definition sat_sub :: "'a::len word \<Rightarrow> 'a word \<Rightarrow> 'a word" where
  "sat_sub a b = (if a < b then 0 else a - b)"

definition checked_add :: "'a::len word \<Rightarrow> 'a word \<Rightarrow> 'a word option" where
  "checked_add a b = (if unat a + unat b < 2 ^ LENGTH('a) then Some (a + b) else None)"

lemma unat_sat_sub: "unat (sat_sub a b) = unat a - unat b"
  by (auto simp: sat_sub_def word_less_nat_alt unat_sub word_le_nat_alt)

lemma sat_sub_le: "sat_sub a b \<le> a"
  by (simp add: word_le_nat_alt unat_sat_sub)

lemma sat_sub_zero [simp]: "sat_sub a 0 = a"
  by (simp add: sat_sub_def)

lemma unat_sum_list_le:
  fixes ws :: "'a::len word list"
  shows "unat (sum_list ws) \<le> sum_list (map unat ws)"
proof (induction ws)
  case (Cons w ws)
  have "unat (w + sum_list ws) \<le> unat w + unat (sum_list ws)"
    by (simp add: unat_word_ariths)
  with Cons show ?case by simp
qed simp


section \<open>Steps that keep an invariant\<close>

text \<open>
  A system that is driven by a sequence of inputs, each of which the environment offers only
  when its guard holds. What every step keeps, every run keeps, and a run over a concatenation
  is the run over the parts.
\<close>

fun all_enabled :: "('i \<Rightarrow> 's \<Rightarrow> bool) \<Rightarrow> ('i \<Rightarrow> 's \<Rightarrow> 's) \<Rightarrow> 'i list \<Rightarrow> 's \<Rightarrow> bool" where
  "all_enabled guard step [] s = True"
| "all_enabled guard step (i # is) s = (guard i s \<and> all_enabled guard step is (step i s))"

locale guarded_steps =
  fixes guard :: "'i \<Rightarrow> 's \<Rightarrow> bool"
    and step :: "'i \<Rightarrow> 's \<Rightarrow> 's"
    and inv :: "'s \<Rightarrow> bool"
  assumes guarded_keeps: "inv s \<Longrightarrow> guard i s \<Longrightarrow> inv (step i s)"
begin

lemma guarded_run_keeps: "inv s \<Longrightarrow> all_enabled guard step is s \<Longrightarrow> inv (fold step is s)"
  by (induction "is" arbitrary: s) (auto intro: guarded_keeps)

end

locale stepped =
  fixes step :: "'i \<Rightarrow> 's \<Rightarrow> 's"
    and inv :: "'s \<Rightarrow> bool"
  assumes step_keeps: "inv s \<Longrightarrow> inv (step i s)"
begin

lemma all_enabled_True: "all_enabled (\<lambda>_ _. True) step is s"
  by (induction "is" arbitrary: s) auto

end

sublocale stepped \<subseteq> guarded_steps "\<lambda>_ _. True" step inv
  by unfold_locales (rule step_keeps)

context stepped begin

lemma run_keeps: "inv s \<Longrightarrow> inv (fold step is s)"
  by (rule guarded_run_keeps [OF _ all_enabled_True])

lemma run_split: "fold step is s = fold step (drop n is) (fold step (take n is) s)"
  by (metis append_take_drop_id fold_append comp_apply)

end


section \<open>Keyed stores\<close>

text \<open>
  The interface of the in-memory tables: what a lookup returns after an insertion
  and after a removal, and that both keep the invariant of the table.
\<close>

locale keyed_store =
  fixes get :: "'s \<Rightarrow> 'k \<Rightarrow> 'v option"
    and put :: "'k \<Rightarrow> 'v \<Rightarrow> 's \<Rightarrow> 's"
    and del :: "'k \<Rightarrow> 's \<Rightarrow> 's"
    and invar :: "'s \<Rightarrow> bool"
  assumes get_put: "invar s \<Longrightarrow> get (put k v s) k' = (if k' = k then Some v else get s k')"
    and get_del: "invar s \<Longrightarrow> get (del k s) k' = (if k' = k then None else get s k')"
    and invar_put: "invar s \<Longrightarrow> invar (put k v s)"
    and invar_del: "invar s \<Longrightarrow> invar (del k s)"
begin

lemma put_put_same: "invar s \<Longrightarrow> get (put k v (put k w s)) = get (put k v s)"
  by (rule ext) (simp add: get_put invar_put)

lemma put_put_other:
  "invar s \<Longrightarrow> k \<noteq> k' \<Longrightarrow> get (put k v (put k' w s)) = get (put k' w (put k v s))"
  by (rule ext) (simp add: get_put invar_put)

lemma del_put: "invar s \<Longrightarrow> get s k = None \<Longrightarrow> get (del k (put k v s)) = get s"
  by (rule ext) (simp add: get_put get_del invar_put)

lemma put_all_get:
  assumes "invar s" and "distinct (map fst kvs)"
  shows "invar (fold (\<lambda>(k, v). put k v) kvs s) \<and>
    get (fold (\<lambda>(k, v). put k v) kvs s) k
      = (case map_of kvs k of None \<Rightarrow> get s k | Some v \<Rightarrow> Some v)"
  using assms
proof (induction kvs arbitrary: s)
  case (Cons kv kvs)
  obtain k' v where [simp]: "kv = (k', v)" by force
  have "invar (put k' v s)" using Cons.prems by (simp add: invar_put)
  moreover have "k = k' \<Longrightarrow> map_of kvs k = None"
    using Cons.prems by (simp add: map_of_eq_None_iff)
  ultimately show ?case
    using Cons.IH [of "put k' v s"] Cons.prems by (cases "k = k'") (auto simp: get_put split: option.split)
qed simp

end

interpretation hm: keyed_store map_of AList.update AList.delete "\<lambda>m. distinct (map fst m)"
  by unfold_locales (auto intro: distinct_update distinct_delete)

end
