(* ===== verification/F64.thy ===== *)
theory F64
  imports Prelude
begin

text \<open>
  The floating-point numbers of the code, \<^verbatim>\<open>f64\<close>: IEEE 754 binary64 values as NaN,
  the two infinities and the finite values as rationals, with every operation rounded to
  nearest, ties to even. The sign of zero is not kept: no operation of the code reads it.
  Rounding is monotone and leaves zero alone, which carries over to the comparisons that the
  scheduler and the histograms make.
\<close>

datatype f64 = NaN | PInf | NInf | Fin rat

datatype ordering = Less | Equal | Greater


section \<open>Rounding\<close>

definition pow2 :: "int \<Rightarrow> rat" where
  "pow2 k = (if 0 \<le> k then of_int (2 ^ nat k) else 1 / of_int (2 ^ nat (- k)))"

fun bit_len :: "nat \<Rightarrow> nat" where
  "bit_len n = (if n = 0 then 0 else Suc (bit_len (n div 2)))"

declare bit_len.simps [simp del]

definition ilog2 :: "rat \<Rightarrow> int" where
  "ilog2 r = (if 1 \<le> r then int (bit_len (nat \<lfloor>r\<rfloor>)) - 1
              else - int (bit_len (nat (\<lceil>1 / r\<rceil> - 1))))"

definition round_half_even :: "rat \<Rightarrow> int" where
  "round_half_even r =
    (let f = \<lfloor>r\<rfloor>; d = r - of_int f
     in if d < 1 / 2 then f
        else if 1 / 2 < d then f + 1
        else if even f then f else f + 1)"

definition quantum :: "rat \<Rightarrow> rat" where
  "quantum m = pow2 (max (ilog2 m - 52) (-1074))"

definition round_pos :: "rat \<Rightarrow> rat" where
  "round_pos m = of_int (round_half_even (m / quantum m)) * quantum m"

definition f64_limit :: rat where
  "f64_limit = of_int (2 ^ 1024)"

definition f64_round :: "rat \<Rightarrow> f64" where
  "f64_round r =
    (if r = 0 then Fin 0
     else let v = round_pos \<bar>r\<bar>
          in if f64_limit \<le> v then (if 0 < r then PInf else NInf)
             else Fin (if 0 < r then v else - v))"


section \<open>Operations\<close>

fun f64_neg :: "f64 \<Rightarrow> f64" where
  "f64_neg NaN = NaN"
| "f64_neg PInf = NInf"
| "f64_neg NInf = PInf"
| "f64_neg (Fin x) = Fin (- x)"

fun f64_add :: "f64 \<Rightarrow> f64 \<Rightarrow> f64" where
  "f64_add NaN b = NaN"
| "f64_add a NaN = NaN"
| "f64_add PInf NInf = NaN"
| "f64_add NInf PInf = NaN"
| "f64_add PInf b = PInf"
| "f64_add NInf b = NInf"
| "f64_add (Fin x) PInf = PInf"
| "f64_add (Fin x) NInf = NInf"
| "f64_add (Fin x) (Fin y) = f64_round (x + y)"

definition f64_sub :: "f64 \<Rightarrow> f64 \<Rightarrow> f64" where
  "f64_sub a b = f64_add a (f64_neg b)"

definition f64_sign_inf :: "rat \<Rightarrow> f64" where
  "f64_sign_inf x = (if x = 0 then NaN else if 0 < x then PInf else NInf)"

fun f64_mul :: "f64 \<Rightarrow> f64 \<Rightarrow> f64" where
  "f64_mul NaN b = NaN"
| "f64_mul a NaN = NaN"
| "f64_mul PInf PInf = PInf"
| "f64_mul PInf NInf = NInf"
| "f64_mul NInf PInf = NInf"
| "f64_mul NInf NInf = PInf"
| "f64_mul PInf (Fin y) = f64_sign_inf y"
| "f64_mul NInf (Fin y) = f64_sign_inf (- y)"
| "f64_mul (Fin x) PInf = f64_sign_inf x"
| "f64_mul (Fin x) NInf = f64_sign_inf (- x)"
| "f64_mul (Fin x) (Fin y) = f64_round (x * y)"

text \<open>Division; a zero divisor counts as positive zero.\<close>

fun f64_div :: "f64 \<Rightarrow> f64 \<Rightarrow> f64" where
  "f64_div NaN b = NaN"
| "f64_div a NaN = NaN"
| "f64_div PInf (Fin y) = (if 0 \<le> y then PInf else NInf)"
| "f64_div NInf (Fin y) = (if 0 \<le> y then NInf else PInf)"
| "f64_div PInf b = NaN"
| "f64_div NInf b = NaN"
| "f64_div (Fin x) (Fin y) = (if y = 0 then f64_sign_inf x else f64_round (x / y))"
| "f64_div (Fin x) b = Fin 0"

fun f64_le :: "f64 \<Rightarrow> f64 \<Rightarrow> bool" where
  "f64_le NaN b = False"
| "f64_le a NaN = False"
| "f64_le NInf b = True"
| "f64_le a PInf = True"
| "f64_le (Fin x) (Fin y) = (x \<le> y)"
| "f64_le a b = False"

definition f64_eq :: "f64 \<Rightarrow> f64 \<Rightarrow> bool" where
  "f64_eq a b = (f64_le a b \<and> f64_le b a)"

definition f64_lt :: "f64 \<Rightarrow> f64 \<Rightarrow> bool" where
  "f64_lt a b = (f64_le a b \<and> \<not> f64_le b a)"

definition f64_partial_cmp :: "f64 \<Rightarrow> f64 \<Rightarrow> ordering option" where
  "f64_partial_cmp a b =
    (if f64_le a b then Some (if f64_le b a then Equal else Less)
     else if f64_le b a then Some Greater else None)"

definition f64_max :: "f64 \<Rightarrow> f64 \<Rightarrow> f64" where
  "f64_max a b = (if a = NaN then b else if b = NaN then a else if f64_le a b then b else a)"

definition f64_of_nat :: "nat \<Rightarrow> f64" where
  "f64_of_nat n = f64_round (of_nat n)"

definition f64_of_u64 :: "64 word \<Rightarrow> f64" where
  "f64_of_u64 w = f64_of_nat (unat w)"

text \<open>\<^verbatim>\<open>Duration::as_secs_f64\<close>, for a duration of that many nanoseconds.\<close>

definition as_secs_f64 :: "nat \<Rightarrow> f64" where
  "as_secs_f64 ns = f64_add (f64_of_nat (ns div 10 ^ 9))
     (f64_div (f64_of_nat (ns mod 10 ^ 9)) (Fin (10 ^ 9)))"

text \<open>A cast of a float to a signed 64-bit integer truncates towards zero and saturates.\<close>

fun f64_to_i64 :: "f64 \<Rightarrow> int" where
  "f64_to_i64 NaN = 0"
| "f64_to_i64 PInf = 2 ^ 63 - 1"
| "f64_to_i64 NInf = - (2 ^ 63)"
| "f64_to_i64 (Fin x) = max (- (2 ^ 63)) (min (2 ^ 63 - 1) (if 0 \<le> x then \<lfloor>x\<rfloor> else - \<lfloor>- x\<rfloor>))"


section \<open>Comparisons\<close>

lemma f64_le_refl: "f64_le a a \<longleftrightarrow> a \<noteq> NaN"
  by (cases a) auto

lemma f64_le_NaN [simp]: "f64_le a NaN = False"
  by (cases a) auto

lemma f64_le_trans: "f64_le a b \<Longrightarrow> f64_le b c \<Longrightarrow> f64_le a c"
  by (cases a; cases b; cases c) auto

lemma f64_le_total: "a \<noteq> NaN \<Longrightarrow> b \<noteq> NaN \<Longrightarrow> f64_le a b \<or> f64_le b a"
  by (cases a; cases b) auto

lemma f64_le_PInf [simp]: "f64_le a PInf \<longleftrightarrow> a \<noteq> NaN"
  by (cases a) auto

lemma f64_partial_cmp_Greater: "f64_partial_cmp a b = Some Greater \<longleftrightarrow> f64_lt b a"
  by (auto simp: f64_partial_cmp_def f64_lt_def)


section \<open>Rounding is exact on small integers and monotone\<close>

lemma pow2_powi: "pow2 k = 2 powi k"
  by (simp add: pow2_def power_int_def power_one_over inverse_eq_divide)

lemma pow2_pos [simp]: "0 < pow2 k"
  by (simp add: pow2_powi)

lemma pow2_nonneg [simp]: "0 \<le> pow2 k"
  by (simp add: less_imp_le)

lemma pow2_le_iff [simp]: "pow2 k \<le> pow2 l \<longleftrightarrow> k \<le> l"
  using power_int_increasing [of k l "2::rat"] power_int_strict_increasing [of l k "2::rat"]
  by (auto simp: pow2_powi not_less[symmetric])

lemma pow2_mono: "k \<le> l \<Longrightarrow> pow2 k \<le> pow2 l"
  by simp

lemma pow2_add: "pow2 (k + l) = pow2 k * pow2 l"
  by (simp add: pow2_powi power_int_add)

lemma pow2_nat: "pow2 (int n) = 2 ^ n"
  by (simp add: pow2_def)

lemma bit_len_bounds: "0 < n \<Longrightarrow> 2 ^ (bit_len n - 1) \<le> n \<and> n < 2 ^ bit_len n \<and> 0 < bit_len n"
proof (induction n rule: bit_len.induct)
  case (1 n)
  show ?case
  proof (cases "n div 2 = 0")
    case True
    with 1 have "n = 1" by auto
    then show ?thesis by (simp add: bit_len.simps)
  next
    case False
    with 1 have IH: "2 ^ (bit_len (n div 2) - 1) \<le> n div 2" "n div 2 < 2 ^ bit_len (n div 2)"
        "0 < bit_len (n div 2)"
      by auto
    then obtain b where b: "bit_len (n div 2) = Suc b" using gr0_implies_Suc by blast
    show ?thesis using IH 1 by (subst (1 2 3) bit_len.simps) (auto simp: b)
  qed
qed

lemma bit_len_rat:
  assumes "0 < n"
  obtains b where "bit_len n = Suc b" "(2::rat) ^ b \<le> of_nat n" "of_nat n + 1 \<le> (2::rat) ^ Suc b"
proof -
  obtain b where b: "bit_len n = Suc b" using bit_len_bounds [OF assms] gr0_implies_Suc by blast
  have "2 ^ b \<le> n" "n + 1 \<le> 2 ^ Suc b" using bit_len_bounds [OF assms] b by auto
  then have "(of_nat (2 ^ b) :: rat) \<le> of_nat n" "of_nat (n + 1) \<le> (of_nat (2 ^ Suc b) :: rat)"
    by (simp_all only: of_nat_le_iff)
  then have "(2::rat) ^ b \<le> of_nat n" "of_nat n + 1 \<le> (2::rat) ^ Suc b" by simp_all
  with b show ?thesis by (rule that)
qed

lemma ilog2_bounds:
  assumes "0 < r"
  shows "pow2 (ilog2 r) \<le> r" and "r < pow2 (ilog2 r + 1)"
proof -
  have "pow2 (ilog2 r) \<le> r \<and> r < pow2 (ilog2 r + 1)"
  proof (cases "1 \<le> r")
    case True
    define n where "n = nat \<lfloor>r\<rfloor>"
    have n: "0 < n" "of_nat n \<le> r" "r < of_nat n + 1" using True by (auto simp: n_def) linarith+
    obtain b where b: "bit_len n = Suc b" "(2::rat) ^ b \<le> of_nat n" "of_nat n + 1 \<le> (2::rat) ^ Suc b"
      by (rule bit_len_rat [OF n(1)])
    have "ilog2 r = int b" using True b by (simp add: ilog2_def n_def)
    moreover have "pow2 (int b + 1) = 2 ^ Suc b" using pow2_nat [of "Suc b"] by (simp add: add.commute)
    moreover have "2 ^ b \<le> r" "r < 2 ^ Suc b" using b n by linarith+
    ultimately show ?thesis by (simp add: pow2_nat)
  next
    case False
    define n where "n = nat (\<lceil>1 / r\<rceil> - 1)"
    have "1 < 1 / r" using False assms by simp
    then have n: "0 < n" "of_nat n < 1 / r" "1 / r \<le> of_nat n + 1"
      by (auto simp: n_def) linarith+
    obtain b where b: "bit_len n = Suc b" "(2::rat) ^ b \<le> of_nat n" "of_nat n + 1 \<le> (2::rat) ^ Suc b"
      by (rule bit_len_rat [OF n(1)])
    have "2 ^ b < 1 / r" "1 / r \<le> 2 ^ Suc b" using n b by linarith+
    then have "r < 1 / 2 ^ b" "1 / 2 ^ Suc b \<le> r" using assms by (auto simp: field_simps)
    moreover have "ilog2 r = - int (Suc b)" using False b by (simp add: ilog2_def n_def)
    moreover have "pow2 (- int (Suc b)) = 1 / 2 ^ Suc b" "pow2 (- int b) = 1 / 2 ^ b"
      by (simp_all add: pow2_powi power_int_minus inverse_eq_divide del: of_nat_Suc)
    ultimately show ?thesis by simp
  qed
  then show "pow2 (ilog2 r) \<le> r" "r < pow2 (ilog2 r + 1)" by auto
qed

lemma ilog2_mono:
  assumes "0 < x" "x \<le> y"
  shows "ilog2 x \<le> ilog2 y"
proof (rule ccontr)
  assume "\<not> ?thesis"
  then have "pow2 (ilog2 y + 1) \<le> pow2 (ilog2 x)" by (intro pow2_mono) simp
  with ilog2_bounds [of x] ilog2_bounds [of y] assms show False by linarith
qed

lemma round_half_even_int [simp]: "round_half_even (of_int n) = n"
  by (simp add: round_half_even_def)

lemma round_half_even_mono:
  assumes "x \<le> y"
  shows "round_half_even x \<le> round_half_even y"
proof (cases "\<lfloor>x\<rfloor> = \<lfloor>y\<rfloor>")
  case True
  then show ?thesis using assms by (auto simp: round_half_even_def Let_def)
next
  case False
  then have "\<lfloor>x\<rfloor> + 1 \<le> \<lfloor>y\<rfloor>" using floor_mono [OF assms] by linarith
  then show ?thesis by (auto simp: round_half_even_def Let_def)
qed

lemma quantum_pos [simp]: "0 < quantum m"
  by (simp add: quantum_def)

lemma quantum_nonneg [simp]: "0 \<le> quantum m"
  by (simp add: less_imp_le)

lemma round_pos_exact: "m = of_int j * quantum m \<Longrightarrow> round_pos m = m"
  unfolding round_pos_def
  by (metis less_irrefl nonzero_mult_div_cancel_right quantum_pos round_half_even_int)

lemma pow2_multiple: "k \<le> l \<Longrightarrow> pow2 l = of_int (2 ^ nat (l - k)) * pow2 k"
  using pow2_add [of "l - k" k] by (simp add: pow2_def)

lemma quantum_divides:
  assumes "quantum m \<le> pow2 l"
  obtains j where "pow2 l = of_int j * quantum m"
proof -
  define k where "k = max (ilog2 m - 52) (-1074)"
  have q: "quantum m = pow2 k" by (simp add: quantum_def k_def)
  have "k \<le> l" using assms by (simp add: q)
  from pow2_multiple [OF this] show ?thesis unfolding q [symmetric] by (rule that)
qed

lemma round_pos_ge_pow2:
  assumes "pow2 l \<le> m" "quantum m \<le> pow2 l"
  shows "pow2 l \<le> round_pos m"
proof -
  obtain j where l: "pow2 l = of_int j * quantum m" using assms(2) by (rule quantum_divides)
  have "of_int j \<le> m / quantum m" using assms(1) l by (simp add: pos_le_divide_eq)
  from round_half_even_mono [OF this] show ?thesis
    unfolding round_pos_def l by (intro mult_right_mono) simp_all
qed

lemma round_pos_le_pow2:
  assumes "m \<le> pow2 l" "quantum m \<le> pow2 l"
  shows "round_pos m \<le> pow2 l"
proof -
  obtain j where l: "pow2 l = of_int j * quantum m" using assms(2) by (rule quantum_divides)
  have "m / quantum m \<le> of_int j" using assms(1) l by (simp add: pos_divide_le_eq)
  from round_half_even_mono [OF this] show ?thesis
    unfolding round_pos_def l by (intro mult_right_mono) simp_all
qed

lemma round_pos_mono:
  assumes "0 < x" "x \<le> y"
  shows "round_pos x \<le> round_pos y"
proof (cases "quantum x = quantum y")
  case True
  have "round_half_even (x / quantum y) \<le> round_half_even (y / quantum y)"
    by (intro round_half_even_mono divide_right_mono) (use assms in auto)
  then show ?thesis unfolding round_pos_def True by (intro mult_right_mono) auto
next
  case False
  have le: "ilog2 x \<le> ilog2 y" by (rule ilog2_mono [OF assms])
  have lt: "ilog2 x < ilog2 y" using le False by (cases "ilog2 x = ilog2 y") (auto simp: quantum_def)
  have big: "-1074 \<le> ilog2 y - 52" using le False by (auto simp: quantum_def max_def split: if_splits)
  have "round_pos x \<le> pow2 (ilog2 y)"
  proof (rule round_pos_le_pow2)
    show "x \<le> pow2 (ilog2 y)"
      by (rule order_trans [OF less_imp_le [OF ilog2_bounds(2) [OF assms(1)]]]) (use lt in simp)
    show "quantum x \<le> pow2 (ilog2 y)"
      unfolding quantum_def by (rule pow2_mono) (use lt big in auto)
  qed
  also have "\<dots> \<le> round_pos y"
  proof (rule round_pos_ge_pow2)
    show "pow2 (ilog2 y) \<le> y" using ilog2_bounds(1) assms by auto
    show "quantum y \<le> pow2 (ilog2 y)"
      unfolding quantum_def by (rule pow2_mono) (use big in auto)
  qed
  finally show ?thesis .
qed

lemma round_pos_nonneg: "0 < x \<Longrightarrow> 0 \<le> round_pos x"
proof -
  assume "0 < x"
  then have "round_half_even 0 \<le> round_half_even (x / quantum x)"
    by (intro round_half_even_mono) simp
  then show ?thesis using round_half_even_int [of 0] by (simp add: round_pos_def less_imp_le)
qed

lemma f64_round_0 [simp]: "f64_round 0 = Fin 0"
  by (simp add: f64_round_def)

lemma f64_round_not_NaN [simp]: "f64_round x \<noteq> NaN"
  by (simp add: f64_round_def Let_def)

lemma f64_round_mono:
  assumes "x \<le> y"
  shows "f64_le (f64_round x) (f64_round y)"
proof -
  consider "x = 0" | "y = 0" | "0 < x" "0 < y" | "x < 0" "0 < y" | "x < 0" "y < 0"
    using assms by linarith
  then show ?thesis
    using assms round_pos_mono [of x y] round_pos_mono [of "- y" "- x"]
      round_pos_nonneg [of x] round_pos_nonneg [of "- x"] round_pos_nonneg [of y]
      round_pos_nonneg [of "- y"]
    by cases (auto simp: f64_round_def Let_def)
qed

lemma f64_round_int:
  assumes "\<bar>n\<bar> \<le> 2 ^ 53"
  shows "f64_round (of_int n) = Fin (of_int n)"
proof (cases "n = 0")
  case False
  let ?m = "\<bar>of_int n :: rat\<bar>"
  have pos: "0 < ?m" "1 \<le> ?m" using False by (simp_all flip: of_int_abs)
  have le53: "?m \<le> 2 ^ 53" using assms by (metis of_int_abs of_int_le_iff of_int_numeral of_int_power)
  have "pow2 0 < pow2 (ilog2 ?m + 1)"
    using ilog2_bounds(2) [OF pos(1)] pos(2) by (simp add: pow2_def)
  then have lo: "0 \<le> ilog2 ?m" using pow2_mono [of "ilog2 ?m + 1" 0] by linarith
  have "pow2 (ilog2 ?m) \<le> pow2 53" using ilog2_bounds(1) [OF pos(1)] le53 by (simp add: pow2_def)
  then have hi: "ilog2 ?m \<le> 53"
    by simp
  have "round_pos ?m = ?m"
  proof (cases "ilog2 ?m \<le> 52")
    case True
    then have "quantum ?m = pow2 (ilog2 ?m - 52)" using lo by (simp add: quantum_def)
    moreover have "pow2 0 = of_int (2 ^ nat (52 - ilog2 ?m)) * pow2 (ilog2 ?m - 52)"
      using pow2_multiple [of "ilog2 ?m - 52" 0] True by simp
    ultimately have "?m = of_int (\<bar>n\<bar> * 2 ^ nat (52 - ilog2 ?m)) * quantum ?m"
      by (simp add: pow2_def)
    then show ?thesis by (rule round_pos_exact)
  next
    case False
    then have i: "ilog2 ?m = 53" using hi by simp
    have "?m = 2 ^ 53" using ilog2_bounds(1) [OF pos(1)] le53 unfolding i by (simp add: pow2_def)
    then have "?m = of_int (2 ^ 52) * quantum ?m" unfolding quantum_def i by (simp add: pow2_def)
    then show ?thesis by (rule round_pos_exact)
  qed
  moreover have "?m < f64_limit" using le53 by (rule order_le_less_trans) (simp add: f64_limit_def)
  ultimately show ?thesis by (auto simp: f64_round_def abs_if)
qed simp

lemma f64_round_numeral [simp]:
  "numeral k \<le> (2 ^ 53 :: int) \<Longrightarrow> f64_round (numeral k) = Fin (numeral k)"
  using f64_round_int [of "numeral k"] by simp

lemma f64_round_1 [simp]: "f64_round 1 = Fin 1"
  using f64_round_int [of 1] by simp

lemma f64_sub_nonneg: "f64_le (Fin y) (Fin x) \<Longrightarrow> f64_le (Fin 0) (f64_sub (Fin x) (Fin y))"
  using f64_round_mono [of 0 "x - y"] by (simp add: f64_sub_def)
end
