(* ===== verification/Types.thy ===== *)
theory Types
  imports F64
begin

text \<open>
  The data types of \<^verbatim>\<open>crates/config/src/types\<close>: the raw and the resolved
  configuration, the runtime state of nodes and allocations, and the specifications handed to
  the container runtime, the proxy and the DNS server. Field names carry a prefix where Rust
  structs share them. A \<^verbatim>\<open>ByteSize\<close> is its 64-bit count of bytes, a
  \<^verbatim>\<open>Duration\<close> and a \<^verbatim>\<open>SystemTime\<close> a number of nanoseconds.
\<close>

type_synonym u64 = "64 word"
type_synonym u32 = "32 word"
type_synonym u16 = "16 word"
type_synonym bytes = "8 word list"
type_synonym byte_size = u64
type_synonym duration = nat
type_synonym time = nat

type_synonym node_id = string
type_synonym alloc_id = string

section \<open>Addresses\<close>

datatype ip_addr = V4 "32 word" | V6 "128 word"

record socket_addr =
  sa_ip :: ip_addr
  sa_port :: u16


section \<open>Raw configuration\<close>

record raw_health_check =
  rh_path :: string
  rh_interval :: string
  rh_failure_threshold :: "u32 option"

record raw_route_def =
  rr_path :: string
  rr_websocket :: bool

record raw_volume_def =
  rv_path :: string
  rv_size :: "string option"
  rv_ephemeral :: bool

record raw_service_def =
  rs_image :: string
  rs_port :: u16
  rs_replicas :: u32
  rs_cpu :: f64
  rs_memory :: string
  rs_env :: "(string, string) hash_map"
  rs_health :: "raw_health_check option"
  rs_route :: "(string, raw_route_def) hash_map"
  rs_volume :: "(string, raw_volume_def) hash_map"
  rs_command :: "string list option"

record raw_task_def =
  rt_image :: string
  rt_cpu :: f64
  rt_memory :: string
  rt_timeout :: string
  rt_env :: "(string, string) hash_map"
  rt_command :: "string list option"

record raw_config =
  rc_service :: "(string, raw_service_def) hash_map"
  rc_task :: "(string, raw_task_def) hash_map"

definition default_replicas :: u32 where "default_replicas = 1"
definition default_cpu :: f64 where "default_cpu = Fin (1 / 4)"
definition default_memory :: string where "default_memory = ''256M''"
definition default_timeout :: string where "default_timeout = ''1h''"
definition default_health_interval :: string where "default_health_interval = ''10s''"


section \<open>Resolved configuration\<close>

datatype env_part =
    PLiteral string
  | ServiceAddress string
  | Secret string

datatype env_value =
    ELiteral string
  | Interpolated "env_part list"

record resources =
  r_cpu :: f64
  r_memory :: byte_size

record health_check =
  h_path :: string
  h_interval :: duration
  h_failure_threshold :: u32

record route_def =
  rd_hostname :: string
  rd_path :: string
  rd_websocket :: bool

record volume_def =
  vd_name :: string
  vd_path :: string
  vd_size :: "byte_size option"
  vd_ephemeral :: bool

record service_def =
  s_image :: string
  s_port :: u16
  s_replicas :: u32
  s_resources :: resources
  s_env :: "(string, env_value) hash_map"
  s_command :: "string list option"
  s_health :: "health_check option"
  s_routes :: "route_def list"
  s_volumes :: "volume_def list"

record task_def =
  t_image :: string
  t_resources :: resources
  t_timeout :: duration
  t_env :: "(string, env_value) hash_map"
  t_command :: "string list option"

record cluster_config =
  c_services :: "(string, service_def) hash_map"
  c_tasks :: "(string, task_def) hash_map"


section \<open>Runtime state\<close>

record node_resources =
  nr_cpu_total :: f64
  nr_cpu_available :: f64
  nr_memory_total :: byte_size
  nr_memory_available :: byte_size

datatype node_status = NReady | NDraining | NDown

datatype alloc_kind = KService | KTask

datatype alloc_status =
    Pulling
  | Starting
  | Running
  | Healthy
  | Stopped (exit_code: "32 word")
  | Failed (fail_reason: string)

fun is_active :: "alloc_status \<Rightarrow> bool" where
  "is_active Running = True"
| "is_active Healthy = True"
| "is_active _ = False"

fun is_terminal :: "alloc_status \<Rightarrow> bool" where
  "is_terminal (Stopped _) = True"
| "is_terminal (Failed _) = True"
| "is_terminal _ = False"

record alloc_resources =
  ar_cpu :: f64
  ar_memory :: byte_size

definition alloc_resources_from :: "resources \<Rightarrow> alloc_resources" where
  "alloc_resources_from r = \<lparr> ar_cpu = r_cpu r, ar_memory = r_memory r \<rparr>"

record alloc =
  al_id :: alloc_id
  al_node :: node_id
  al_name :: string
  al_kind :: alloc_kind
  al_status :: alloc_status
  al_address :: "socket_addr option"
  al_resources :: alloc_resources
  al_started_at :: "time option"

datatype volume_state = VReady | VAttached (attached_node: node_id)

fun show_node_status :: "node_status \<Rightarrow> string" where
  "show_node_status NReady = ''ready''"
| "show_node_status NDraining = ''draining''"
| "show_node_status NDown = ''down''"

fun show_alloc_kind :: "alloc_kind \<Rightarrow> string" where
  "show_alloc_kind KService = ''service''"
| "show_alloc_kind KTask = ''task''"

fun show_alloc_status :: "alloc_status \<Rightarrow> string" where
  "show_alloc_status Pulling = ''pulling''"
| "show_alloc_status Starting = ''starting''"
| "show_alloc_status Running = ''running''"
| "show_alloc_status Healthy = ''healthy''"
| "show_alloc_status (Stopped _) = ''stopped''"
| "show_alloc_status (Failed _) = ''failed''"

fun show_volume_state :: "volume_state \<Rightarrow> string" where
  "show_volume_state VReady = ''ready''"
| "show_volume_state (VAttached node) = ''attached ('' @ node @ '')''"


section \<open>Interfaces of the data plane\<close>

record container_volume =
  cv_name :: string
  cv_path :: string
  cv_ephemeral :: bool

record container_spec =
  cs_alloc_id :: alloc_id
  cs_kind :: alloc_kind
  cs_timeout :: "duration option"
  cs_command :: "string list option"
  cs_image :: string
  cs_env :: "(string, string) hash_map"
  cs_port :: "u16 option"
  cs_host_port :: "u16 option"
  cs_cpu :: f64
  cs_memory :: byte_size
  cs_volumes :: "container_volume list"

record proxy_route =
  pr_hostname :: string
  pr_path :: string
  pr_backend :: socket_addr
  pr_websocket :: bool

record dns_record =
  dr_name :: string
  dr_addresses :: "socket_addr list"

record container_stats =
  ct_alloc_id :: alloc_id
  ct_cpu_usage :: f64
  ct_memory_usage :: byte_size

text \<open>
  What the manual \<^verbatim>\<open>Debug\<close> of a container specification prints of the
  environment: the keys, with every value redacted.
\<close>

definition debug_env :: "container_spec \<Rightarrow> (string, string) hash_map" where
  "debug_env spec = map (\<lambda>(k, _). (k, ''<redacted>'')) (cs_env spec)"


section \<open>Facts\<close>

lemma is_active_not_terminal: "is_active s \<Longrightarrow> \<not> is_terminal s"
  by (cases s) auto

lemma is_terminal_iff: "is_terminal s \<longleftrightarrow> (\<exists>c. s = Stopped c) \<or> (\<exists>r. s = Failed r)"
  by (cases s) auto

lemma status_cases:
  "is_terminal s \<or> is_active s \<or> s = Pulling \<or> s = Starting"
  by (cases s) auto

lemma debug_env_redacted: "snd ` set (debug_env spec) \<subseteq> {''<redacted>''}"
  by (auto simp: debug_env_def)

lemma debug_env_keys: "hm_keys (debug_env spec) = hm_keys (cs_env spec)"
  by (simp add: debug_env_def comp_def case_prod_unfold)

end
