(* ===== verification/Strings.thy ===== *)
theory Strings
  imports Prelude
begin

text \<open>
  The string operations of the Rust standard library that the code uses, on strings as lists
  of their UTF-8 bytes: decimal numbers, prefixes and suffixes, searching, splitting and
  joining. Each comes with the law its callers rely on.
\<close>

section \<open>Decimal numbers\<close>

definition digit :: "nat \<Rightarrow> char" where
  "digit d = char_of (48 + d)"

fun show_nat :: "nat \<Rightarrow> string" where
  "show_nat n = (if n < 10 then [digit n] else show_nat (n div 10) @ [digit (n mod 10)])"

declare show_nat.simps [simp del]

abbreviation show_word :: "'a::len word \<Rightarrow> string" where
  "show_word w \<equiv> show_nat (unat w)"

definition is_digit :: "char \<Rightarrow> bool" where
  "is_digit c = (48 \<le> (of_char c :: nat) \<and> (of_char c :: nat) \<le> 57)"

definition digit_val :: "char \<Rightarrow> nat" where
  "digit_val c = of_char c - 48"

fun parse_digits :: "nat \<Rightarrow> string \<Rightarrow> nat option" where
  "parse_digits acc [] = Some acc"
| "parse_digits acc (c # cs) = (if is_digit c then parse_digits (acc * 10 + digit_val c) cs else None)"

text \<open>
  \<^verbatim>\<open>str::parse\<close> for an unsigned integer below a bound: an optional plus sign, then at
  least one digit; a value out of range is an error.
\<close>

definition parse_unsigned :: "nat \<Rightarrow> string \<Rightarrow> nat option" where
  "parse_unsigned bound s =
    (let ds = (case s of c # cs \<Rightarrow> if c = CHR ''+'' then cs else s | [] \<Rightarrow> [])
     in if ds = [] then None
        else case parse_digits 0 ds of
               Some n \<Rightarrow> if n < bound then Some n else None
             | None \<Rightarrow> None)"


section \<open>Prefixes, suffixes and searching\<close>

definition starts_with :: "string \<Rightarrow> string \<Rightarrow> bool" where
  "starts_with s p = (take (length p) s = p)"

definition ends_with :: "string \<Rightarrow> string \<Rightarrow> bool" where
  "ends_with s p = (length p \<le> length s \<and> drop (length s - length p) s = p)"

definition strip_prefix :: "string \<Rightarrow> string \<Rightarrow> string option" where
  "strip_prefix s p = (if starts_with s p then Some (drop (length p) s) else None)"

definition strip_suffix :: "string \<Rightarrow> string \<Rightarrow> string option" where
  "strip_suffix s p = (if ends_with s p then Some (take (length s - length p) s) else None)"

fun str_find :: "string \<Rightarrow> string \<Rightarrow> nat option" where
  "str_find [] p = (if p = [] then Some 0 else None)"
| "str_find (c # cs) p =
    (if starts_with (c # cs) p then Some 0 else map_option Suc (str_find cs p))"

definition split_once :: "string \<Rightarrow> string \<Rightarrow> (string \<times> string) option" where
  "split_once s p = map_option (\<lambda>i. (take i s, drop (i + length p) s)) (str_find s p)"

definition contains_char :: "string \<Rightarrow> char \<Rightarrow> bool" where
  "contains_char s c = (c \<in> set s)"

fun split_char :: "char \<Rightarrow> string \<Rightarrow> string list" where
  "split_char d [] = [[]]"
| "split_char d (c # cs) =
    (if c = d then [] # split_char d cs
     else case split_char d cs of w # ws \<Rightarrow> (c # w) # ws | [] \<Rightarrow> [[c]])"

fun join_with :: "string \<Rightarrow> string list \<Rightarrow> string" where
  "join_with sep [] = []"
| "join_with sep [x] = x"
| "join_with sep (x # y # xs) = x @ sep @ join_with sep (y # xs)"

definition ascii_lower :: "char \<Rightarrow> char" where
  "ascii_lower c =
    (if 65 \<le> (of_char c :: nat) \<and> (of_char c :: nat) \<le> 90 then char_of (of_char c + 32 :: nat) else c)"


text \<open>\<^verbatim>\<open>from_str_radix\<close> with radix sixteen, for an unsigned integer below a bound.\<close>

definition hex_val :: "char \<Rightarrow> nat option" where
  "hex_val c =
    (let n = (of_char c :: nat)
     in if 48 \<le> n \<and> n \<le> 57 then Some (n - 48)
        else if 65 \<le> n \<and> n \<le> 70 then Some (n - 55)
        else if 97 \<le> n \<and> n \<le> 102 then Some (n - 87)
        else None)"

fun parse_hex_digits :: "nat \<Rightarrow> string \<Rightarrow> nat option" where
  "parse_hex_digits acc [] = Some acc"
| "parse_hex_digits acc (c # cs) =
    (case hex_val c of None \<Rightarrow> None | Some d \<Rightarrow> parse_hex_digits (acc * 16 + d) cs)"

definition from_str_radix16 :: "nat \<Rightarrow> string \<Rightarrow> nat option" where
  "from_str_radix16 bound s =
    (let ds = (case s of c # cs \<Rightarrow> if c = CHR ''+'' then cs else s | [] \<Rightarrow> [])
     in if ds = [] then None
        else case parse_hex_digits 0 ds of
               Some n \<Rightarrow> if n < bound then Some n else None
             | None \<Rightarrow> None)"


text \<open>A string between single quotes.\<close>

definition quoted :: "string \<Rightarrow> string" where
  "quoted s = CHR 0x27 # s @ [CHR 0x27]"


section \<open>White space and lines\<close>

text \<open>
  The length in bytes of the white-space character a string starts with, zero if it starts with
  none: the six ASCII ones and the multi-byte encodings of the others that Unicode lists.
\<close>

fun ws_len :: "string \<Rightarrow> nat" where
  "ws_len [] = 0"
| "ws_len (c # cs) =
    (let b = (of_char c :: nat) in
     if (9 \<le> b \<and> b \<le> 13) \<or> b = 32 then 1
     else case cs of
       [] \<Rightarrow> 0
     | d # ds \<Rightarrow>
        (let b2 = (of_char d :: nat) in
         if b = 194 \<and> (b2 = 133 \<or> b2 = 160) then 2
         else case ds of
           [] \<Rightarrow> 0
         | e # _ \<Rightarrow>
            (let b3 = (of_char e :: nat) in
             if (b = 225 \<and> b2 = 154 \<and> b3 = 128) \<or>
                (b = 226 \<and> b2 = 128 \<and> ((128 \<le> b3 \<and> b3 \<le> 138) \<or> b3 = 168 \<or> b3 = 169 \<or> b3 = 175)) \<or>
                (b = 226 \<and> b2 = 129 \<and> b3 = 159) \<or> (b = 227 \<and> b2 = 128 \<and> b3 = 128)
             then 3 else 0)))"

function trim_start :: "string \<Rightarrow> string" where
  "trim_start s = (if ws_len s = 0 then s else trim_start (drop (ws_len s) s))"
  by pat_completeness auto
termination
proof (relation "measure length", simp)
  fix s :: string
  assume "ws_len s \<noteq> 0"
  then show "(drop (ws_len s) s, s) \<in> measure length" by (cases s) auto
qed

declare trim_start.simps [simp del]

text \<open>Up to the last byte that belongs to a character that is not white space.\<close>

fun trim_end :: "string \<Rightarrow> string" where
  "trim_end [] = []"
| "trim_end (c # cs) = (if trim_start (c # cs) = [] then [] else c # trim_end cs)"

definition str_trim :: "string \<Rightarrow> string" where
  "str_trim s = trim_end (trim_start s)"

text \<open>The words of a string; the first argument is the word read so far, reversed.\<close>

function words_loop :: "string \<Rightarrow> string \<Rightarrow> string list" where
  "words_loop acc [] = (if acc = [] then [] else [rev acc])"
| "words_loop acc (c # cs) =
    (if ws_len (c # cs) = 0 then words_loop (c # acc) cs
     else (if acc = [] then [] else [rev acc]) @ words_loop [] (drop (ws_len (c # cs)) (c # cs)))"
  by pat_completeness auto
termination by (relation "measure (\<lambda>(_, s). length s)") auto

definition split_whitespace :: "string \<Rightarrow> string list" where
  "split_whitespace s = words_loop [] s"

text \<open>
  \<^verbatim>\<open>str::lines\<close>: split at newlines, without the carriage return before a newline and
  without an empty last line.
\<close>

definition strip_cr :: "string \<Rightarrow> string" where
  "strip_cr l = (if l \<noteq> [] \<and> last l = CHR 0x0D then butlast l else l)"

definition str_lines :: "string \<Rightarrow> string list" where
  "str_lines s =
    (let ps = split_char CHR 0x0A s
     in map strip_cr (butlast ps) @ (if last ps = [] then [] else [last ps]))"


section \<open>Laws\<close>

lemma is_digit_digit [simp]: "d < 10 \<Longrightarrow> is_digit (digit d)"
  by (simp add: is_digit_def digit_def of_char_of)

lemma digit_val_digit [simp]: "d < 10 \<Longrightarrow> digit_val (digit d) = d"
  by (simp add: digit_val_def digit_def of_char_of)

lemma parse_digits_append:
  "parse_digits acc (xs @ ys) = Option.bind (parse_digits acc xs) (\<lambda>a. parse_digits a ys)"
  by (induction acc xs rule: parse_digits.induct) auto

lemma show_nat_not_Nil [simp]: "show_nat n \<noteq> []"
  by (subst show_nat.simps) simp

lemma parse_digits_show: "parse_digits 0 (show_nat n) = Some n"
proof (induction n rule: show_nat.induct)
  case (1 n)
  show ?case
    by (subst show_nat.simps) (use 1 in \<open>auto simp: parse_digits_append\<close>)
qed

lemma show_nat_digits: "c \<in> set (show_nat n) \<Longrightarrow> is_digit c"
proof (induction n rule: show_nat.induct)
  case (1 n)
  from 1(2) show ?case
    by (subst (asm) show_nat.simps) (use 1(1) in \<open>auto split: if_splits\<close>)
qed

lemma show_nat_inj: "show_nat m = show_nat n \<longleftrightarrow> m = n"
  by (metis option.inject parse_digits_show)

lemma not_digit_plus: "\<not> is_digit CHR ''+''"
  by (simp add: is_digit_def)

lemma parse_unsigned_show: "n < bound \<Longrightarrow> parse_unsigned bound (show_nat n) = Some n"
proof -
  assume "n < bound"
  obtain c cs where s: "show_nat n = c # cs" by (cases "show_nat n") auto
  have "c \<noteq> CHR ''+''" using show_nat_digits [of c n] s not_digit_plus by auto
  then show ?thesis using parse_digits_show [of n] \<open>n < bound\<close> by (simp add: parse_unsigned_def s)
qed

lemma parse_unsigned_bound: "parse_unsigned bound s = Some n \<Longrightarrow> n < bound"
  by (auto simp: parse_unsigned_def Let_def split: if_splits option.splits list.splits)

lemma starts_with_iff: "starts_with s p \<longleftrightarrow> (\<exists>t. s = p @ t)"
  by (metis append_eq_conv_conj append_take_drop_id starts_with_def)

lemma starts_with_prefix: "starts_with s p \<longleftrightarrow> prefix p s"
  by (auto simp: starts_with_iff prefix_def)

lemma starts_with_append [simp]: "starts_with (p @ t) p"
  by (simp add: starts_with_def)

lemma strip_prefix_eq_Some: "strip_prefix s p = Some t \<longleftrightarrow> s = p @ t"
  by (auto simp: strip_prefix_def starts_with_iff)

lemma ends_with_iff: "ends_with s p \<longleftrightarrow> (\<exists>t. s = t @ p)"
  by (auto simp: ends_with_def) (metis append_take_drop_id)

lemma strip_suffix_eq_Some: "strip_suffix s p = Some t \<longleftrightarrow> s = t @ p"
proof
  assume "strip_suffix s p = Some t"
  then have "ends_with s p" "t = take (length s - length p) s"
    by (auto simp: strip_suffix_def split: if_splits)
  then show "s = t @ p" by (auto simp: ends_with_iff)
qed (simp add: strip_suffix_def ends_with_def)

lemma str_find_Some:
  "str_find s p = Some i \<Longrightarrow> s = take i s @ p @ drop (i + length p) s"
proof (induction s p arbitrary: i rule: str_find.induct)
  case (2 c cs p)
  show ?case
  proof (cases "starts_with (c # cs) p")
    case True
    with 2(2) show ?thesis by (auto simp: starts_with_iff)
  next
    case False
    with 2(2) obtain j where j: "i = Suc j" "str_find cs p = Some j" by auto
    from 2(1) [OF False j(2)] show ?thesis by (simp add: j)
  qed
qed (auto split: if_splits)

lemma str_find_None: "str_find s p = None \<longleftrightarrow> \<not> sublist p s"
proof (induction s p rule: str_find.induct)
  case (2 c cs p)
  then show ?case by (auto simp: starts_with_prefix sublist_Cons_right)
qed auto

lemma split_once_Some: "split_once s p = Some (a, b) \<Longrightarrow> s = a @ p @ b"
  using str_find_Some by (auto simp: split_once_def)

lemma split_char_not_Nil [simp]: "split_char d s \<noteq> []"
  by (cases s) (auto split: list.splits)

lemma join_with_head: "join_with sep ((c # x) # xs) = c # join_with sep (x # xs)"
  by (cases xs) auto

lemma join_split_char: "join_with [d] (split_char d s) = s"
proof (induction s)
  case (Cons c s)
  then show ?case by (cases "split_char d s") (auto simp: join_with_head)
qed simp

end
