(* ===== verification/Fsm.thy ===== *)
theory Fsm
  imports Types Strings
begin

text \<open>
  The replicated state machine of \<^verbatim>\<open>crates/raft/src/fsm\<close>: the cluster state
  (\<^verbatim>\<open>state.rs\<close>), the commands (\<^verbatim>\<open>command.rs\<close>), their
  application (\<^verbatim>\<open>apply.rs\<close>) and the queries on the state. The state passes
  explicitly, a command yields the new state and a response. The invariant \<open>fsm_inv\<close>
  says that the tables are maps, that every node and allocation is stored under its own
  identifier, and that every command keeps this.
\<close>

section \<open>State\<close>

record fsm_node =
  n_raft_id :: u64
  n_mill_id :: node_id
  n_address :: socket_addr
  n_resources :: node_resources
  n_status :: node_status
  n_wireguard_pubkey :: "string option"
  n_instance_id :: "string option"
  n_rpc_address :: "socket_addr option"
  n_advertise_addr :: "string option"

record encrypted_secret =
  es_encrypted_value :: bytes
  es_nonce :: bytes

record fsm_volume =
  v_cloud_id :: string
  v_state :: volume_state

record fsm_state =
  f_config :: "cluster_config option"
  f_nodes :: "(u64, fsm_node) hash_map"
  f_allocs :: "(alloc_id, alloc) hash_map"
  f_secrets :: "(string, encrypted_secret) hash_map"
  f_volumes :: "(string, fsm_volume) hash_map"

definition fsm_default :: fsm_state where
  "fsm_default = \<lparr> f_config = None, f_nodes = [], f_allocs = [], f_secrets = [], f_volumes = [] \<rparr>"


section \<open>Commands\<close>

datatype command =
    Deploy cluster_config
  | NodeRegister u64 node_id socket_addr node_resources "string option" "string option"
      "socket_addr option" "string option"
  | NodeHeartbeat u64 "(alloc_id, alloc_status) hash_map"
  | NodeDown u64
  | AllocScheduled alloc_id u64 string alloc_kind "socket_addr option" alloc_resources
  | AllocStatus alloc_id alloc_status
  | AllocRunning alloc_id "socket_addr option" "time option"
  | SecretSet string bytes bytes
  | SecretDelete string
  | VolumeCreated string string
  | VolumeAttached string u64
  | VolumeDetached string
  | VolumeDestroyed string
  | NodeDrain u64
  | NodeRemove u64

datatype response = ROk | RError string


section \<open>Queries\<close>

definition list_nodes :: "fsm_state \<Rightarrow> fsm_node list" where
  "list_nodes s = hm_values (f_nodes s)"

definition list_allocs :: "fsm_state \<Rightarrow> alloc list" where
  "list_allocs s = hm_values (f_allocs s)"

definition list_service_allocs :: "fsm_state \<Rightarrow> string \<Rightarrow> alloc list" where
  "list_service_allocs s name = filter (\<lambda>a. al_name a = name) (hm_values (f_allocs s))"

definition get_secret :: "fsm_state \<Rightarrow> string \<Rightarrow> encrypted_secret option" where
  "get_secret s name = hm_get (f_secrets s) name"

definition list_secret_names :: "fsm_state \<Rightarrow> string list" where
  "list_secret_names s = hm_keys (f_secrets s)"

definition list_volumes :: "fsm_state \<Rightarrow> (string \<times> fsm_volume) list" where
  "list_volumes s = f_volumes s"

text \<open>The allocations that count against a node: placed there and not terminal.\<close>

definition counted :: "node_id \<Rightarrow> alloc \<Rightarrow> bool" where
  "counted mill_id a = (al_node a = mill_id \<and> \<not> is_terminal (al_status a))"

fun used_loop :: "node_id \<Rightarrow> alloc list \<Rightarrow> f64 \<times> u64 \<Rightarrow> f64 \<times> u64" where
  "used_loop mill_id [] acc = acc"
| "used_loop mill_id (a # as) (cpu_used, mem_used) =
    (if al_node a = mill_id
     then if is_terminal (al_status a) then used_loop mill_id as (cpu_used, mem_used)
          else used_loop mill_id as
                 (f64_add cpu_used (ar_cpu (al_resources a)), mem_used + ar_memory (al_resources a))
     else used_loop mill_id as (cpu_used, mem_used))"

definition node_available_resources :: "fsm_state \<Rightarrow> u64 \<Rightarrow> node_resources option" where
  "node_available_resources s node_id =
    (case hm_get (f_nodes s) node_id of
       None \<Rightarrow> None
     | Some node \<Rightarrow>
         (case used_loop (n_mill_id node) (hm_values (f_allocs s)) (Fin 0, 0) of
            (cpu_used, mem_used) \<Rightarrow> Some \<lparr>
              nr_cpu_total = nr_cpu_total (n_resources node),
              nr_cpu_available = f64_sub (nr_cpu_total (n_resources node)) cpu_used,
              nr_memory_total = nr_memory_total (n_resources node),
              nr_memory_available = sat_sub (nr_memory_total (n_resources node)) mem_used \<rparr>))"

definition instance_id_for :: "fsm_state \<Rightarrow> u64 \<Rightarrow> string option" where
  "instance_id_for s raft_id = Option.bind (hm_get (f_nodes s) raft_id) n_instance_id"

definition raft_id_for :: "fsm_state \<Rightarrow> node_id \<Rightarrow> u64 option" where
  "raft_id_for s mill_id =
    map_option n_raft_id (List.find (\<lambda>n. n_mill_id n = mill_id) (hm_values (f_nodes s)))"

definition make_alloc ::
  "alloc_id \<Rightarrow> node_id \<Rightarrow> string \<Rightarrow> alloc_kind \<Rightarrow> socket_addr option \<Rightarrow> alloc_resources \<Rightarrow> alloc" where
  "make_alloc alloc_id node_mill_id name kind address res = \<lparr>
     al_id = alloc_id, al_node = node_mill_id, al_name = name, al_kind = kind,
     al_status = Pulling, al_address = address, al_resources = res, al_started_at = None \<rparr>"


section \<open>Application of a command\<close>

definition unknown_node :: "u64 \<Rightarrow> response" where
  "unknown_node i = RError (''unknown node '' @ show_word i)"

definition unknown_alloc :: "alloc_id \<Rightarrow> response" where
  "unknown_alloc i = RError (''unknown alloc '' @ i)"

text \<open>One entry of the loop over the statuses of a heartbeat.\<close>

definition heartbeat_status :: "alloc_status \<Rightarrow> alloc \<Rightarrow> alloc" where
  "heartbeat_status status a =
    (if al_status a = Healthy \<and> status = Running then a else a\<lparr> al_status := status \<rparr>)"

fun heartbeat_loop ::
  "(alloc_id \<times> alloc_status) list \<Rightarrow> (alloc_id, alloc) hash_map \<Rightarrow> (alloc_id, alloc) hash_map" where
  "heartbeat_loop [] allocs = allocs"
| "heartbeat_loop ((alloc_id, status) # rest) allocs =
    heartbeat_loop rest (hm_alter (heartbeat_status status) alloc_id allocs)"

definition mark_running :: "socket_addr option \<Rightarrow> time option \<Rightarrow> alloc \<Rightarrow> alloc" where
  "mark_running address started_at a =
    (if al_status a = Pulling \<or> al_status a = Starting
     then a\<lparr> al_status := Running, al_address := address, al_started_at := started_at \<rparr>
     else a)"

fun apply_command :: "fsm_state \<Rightarrow> command \<Rightarrow> fsm_state \<times> response" where
  "apply_command s (Deploy config) = (s\<lparr> f_config := Some config \<rparr>, ROk)"
| "apply_command s (NodeRegister i mill_id address res wireguard_pubkey instance_id
      rpc_address advertise_addr) =
    (s\<lparr> f_nodes := hm_insert i \<lparr>
        n_raft_id = i, n_mill_id = mill_id, n_address = address, n_resources = res,
        n_status = NReady, n_wireguard_pubkey = wireguard_pubkey, n_instance_id = instance_id,
        n_rpc_address = rpc_address, n_advertise_addr = advertise_addr \<rparr> (f_nodes s) \<rparr>, ROk)"
| "apply_command s (NodeHeartbeat i alloc_statuses) =
    (case hm_get (f_nodes s) i of
       None \<Rightarrow> (s, unknown_node i)
     | Some _ \<Rightarrow>
        (s\<lparr> f_nodes := hm_alter (\<lambda>n. if n_status n = NDown then n\<lparr> n_status := NReady \<rparr> else n) i (f_nodes s),
            f_allocs := heartbeat_loop alloc_statuses (f_allocs s) \<rparr>, ROk))"
| "apply_command s (NodeDown i) =
    (case hm_get (f_nodes s) i of
       None \<Rightarrow> (s, unknown_node i)
     | Some _ \<Rightarrow> (s\<lparr> f_nodes := hm_alter (\<lambda>n. n\<lparr> n_status := NDown \<rparr>) i (f_nodes s) \<rparr>, ROk))"
| "apply_command s (AllocScheduled alloc_id node_id name kind address res) =
    (case hm_get (f_nodes s) node_id of
       None \<Rightarrow> (s, unknown_node node_id)
     | Some node \<Rightarrow>
        (s\<lparr> f_allocs := hm_insert alloc_id
              (make_alloc alloc_id (n_mill_id node) name kind address res) (f_allocs s) \<rparr>, ROk))"
| "apply_command s (AllocStatus alloc_id status) =
    (case hm_get (f_allocs s) alloc_id of
       None \<Rightarrow> (s, unknown_alloc alloc_id)
     | Some _ \<Rightarrow>
        (s\<lparr> f_allocs := hm_alter (\<lambda>a. a\<lparr> al_status := status \<rparr>) alloc_id (f_allocs s) \<rparr>, ROk))"
| "apply_command s (AllocRunning alloc_id address started_at) =
    (case hm_get (f_allocs s) alloc_id of
       None \<Rightarrow> (s, unknown_alloc alloc_id)
     | Some _ \<Rightarrow>
        (s\<lparr> f_allocs := hm_alter (mark_running address started_at) alloc_id (f_allocs s) \<rparr>, ROk))"
| "apply_command s (SecretSet name encrypted_value nonce) =
    (s\<lparr> f_secrets := hm_insert name
          \<lparr> es_encrypted_value = encrypted_value, es_nonce = nonce \<rparr> (f_secrets s) \<rparr>, ROk)"
| "apply_command s (SecretDelete name) =
    (case hm_get (f_secrets s) name of
       None \<Rightarrow> (s, RError (''unknown secret '' @ name))
     | Some _ \<Rightarrow> (s\<lparr> f_secrets := hm_remove name (f_secrets s) \<rparr>, ROk))"
| "apply_command s (VolumeCreated name cloud_id) =
    (s\<lparr> f_volumes := hm_insert name \<lparr> v_cloud_id = cloud_id, v_state = VReady \<rparr> (f_volumes s) \<rparr>, ROk)"
| "apply_command s (VolumeAttached name node) =
    (case hm_get (f_nodes s) node of
       None \<Rightarrow> (s, unknown_node node)
     | Some n \<Rightarrow>
        (case hm_get (f_volumes s) name of
           None \<Rightarrow> (s, RError (''unknown volume '' @ name))
         | Some _ \<Rightarrow>
            (s\<lparr> f_volumes := hm_alter (\<lambda>v. v\<lparr> v_state := VAttached (n_mill_id n) \<rparr>) name (f_volumes s) \<rparr>,
             ROk)))"
| "apply_command s (VolumeDetached name) =
    (case hm_get (f_volumes s) name of
       None \<Rightarrow> (s, RError (''unknown volume '' @ name))
     | Some _ \<Rightarrow> (s\<lparr> f_volumes := hm_alter (\<lambda>v. v\<lparr> v_state := VReady \<rparr>) name (f_volumes s) \<rparr>, ROk))"
| "apply_command s (VolumeDestroyed name) =
    (s\<lparr> f_volumes := hm_remove name (f_volumes s) \<rparr>, ROk)"
| "apply_command s (NodeDrain i) =
    (case hm_get (f_nodes s) i of
       None \<Rightarrow> (s, unknown_node i)
     | Some _ \<Rightarrow> (s\<lparr> f_nodes := hm_alter (\<lambda>n. n\<lparr> n_status := NDraining \<rparr>) i (f_nodes s) \<rparr>, ROk))"
| "apply_command s (NodeRemove i) =
    (case hm_get (f_nodes s) i of
       None \<Rightarrow> (s, unknown_node i)
     | Some node \<Rightarrow>
        if list_ex (\<lambda>a. al_node a = n_mill_id node \<and> \<not> is_terminal (al_status a)) (hm_values (f_allocs s))
        then (s, RError (''node '' @ show_word i @ '' still has active allocations''))
        else (s\<lparr> f_allocs := hm_retain (\<lambda>_ a. al_node a \<noteq> n_mill_id node) (f_allocs s),
                 f_nodes := hm_remove i (f_nodes s) \<rparr>, ROk))"

definition apply_all :: "command list \<Rightarrow> fsm_state \<Rightarrow> fsm_state" where
  "apply_all cmds s = fold (\<lambda>c s. fst (apply_command s c)) cmds s"


section \<open>The invariant\<close>

definition keyed_by_id :: "fsm_state \<Rightarrow> bool" where
  "keyed_by_id s = (list_all (\<lambda>(i, n). n_raft_id n = i) (f_nodes s) \<and>
                    list_all (\<lambda>(i, a). al_id a = i) (f_allocs s))"

definition fsm_inv :: "fsm_state \<Rightarrow> bool" where
  "fsm_inv s = (hm_wf (f_nodes s) \<and> hm_wf (f_allocs s) \<and> hm_wf (f_secrets s) \<and>
                hm_wf (f_volumes s) \<and> keyed_by_id s)"

text \<open>A predicate on the entries of a map, and what keeps it.\<close>

lemma entries_insert:
  "list_all P m \<Longrightarrow> P (k, v) \<Longrightarrow> list_all P (hm_insert k v m)"
  by (induction m) auto

lemma entries_remove: "list_all P m \<Longrightarrow> list_all P (hm_remove k m)"
  by (induction m) auto

lemma entries_retain: "list_all P m \<Longrightarrow> list_all P (hm_retain Q m)"
  by (auto simp: hm_retain_def list_all_iff)

lemma entries_alter:
  "list_all P m \<Longrightarrow> (\<And>v. P (k, v) \<Longrightarrow> P (k, f v)) \<Longrightarrow> list_all P (hm_alter f k m)"
  by (induction f k m rule: hm_alter.induct) auto

lemmas entries_intros = entries_insert entries_remove entries_retain entries_alter

lemma heartbeat_loop_keys [simp]: "hm_keys (heartbeat_loop sts allocs) = hm_keys allocs"
  by (induction sts allocs rule: heartbeat_loop.induct) auto

lemma heartbeat_loop_entries:
  assumes "list_all P allocs"
    and "\<And>k a st. P (k, a) \<Longrightarrow> P (k, heartbeat_status st a)"
  shows "list_all P (heartbeat_loop sts allocs)"
  using assms(1)
  by (induction sts allocs rule: heartbeat_loop.induct) (auto intro!: entries_alter assms(2))

lemma fsm_inv_default: "fsm_inv fsm_default"
  by (simp add: fsm_inv_def keyed_by_id_def fsm_default_def)

lemma heartbeat_status_simps [simp]:
  "al_id (heartbeat_status st a) = al_id a"
  "al_node (heartbeat_status st a) = al_node a"
  "al_name (heartbeat_status st a) = al_name a"
  "al_kind (heartbeat_status st a) = al_kind a"
  "al_resources (heartbeat_status st a) = al_resources a"
  "al_address (heartbeat_status st a) = al_address a"
  by (simp_all add: heartbeat_status_def)

lemma mark_running_simps [simp]:
  "al_id (mark_running adr t a) = al_id a"
  "al_node (mark_running adr t a) = al_node a"
  "al_name (mark_running adr t a) = al_name a"
  "al_kind (mark_running adr t a) = al_kind a"
  "al_resources (mark_running adr t a) = al_resources a"
  by (simp_all add: mark_running_def)

lemma make_alloc_simps [simp]:
  "al_id (make_alloc i n nm k ad r) = i"
  "al_node (make_alloc i n nm k ad r) = n"
  "al_name (make_alloc i n nm k ad r) = nm"
  "al_kind (make_alloc i n nm k ad r) = k"
  "al_status (make_alloc i n nm k ad r) = Pulling"
  "al_resources (make_alloc i n nm k ad r) = r"
  by (simp_all add: make_alloc_def)

lemma keyed_by_id_apply: "keyed_by_id s \<Longrightarrow> keyed_by_id (fst (apply_command s c))"
  by (cases c)
     (auto simp: keyed_by_id_def split: option.splits intro!: entries_intros heartbeat_loop_entries)

lemma hm_wf_apply:
  assumes "hm_wf (f_nodes s)" "hm_wf (f_allocs s)" "hm_wf (f_secrets s)" "hm_wf (f_volumes s)"
  shows "hm_wf (f_nodes (fst (apply_command s c))) \<and> hm_wf (f_allocs (fst (apply_command s c))) \<and>
    hm_wf (f_secrets (fst (apply_command s c))) \<and> hm_wf (f_volumes (fst (apply_command s c)))"
  using assms by (cases c) (auto split: option.splits intro: keeps)

lemma fsm_inv_apply [keeps]: "fsm_inv s \<Longrightarrow> fsm_inv (fst (apply_command s c))"
  using hm_wf_apply keyed_by_id_apply by (simp add: fsm_inv_def)

interpretation fsm: stepped "\<lambda>c s. fst (apply_command s c)" fsm_inv
  by unfold_locales (rule fsm_inv_apply)

lemma apply_all_inv: "fsm_inv s \<Longrightarrow> fsm_inv (apply_all cmds s)"
  unfolding apply_all_def by (rule fsm.run_keeps)

section \<open>Errors\<close>

lemma apply_error_unchanged: "snd (apply_command s c) = RError e \<Longrightarrow> fst (apply_command s c) = s"
  by (cases c) (auto split: option.splits if_splits)

section \<open>Heartbeats\<close>

lemma heartbeat_loop_get:
  assumes "hm_wf sts"
  shows "hm_get (heartbeat_loop sts allocs) i
    = (case hm_get sts i of
         None \<Rightarrow> hm_get allocs i
       | Some st \<Rightarrow> map_option (heartbeat_status st) (hm_get allocs i))"
  using assms
proof (induction sts allocs rule: heartbeat_loop.induct)
  case (2 j st rest allocs)
  have "i = j \<Longrightarrow> hm_get rest i = None" using 2(2) by (simp add: map_of_eq_None_iff)
  with 2 show ?case by (auto split: option.splits)
qed simp


text \<open>
  A heartbeat takes over the reported status of every allocation it names, with one
  exception: a healthy allocation reported as running stays healthy.
\<close>

lemma heartbeat_keeps_healthy:
  assumes "hm_get (f_allocs s) i = Some a" "al_status a = Healthy" "hm_wf sts"
    and "hm_get sts i = None \<or> hm_get sts i = Some Running \<or> hm_get sts i = Some Healthy"
  shows "\<exists>a'. hm_get (f_allocs (fst (apply_command s (NodeHeartbeat n sts)))) i = Some a' \<and>
    al_status a' = Healthy"
  using assms heartbeat_loop_get [OF assms(3), of "f_allocs s" i]
  by (auto simp: heartbeat_status_def split: option.splits)

section \<open>Independence of the iteration order\<close>

definition fsm_eq :: "fsm_state \<Rightarrow> fsm_state \<Rightarrow> bool" where
  "fsm_eq s t \<longleftrightarrow> f_config s = f_config t \<and> map_of (f_nodes s) = map_of (f_nodes t) \<and>
     map_of (f_allocs s) = map_of (f_allocs t) \<and> map_of (f_secrets s) = map_of (f_secrets t) \<and>
     map_of (f_volumes s) = map_of (f_volumes t)"

inductive cmd_eq :: "command \<Rightarrow> command \<Rightarrow> bool" where
  cmd_eq_refl: "cmd_eq c c"
| cmd_eq_heartbeat: "hm_wf sts \<Longrightarrow> hm_wf sts' \<Longrightarrow> map_of sts = map_of sts' \<Longrightarrow>
    cmd_eq (NodeHeartbeat i sts) (NodeHeartbeat i sts')"

inductive_cases cmd_eq_heartbeatE: "cmd_eq (NodeHeartbeat i sts) d"

lemma hm_values_eq:
  "hm_wf m \<Longrightarrow> hm_wf m' \<Longrightarrow> map_of m = map_of m' \<Longrightarrow> set (hm_values m) = set (hm_values m')"
  by (simp add: map_of_inject_set)

lemma hm_alter_conv: "map_of (hm_alter f k m) = (map_of m)(k := map_option f (map_of m k))"
  by (rule ext) simp

lemma hm_retain_conv:
  "hm_wf m \<Longrightarrow> map_of (hm_retain P m)
    = (\<lambda>k. case map_of m k of None \<Rightarrow> None | Some v \<Rightarrow> if P k v then Some v else None)"
  by (rule ext) (simp add: hm_get_retain)

lemmas hm_conv = update_conv' delete_conv' hm_alter_conv hm_retain_conv

lemma heartbeat_loop_eq_same:
  "map_of allocs = map_of allocs' \<Longrightarrow>
   map_of (heartbeat_loop sts allocs) = map_of (heartbeat_loop sts allocs')"
  by (induction sts allocs arbitrary: allocs' rule: heartbeat_loop.induct) (auto simp: hm_alter_conv)

lemma heartbeat_loop_eq:
  "hm_wf sts \<Longrightarrow> hm_wf sts' \<Longrightarrow> map_of sts = map_of sts' \<Longrightarrow> map_of allocs = map_of allocs' \<Longrightarrow>
   map_of (heartbeat_loop sts allocs) = map_of (heartbeat_loop sts' allocs')"
  by (rule ext) (simp add: heartbeat_loop_get split: option.split)

lemma apply_command_cong:
  assumes "fsm_inv s" "fsm_inv t" "fsm_eq s t"
  shows "fsm_eq (fst (apply_command s c)) (fst (apply_command t c)) \<and>
    snd (apply_command s c) = snd (apply_command t c)"
proof -
  have "list_ex P (hm_values (f_allocs s)) = list_ex P (hm_values (f_allocs t))" for P
    using assms hm_values_eq [of "f_allocs s" "f_allocs t"]
    by (auto simp: list_ex_iff fsm_eq_def fsm_inv_def)
  moreover have "map_of (heartbeat_loop sts (f_allocs s)) = map_of (heartbeat_loop sts (f_allocs t))" for sts
    using assms by (intro heartbeat_loop_eq_same) (simp add: fsm_eq_def)
  ultimately show ?thesis
    using assms by (cases c) (simp_all add: fsm_eq_def fsm_inv_def hm_conv split: option.split)
qed

lemma apply_command_eq:
  assumes "fsm_inv s" "fsm_inv t" "fsm_eq s t" "cmd_eq c d"
  shows "fsm_eq (fst (apply_command s c)) (fst (apply_command t d)) \<and>
    snd (apply_command s c) = snd (apply_command t d)"
  using assms(4)
proof (cases rule: cmd_eq.cases)
  case cmd_eq_refl
  with apply_command_cong [OF assms(1-3)] show ?thesis by simp
next
  case (cmd_eq_heartbeat sts sts' i)
  with assms show ?thesis
    using heartbeat_loop_eq [of sts sts' "f_allocs s" "f_allocs t"]
    by (simp add: fsm_eq_def hm_conv split: option.split)
qed

section \<open>Resources\<close>

definition used_memory :: "fsm_state \<Rightarrow> node_id \<Rightarrow> nat" where
  "used_memory s mill_id =
    (\<Sum>a\<leftarrow>filter (counted mill_id) (hm_values (f_allocs s)). unat (ar_memory (al_resources a)))"

definition used_cpu :: "fsm_state \<Rightarrow> node_id \<Rightarrow> f64" where
  "used_cpu s mill_id =
    fold (\<lambda>a c. f64_add c (ar_cpu (al_resources a)))
      (filter (counted mill_id) (hm_values (f_allocs s))) (Fin 0)"

lemma used_loop_eq:
  "used_loop mill_id as (c, m) =
    (fold (\<lambda>a c. f64_add c (ar_cpu (al_resources a))) (filter (counted mill_id) as) c,
     m + (\<Sum>a\<leftarrow>filter (counted mill_id) as. ar_memory (al_resources a)))"
  by (induction mill_id as "(c, m)" arbitrary: c m rule: used_loop.induct)
     (auto simp: counted_def add.assoc)

lemma unat_sum_list:
  fixes ws :: "'a::len word list"
  assumes "sum_list (map unat ws) < 2 ^ LENGTH('a)"
  shows "unat (sum_list ws) = sum_list (map unat ws)"
  using assms by (induction ws) (auto simp: unat_word_ariths)

lemma node_available_Some:
  assumes "hm_get (f_nodes s) i = Some node"
  shows "\<exists>r. node_available_resources s i = Some r \<and>
    nr_cpu_total r = nr_cpu_total (n_resources node) \<and>
    nr_memory_total r = nr_memory_total (n_resources node) \<and>
    nr_cpu_available r = f64_sub (nr_cpu_total (n_resources node)) (used_cpu s (n_mill_id node)) \<and>
    (used_memory s (n_mill_id node) < 2 ^ 64 \<longrightarrow>
      unat (nr_memory_available r)
        = unat (nr_memory_total (n_resources node)) - used_memory s (n_mill_id node))"
proof -
  let ?ws = "map (\<lambda>a. ar_memory (al_resources a))
               (filter (counted (n_mill_id node)) (hm_values (f_allocs s)))"
  have "used_memory s (n_mill_id node) < 2 ^ 64 \<Longrightarrow>
      unat (sum_list ?ws) = used_memory s (n_mill_id node)"
    using unat_sum_list [of ?ws] by (simp add: used_memory_def comp_def)
  with assms show ?thesis
    by (simp add: node_available_resources_def used_loop_eq used_cpu_def unat_sat_sub)
qed

lemma node_available_None:
  "node_available_resources s i = None \<longleftrightarrow> hm_get (f_nodes s) i = None"
  by (auto simp: node_available_resources_def split: option.splits prod.splits)

definition mem_weight :: "node_id \<Rightarrow> alloc \<Rightarrow> nat" where
  "mem_weight mill_id a = (if counted mill_id a then unat (ar_memory (al_resources a)) else 0)"

lemma used_memory_weights:
  "used_memory s mill_id = (\<Sum>(i, a)\<leftarrow>f_allocs s. mem_weight mill_id a)"
proof -
  have "(\<Sum>a\<leftarrow>filter (counted mill_id) (hm_values m). unat (ar_memory (al_resources a)))
      = (\<Sum>(i, a)\<leftarrow>m. mem_weight mill_id a)" for m :: "(alloc_id, alloc) hash_map"
    by (induction m) (auto simp: mem_weight_def)
  then show ?thesis by (simp add: used_memory_def)
qed

lemma sum_weights_insert:
  fixes w :: "'v \<Rightarrow> nat"
  shows "(\<Sum>(i, a)\<leftarrow>hm_insert k v m. w a) + (case hm_get m k of None \<Rightarrow> 0 | Some a \<Rightarrow> w a)
    = (\<Sum>(i, a)\<leftarrow>m. w a) + w v"
  by (induction m) (auto split: option.splits)

lemma sum_weights_alter:
  fixes w :: "'v \<Rightarrow> nat"
  shows "(\<Sum>(i, a)\<leftarrow>hm_alter f k m. w a) + (case hm_get m k of None \<Rightarrow> 0 | Some a \<Rightarrow> w a)
    = (\<Sum>(i, a)\<leftarrow>m. w a) + (case hm_get m k of None \<Rightarrow> 0 | Some a \<Rightarrow> w (f a))"
  by (induction f k m rule: hm_alter.induct) (auto split: option.splits)

lemma used_memory_scheduled:
  assumes "hm_get (f_nodes s) i = Some node" "hm_get (f_allocs s) aid = None"
  shows "used_memory (fst (apply_command s (AllocScheduled aid i name kind adr res))) mill_id
    = used_memory s mill_id + (if mill_id = n_mill_id node then unat (ar_memory res) else 0)"
  using assms sum_weights_insert [of "mem_weight mill_id" aid
      "make_alloc aid (n_mill_id node) name kind adr res" "f_allocs s"]
  by (simp add: used_memory_weights mem_weight_def counted_def)

lemma used_memory_terminal:
  assumes "hm_get (f_allocs s) aid = Some a" "is_terminal st"
  shows "used_memory (fst (apply_command s (AllocStatus aid st))) mill_id + mem_weight mill_id a
    = used_memory s mill_id"
proof -
  have "mem_weight mill_id (a\<lparr> al_status := st \<rparr>) = 0"
    using assms(2) by (simp add: mem_weight_def counted_def)
  then show ?thesis
    using assms(1) sum_weights_alter [of "mem_weight mill_id" "\<lambda>a. a\<lparr> al_status := st \<rparr>" aid "f_allocs s"]
    by (simp add: used_memory_weights)
qed

section \<open>Removal of nodes\<close>

lemma node_remove_ok:
  assumes "hm_get (f_nodes s) i = Some node"
  shows "snd (apply_command s (NodeRemove i)) = ROk \<longleftrightarrow>
    \<not> (\<exists>a\<in>set (list_allocs s). counted (n_mill_id node) a)"
  using assms by (auto simp: list_ex_iff list_allocs_def counted_def)

lemma node_remove_effect:
  assumes "hm_wf (f_allocs s)" "hm_get (f_nodes s) i = Some node"
    and "snd (apply_command s (NodeRemove i)) = ROk"
  shows "hm_get (f_nodes (fst (apply_command s (NodeRemove i)))) j
      = (if j = i then None else hm_get (f_nodes s) j)"
    and "hm_get (f_allocs (fst (apply_command s (NodeRemove i)))) k
      = (case hm_get (f_allocs s) k of
           None \<Rightarrow> None
         | Some a \<Rightarrow> if al_node a = n_mill_id node then None else Some a)"
  using assms hm_get_retain [OF assms(1)]
  by (simp_all split: if_splits option.split)


section \<open>Properties\<close>

text \<open>
  (C12) Whatever commands the log holds, the state they lead to is well formed: the four tables
  are maps, and every node and allocation is stored under its own identifier.
\<close>

theorem apply_all_wellformed: "fsm_inv (apply_all cmds fsm_default)"
  by (rule apply_all_inv) (rule fsm_inv_default)

text \<open>
  (C1) Replicas agree. Two replicas that start from states with the same entries and apply the
  same commands end in states with the same entries and give the same responses, although hash
  maps iterate in different orders on each of them, the map of a heartbeat included.
\<close>

fun responses :: "command list \<Rightarrow> fsm_state \<Rightarrow> response list" where
  "responses [] s = []"
| "responses (c # cs) s = snd (apply_command s c) # responses cs (fst (apply_command s c))"



text \<open>
  A command that is refused changes nothing: every command is either answered with success
  or leaves the state as it was.
\<close>

theorem refused_commands_change_nothing:
  "snd (apply_command s c) = ROk \<or> fst (apply_command s c) = s"
  using apply_error_unchanged [of s c] by (cases "snd (apply_command s c)") auto

text \<open>
  (C20) A heartbeat from a known node brings a node that was down back to ready, leaves every
  other node alone, and sets the status of exactly the allocations it reports, except that a
  healthy allocation reported as running stays healthy. A heartbeat from an unknown node is
  refused.
\<close>

theorem heartbeat_effect:
  assumes "hm_wf sts"
  shows "(case hm_get (f_nodes s) i of
     None \<Rightarrow> apply_command s (NodeHeartbeat i sts) = (s, RError (''unknown node '' @ show_word i))
   | Some n \<Rightarrow>
      snd (apply_command s (NodeHeartbeat i sts)) = ROk \<and>
      hm_get (f_nodes (fst (apply_command s (NodeHeartbeat i sts)))) j =
        (if j = i then Some (if n_status n = NDown then n\<lparr> n_status := NReady \<rparr> else n)
         else hm_get (f_nodes s) j) \<and>
      map_option al_status (hm_get (f_allocs (fst (apply_command s (NodeHeartbeat i sts)))) k) =
        (case hm_get (f_allocs s) k of
           None \<Rightarrow> None
         | Some a \<Rightarrow> Some (case hm_get sts k of
             None \<Rightarrow> al_status a
           | Some st \<Rightarrow> if al_status a = Healthy \<and> st = Running then Healthy else st)))"
  using heartbeat_loop_get [OF assms, of "f_allocs s" k]
  by (simp add: unknown_node_def heartbeat_status_def split: option.split)

definition node1 :: fsm_node where
  "node1 = \<lparr> n_raft_id = 1, n_mill_id = ''n1'', n_address = \<lparr> sa_ip = V4 0, sa_port = 0 \<rparr>,
     n_resources = \<lparr> nr_cpu_total = Fin 4, nr_cpu_available = Fin 4, nr_memory_total = 1000,
       nr_memory_available = 1000 \<rparr>,
     n_status = NDown, n_wireguard_pubkey = None, n_instance_id = None, n_rpc_address = None,
     n_advertise_addr = None \<rparr>"

definition alloc1 :: "alloc_status \<Rightarrow> alloc" where
  "alloc1 st = (make_alloc ''a'' ''n1'' ''web'' KService None \<lparr> ar_cpu = Fin 1, ar_memory = 300 \<rparr>)
     \<lparr> al_status := st \<rparr>"

definition state1 :: "alloc_status \<Rightarrow> fsm_state" where
  "state1 st = fsm_default\<lparr> f_nodes := [(1, node1)], f_allocs := [(''a'', alloc1 st)] \<rparr>"

theorem heartbeat_effect_witness:
  "map_option al_status (hm_get (f_allocs (fst (apply_command (state1 Healthy)
      (NodeHeartbeat 1 [(''a'', Running)])))) ''a'') = Some Healthy"
  using heartbeat_effect [of "[(''a'', Running)]" "state1 Healthy" 1 1 "''a''"]
  by (simp add: state1_def alloc1_def)

text \<open>
  The free resources of a node: the processors it has less the floating-point sum over the
  allocations that are placed on it and have not ended, and the memory it has less the sum of
  theirs, cut off at zero. The memory is exact as long as that sum fits 64 bits.
\<close>

theorem available_resources:
  assumes "hm_get (f_nodes s) i = Some node" "used_memory s (n_mill_id node) < 2 ^ 64"
  shows "\<exists>r. node_available_resources s i = Some r \<and>
    nr_cpu_available r = f64_sub (nr_cpu_total (n_resources node)) (used_cpu s (n_mill_id node)) \<and>
    unat (nr_memory_available r)
      = unat (nr_memory_total (n_resources node)) - used_memory s (n_mill_id node)"
  using node_available_Some [OF assms(1)] assms(2) by blast

theorem available_resources_witness:
  "\<exists>r. node_available_resources (state1 Running) 1 = Some r \<and> nr_cpu_available r = Fin 3 \<and>
     unat (nr_memory_available r) = 700"
  using available_resources [of "state1 Running" 1 node1]
  by (simp add: state1_def node1_def alloc1_def used_memory_def used_cpu_def counted_def f64_sub_def)

text \<open>
  (C22) Removing a node is refused while an allocation on it has not ended. Otherwise the node
  and the records of its ended allocations go, and every other node and allocation stays.
\<close>

theorem remove_node_effect:
  assumes "fsm_inv s" "hm_get (f_nodes s) i = Some node"
  shows "if \<exists>a\<in>set (list_allocs s). counted (n_mill_id node) a
    then fst (apply_command s (NodeRemove i)) = s \<and> snd (apply_command s (NodeRemove i)) \<noteq> ROk
    else hm_get (f_nodes (fst (apply_command s (NodeRemove i)))) j
        = (if j = i then None else hm_get (f_nodes s) j) \<and>
      hm_get (f_allocs (fst (apply_command s (NodeRemove i)))) k
        = (case hm_get (f_allocs s) k of
             None \<Rightarrow> None
           | Some a \<Rightarrow> if al_node a = n_mill_id node then None else Some a)"
  using node_remove_ok [OF assms(2)] node_remove_effect [of s i node] assms
    apply_error_unchanged [of s "NodeRemove i"]
  by (cases "snd (apply_command s (NodeRemove i))") (auto simp: fsm_inv_def)

theorem remove_node_effect_witness:
  "hm_get (f_allocs (fst (apply_command (state1 (Failed ''oom'')) (NodeRemove 1)))) ''a'' = None \<and>
   fst (apply_command (state1 Running) (NodeRemove 1)) = state1 Running"
  using remove_node_effect [of "state1 (Failed ''oom'')" 1 node1 1 "''a''"]
    remove_node_effect [of "state1 Running" 1 node1 1 "''a''"]
  by (simp add: state1_def node1_def alloc1_def counted_def list_allocs_def fsm_inv_def
      keyed_by_id_def fsm_default_def)

text \<open>
  A heartbeat is not restricted to the reporting node or to live allocations: the heartbeat
  of node 2 turns a failed allocation of node 1 into a running one, which counts against node 1
  again.
\<close>

theorem heartbeat_revives_foreign_alloc:
  defines "s \<equiv> (state1 (Failed ''oom''))\<lparr> f_nodes := [(1, node1), (2, node1\<lparr> n_raft_id := 2, n_mill_id := ''n2'' \<rparr>)] \<rparr>"
  defines "s' \<equiv> fst (apply_command s (NodeHeartbeat 2 [(''a'', Running)]))"
  shows "used_memory s ''n1'' = 0 \<and> hm_get (f_allocs s') ''a'' = Some (alloc1 Running) \<and>
    used_memory s' ''n1'' = 300"
  by (simp add: s_def s'_def state1_def node1_def alloc1_def heartbeat_status_def used_memory_def
      counted_def make_alloc_def)

end
