(* ===== verification/Store.thy ===== *)
theory Store
  imports Fsm
begin

text \<open>
  The storage layer of \<^verbatim>\<open>crates/raft/src\<close>: the state machine store
  (\<^verbatim>\<open>fsm/mod.rs\<close>), snapshots and votes on disk (\<^verbatim>\<open>snapshot/disk.rs\<close>),
  the snapshot codec (\<^verbatim>\<open>snapshot/codec.rs\<close>), the in-memory log
  (\<^verbatim>\<open>log_store.rs\<close>), recovery (\<^verbatim>\<open>MillRaft::open\<close>), the cluster key
  (\<^verbatim>\<open>secrets/cipher.rs\<close>) and the peer table of the HTTP transport
  (\<^verbatim>\<open>network/http.rs\<close>). Leader identities, memberships and votes belong to openraft
  and are type parameters; MessagePack, zstd, JSON and the cipher are function parameters.
\<close>

section \<open>Types of the consensus library\<close>

record 'l log_id =
  lg_leader :: 'l
  lg_index :: u64

datatype 'm payload = Blank | Normal command | Membership 'm

record ('l, 'm) entry =
  e_log_id :: "'l log_id"
  e_payload :: "'m payload"

type_synonym ('l, 'm) stored_membership = "'l log_id option \<times> 'm"

record ('l, 'm) snapshot_meta =
  sm_last_log_id :: "'l log_id option"
  sm_last_membership :: "('l, 'm) stored_membership"
  sm_snapshot_id :: string

record ('l, 'm) snapshot =
  sn_meta :: "('l, 'm) snapshot_meta"
  sn_data :: bytes

datatype snapshot_error = SEncode string | SDecode string | SIo

datatype raft_error = RRaft string | RSnapshot snapshot_error | RIo


section \<open>Snapshot codec\<close>

definition codec_encode ::
  "(fsm_state \<Rightarrow> (string, bytes) result) \<Rightarrow> (bytes \<Rightarrow> (string, bytes) result) \<Rightarrow>
   fsm_state \<Rightarrow> (snapshot_error, bytes) result" where
  "codec_encode to_vec zstd_encode state =
    (case to_vec state of
       Inl e \<Rightarrow> Inl (SEncode e)
     | Inr msgpack \<Rightarrow> (case zstd_encode msgpack of Inl e \<Rightarrow> Inl (SEncode e) | Inr z \<Rightarrow> Inr z))"

definition codec_decode ::
  "(bytes \<Rightarrow> (string, bytes) result) \<Rightarrow> (bytes \<Rightarrow> (string, fsm_state) result) \<Rightarrow>
   bytes \<Rightarrow> (snapshot_error, fsm_state) result" where
  "codec_decode zstd_decode from_slice data =
    (case zstd_decode data of
       Inl e \<Rightarrow> Inl (SDecode e)
     | Inr msgpack \<Rightarrow> (case from_slice msgpack of Inl e \<Rightarrow> Inl (SDecode e) | Inr s \<Rightarrow> Inr s))"


section \<open>Files\<close>

text \<open>
  The files of the raft directory. An operation on a file either takes place or is cut off by a
  crash or an I/O error before it; the number of operations that take place is the first
  component of the state of a write.
\<close>

type_synonym disk = "(string, bytes) hash_map"

datatype disk_op = OpWrite string bytes | OpSync string | OpRename string string

fun disk_step :: "disk_op \<Rightarrow> disk \<Rightarrow> disk" where
  "disk_step (OpWrite f d) disk = hm_insert f d disk"
| "disk_step (OpSync f) disk = disk"
| "disk_step (OpRename f g) disk =
    (case hm_get disk f of None \<Rightarrow> disk | Some d \<Rightarrow> hm_insert g d (hm_remove f disk))"

definition atomic_write_ops :: "string \<Rightarrow> bytes \<Rightarrow> disk_op list" where
  "atomic_write_ops filename data =
    [OpWrite (filename @ ''.tmp'') data, OpSync (filename @ ''.tmp''),
     OpRename (filename @ ''.tmp'') filename]"

definition atomic_write :: "string \<Rightarrow> bytes \<Rightarrow> nat \<times> disk \<Rightarrow> (nat \<times> disk) \<times> (snapshot_error, unit) result" where
  "atomic_write filename data st =
    (case st of (n, disk) \<Rightarrow>
      let ops = atomic_write_ops filename data
      in ((n - length ops, fold disk_step (take n ops) disk),
          if length ops \<le> n then Inr () else Inl SIo))"

definition write_snapshot ::
  "(('l, 'm) snapshot_meta \<Rightarrow> (string, bytes) result) \<Rightarrow> bytes \<Rightarrow> ('l, 'm) snapshot_meta \<Rightarrow>
   nat \<times> disk \<Rightarrow> (nat \<times> disk) \<times> (snapshot_error, unit) result" where
  "write_snapshot to_json data meta st =
    (case atomic_write ''snapshot.bin'' data st of
       (st', Inl e) \<Rightarrow> (st', Inl e)
     | (st', Inr _) \<Rightarrow>
        (case to_json meta of
           Inl e \<Rightarrow> (st', Inl (SEncode e))
         | Inr meta_json \<Rightarrow> atomic_write ''snapshot-meta.json'' meta_json st'))"

definition read_snapshot ::
  "(bytes \<Rightarrow> (string, ('l, 'm) snapshot_meta) result) \<Rightarrow> disk \<Rightarrow>
   (snapshot_error, (bytes \<times> ('l, 'm) snapshot_meta) option) result" where
  "read_snapshot from_json disk =
    (case (hm_get disk ''snapshot.bin'', hm_get disk ''snapshot-meta.json'') of
       (Some data, Some meta_bytes) \<Rightarrow>
         (case from_json meta_bytes of
            Inl e \<Rightarrow> Inl (SDecode e)
          | Inr meta \<Rightarrow> Inr (Some (data, meta)))
     | _ \<Rightarrow> Inr None)"

definition write_vote ::
  "('v \<Rightarrow> (string, bytes) result) \<Rightarrow> 'v \<Rightarrow> nat \<times> disk \<Rightarrow> (nat \<times> disk) \<times> (snapshot_error, unit) result" where
  "write_vote to_json vote st =
    (case to_json vote of
       Inl e \<Rightarrow> (st, Inl (SEncode e))
     | Inr json \<Rightarrow> atomic_write ''vote.json'' json st)"

definition read_vote ::
  "(bytes \<Rightarrow> (string, 'v) result) \<Rightarrow> disk \<Rightarrow> (snapshot_error, 'v option) result" where
  "read_vote from_json disk =
    (case hm_get disk ''vote.json'' of
       None \<Rightarrow> Inr None
     | Some b \<Rightarrow> (case from_json b of Inl e \<Rightarrow> Inl (SDecode e) | Inr v \<Rightarrow> Inr (Some v)))"


section \<open>State machine store\<close>

text \<open>
  The value of the watch channel changes only while it has receivers: sending to a channel
  without receivers is an error, which the code ignores.
\<close>

record ('l, 'm) sm_store =
  ss_fsm :: fsm_state
  ss_last_applied :: "'l log_id option"
  ss_last_membership :: "('l, 'm) stored_membership"
  ss_version :: u64
  ss_current_snapshot :: "('l, 'm) snapshot option"
  ss_watch :: u64
  ss_receivers :: nat
  ss_raft_dir :: bool

definition store_new :: "bool \<Rightarrow> 'm \<Rightarrow> ('l, 'm) sm_store" where
  "store_new persistent default_membership = \<lparr>
     ss_fsm = fsm_default, ss_last_applied = None,
     ss_last_membership = (None, default_membership), ss_version = 0,
     ss_current_snapshot = None, ss_watch = 0, ss_receivers = 0, ss_raft_dir = persistent \<rparr>"

definition from_snapshot ::
  "fsm_state \<Rightarrow> ('l, 'm) snapshot_meta \<Rightarrow> bytes \<Rightarrow> ('l, 'm) sm_store" where
  "from_snapshot state meta data = \<lparr>
     ss_fsm = state, ss_last_applied = sm_last_log_id meta,
     ss_last_membership = sm_last_membership meta, ss_version = 0,
     ss_current_snapshot = Some \<lparr> sn_meta = meta, sn_data = data \<rparr>,
     ss_watch = 0, ss_receivers = 0, ss_raft_dir = True \<rparr>"

definition watch_send :: "('l, 'm) sm_store \<Rightarrow> ('l, 'm) sm_store" where
  "watch_send st = (if ss_receivers st = 0 then st else st\<lparr> ss_watch := ss_version st \<rparr>)"

definition subscribe :: "('l, 'm) sm_store \<Rightarrow> ('l, 'm) sm_store" where
  "subscribe st = st\<lparr> ss_receivers := Suc (ss_receivers st) \<rparr>"

definition applied_state ::
  "('l, 'm) sm_store \<Rightarrow> 'l log_id option \<times> ('l, 'm) stored_membership" where
  "applied_state st = (ss_last_applied st, ss_last_membership st)"

text \<open>The body of the loop of \<^verbatim>\<open>apply\<close>, for one entry.\<close>

definition apply_entry ::
  "('l, 'm) entry \<Rightarrow> ('l, 'm) sm_store \<Rightarrow> ('l, 'm) sm_store \<times> response" where
  "apply_entry e st =
    (let st = st\<lparr> ss_last_applied := Some (e_log_id e) \<rparr>;
         st = (case e_payload e of
                 Membership m \<Rightarrow> st\<lparr> ss_last_membership := (Some (e_log_id e), m) \<rparr>
               | _ \<Rightarrow> st)
     in case e_payload e of
          Normal cmd \<Rightarrow>
            (case apply_command (ss_fsm st) cmd of (s, r) \<Rightarrow> (st\<lparr> ss_fsm := s \<rparr>, r))
        | _ \<Rightarrow> (st, ROk))"

fun apply_loop ::
  "('l, 'm) entry list \<Rightarrow> ('l, 'm) sm_store \<Rightarrow> ('l, 'm) sm_store \<times> response list" where
  "apply_loop [] st = (st, [])"
| "apply_loop (e # es) st =
    (case apply_entry e st of (st', r) \<Rightarrow>
      (case apply_loop es st' of (st'', rs) \<Rightarrow> (st'', r # rs)))"

definition apply_entries ::
  "('l, 'm) entry list \<Rightarrow> ('l, 'm) sm_store \<Rightarrow> ('l, 'm) sm_store \<times> response list" where
  "apply_entries es st =
    (case apply_loop es st of (st', rs) \<Rightarrow>
      (watch_send (st'\<lparr> ss_version := ss_version st' + 1 \<rparr>), rs))"

record ('l, 'm) snapshot_builder =
  sb_fsm_snapshot :: fsm_state
  sb_last_applied :: "'l log_id option"
  sb_last_membership :: "('l, 'm) stored_membership"
  sb_raft_dir :: bool

definition get_snapshot_builder :: "('l, 'm) sm_store \<Rightarrow> ('l, 'm) snapshot_builder" where
  "get_snapshot_builder st = \<lparr>
     sb_fsm_snapshot = ss_fsm st, sb_last_applied = ss_last_applied st,
     sb_last_membership = ss_last_membership st, sb_raft_dir = ss_raft_dir st \<rparr>"

definition builder_meta :: "('l, 'm) snapshot_builder \<Rightarrow> ('l, 'm) snapshot_meta" where
  "builder_meta b = \<lparr>
     sm_last_log_id = sb_last_applied b, sm_last_membership = sb_last_membership b,
     sm_snapshot_id = ''snapshot-'' @
       show_word (case sb_last_applied b of None \<Rightarrow> 0 | Some i \<Rightarrow> lg_index i) \<rparr>"

text \<open>
  Building runs on its own task: the builder holds a copy of the state, and the store it writes
  the snapshot slot of may have moved on. A failure to persist is only logged.
\<close>

definition build_snapshot ::
  "(fsm_state \<Rightarrow> (snapshot_error, bytes) result) \<Rightarrow>
   (('l, 'm) snapshot_meta \<Rightarrow> (string, bytes) result) \<Rightarrow> ('l, 'm) snapshot_builder \<Rightarrow>
   ('l, 'm) sm_store \<times> nat \<times> disk \<Rightarrow>
   (('l, 'm) sm_store \<times> nat \<times> disk) \<times> (snapshot_error, ('l, 'm) snapshot) result" where
  "build_snapshot encode to_json b world =
    (case world of (st, io) \<Rightarrow>
      (case encode (sb_fsm_snapshot b) of
         Inl e \<Rightarrow> (world, Inl e)
       | Inr data \<Rightarrow>
          (let snap = \<lparr> sn_meta = builder_meta b, sn_data = data \<rparr>;
               io' = (if sb_raft_dir b then fst (write_snapshot to_json data (builder_meta b) io) else io)
           in ((st\<lparr> ss_current_snapshot := Some snap \<rparr>, io'), Inr snap))))"

definition install_snapshot ::
  "(bytes \<Rightarrow> (snapshot_error, fsm_state) result) \<Rightarrow>
   (('l, 'm) snapshot_meta \<Rightarrow> (string, bytes) result) \<Rightarrow> ('l, 'm) snapshot_meta \<Rightarrow> bytes \<Rightarrow>
   ('l, 'm) sm_store \<times> nat \<times> disk \<Rightarrow>
   (('l, 'm) sm_store \<times> nat \<times> disk) \<times> (snapshot_error, unit) result" where
  "install_snapshot decode to_json meta data world =
    (case world of (st, io) \<Rightarrow>
      (case decode data of
         Inl e \<Rightarrow> (world, Inl e)
       | Inr state \<Rightarrow>
          (let st = st\<lparr> ss_fsm := state, ss_last_applied := sm_last_log_id meta,
                        ss_last_membership := sm_last_membership meta,
                        ss_version := ss_version st + 1 \<rparr>;
               st = st\<lparr> ss_current_snapshot := Some \<lparr> sn_meta = meta, sn_data = data \<rparr> \<rparr>;
               st = watch_send st;
               io' = (if ss_raft_dir st then fst (write_snapshot to_json data meta io) else io)
           in ((st, io'), Inr ()))))"

definition get_current_snapshot :: "('l, 'm) sm_store \<Rightarrow> ('l, 'm) snapshot option" where
  "get_current_snapshot st = ss_current_snapshot st"


section \<open>Recovery\<close>

text \<open>
  What \<^verbatim>\<open>MillRaft::open\<close> reads back: the vote and the state machine. Starting the
  consensus protocol on them is openraft's part.
\<close>

definition open_raft ::
  "(bytes \<Rightarrow> (string, 'v) result) \<Rightarrow> (bytes \<Rightarrow> (string, ('l, 'm) snapshot_meta) result) \<Rightarrow>
   (bytes \<Rightarrow> (snapshot_error, fsm_state) result) \<Rightarrow> 'm \<Rightarrow> disk \<Rightarrow>
   (raft_error, 'v option \<times> ('l, 'm) sm_store) result" where
  "open_raft vote_json meta_json decode default_membership disk =
    (case read_vote vote_json disk of
       Inl e \<Rightarrow> Inl (RSnapshot e)
     | Inr vote \<Rightarrow>
        (case read_snapshot meta_json disk of
           Inl e \<Rightarrow> Inl (RSnapshot e)
         | Inr None \<Rightarrow> Inr (vote, store_new True default_membership)
         | Inr (Some (data, meta)) \<Rightarrow>
            (case decode data of
               Inl e \<Rightarrow> Inl (RSnapshot e)
             | Inr state \<Rightarrow> Inr (vote, from_snapshot state meta data))))"


section \<open>Log store\<close>

record ('v, 'l, 'm) log_store =
  ls_vote :: "'v option"
  ls_committed :: "'l log_id option"
  ls_log :: "(u64 \<times> ('l, 'm) entry) list"
  ls_last_purged :: "'l log_id option"
  ls_raft_dir :: bool

datatype range_bound = Included u64 | Excluded u64 | Unbounded

fun above :: "range_bound \<Rightarrow> u64 \<Rightarrow> bool" where
  "above (Included a) x = (a \<le> x)"
| "above (Excluded a) x = (a < x)"
| "above Unbounded x = True"

fun below :: "range_bound \<Rightarrow> u64 \<Rightarrow> bool" where
  "below (Included a) x = (x \<le> a)"
| "below (Excluded a) x = (x < a)"
| "below Unbounded x = True"

definition log_new :: "bool \<Rightarrow> 'v option \<Rightarrow> ('v, 'l, 'm) log_store" where
  "log_new persistent vote = \<lparr>
     ls_vote = vote, ls_committed = None, ls_log = [], ls_last_purged = None,
     ls_raft_dir = persistent \<rparr>"

definition try_get_log_entries ::
  "range_bound \<Rightarrow> range_bound \<Rightarrow> ('v, 'l, 'm) log_store \<Rightarrow> ('l, 'm) entry list" where
  "try_get_log_entries lo hi ls =
    map snd (filter (\<lambda>(i, _). above lo i \<and> below hi i) (ls_log ls))"

definition get_log_state ::
  "('v, 'l, 'm) log_store \<Rightarrow> 'l log_id option \<times> 'l log_id option" where
  "get_log_state ls =
    (ls_last_purged ls,
     if ls_log ls = [] then ls_last_purged ls else Some (e_log_id (snd (last (ls_log ls)))))"

definition save_vote ::
  "('v \<Rightarrow> (string, bytes) result) \<Rightarrow> 'v \<Rightarrow> ('v, 'l, 'm) log_store \<times> nat \<times> disk \<Rightarrow>
   ('v, 'l, 'm) log_store \<times> nat \<times> disk" where
  "save_vote to_json vote world =
    (case world of (ls, io) \<Rightarrow>
      (ls\<lparr> ls_vote := Some vote \<rparr>,
       if ls_raft_dir ls then fst (write_vote to_json vote io) else io))"

definition save_committed ::
  "'l log_id option \<Rightarrow> ('v, 'l, 'm) log_store \<Rightarrow> ('v, 'l, 'm) log_store" where
  "save_committed c ls = ls\<lparr> ls_committed := c \<rparr>"

definition log_append ::
  "('l, 'm) entry list \<Rightarrow> ('v, 'l, 'm) log_store \<Rightarrow> ('v, 'l, 'm) log_store" where
  "log_append es ls =
    ls\<lparr> ls_log := fold (\<lambda>e m. bt_insert (lg_index (e_log_id e)) e m) es (ls_log ls) \<rparr>"

definition log_truncate :: "'l log_id \<Rightarrow> ('v, 'l, 'm) log_store \<Rightarrow> ('v, 'l, 'm) log_store" where
  "log_truncate i ls =
    (let to_remove = map fst (filter (\<lambda>(k, _). lg_index i \<le> k) (ls_log ls))
     in ls\<lparr> ls_log := fold AList.delete to_remove (ls_log ls) \<rparr>)"

definition log_purge :: "'l log_id \<Rightarrow> ('v, 'l, 'm) log_store \<Rightarrow> ('v, 'l, 'm) log_store" where
  "log_purge i ls =
    (let to_remove = map fst (filter (\<lambda>(k, _). k \<le> lg_index i) (ls_log ls))
     in ls\<lparr> ls_log := fold AList.delete to_remove (ls_log ls), ls_last_purged := Some i \<rparr>)"


section \<open>Cluster key\<close>

text \<open>
  The cipher takes a key, a nonce and a text. A nonce of a length other than twelve bytes makes
  \<^verbatim>\<open>Nonce::from_slice\<close> panic.
\<close>

datatype cipher_outcome = Done bytes | DecryptFailed string | Panicked

definition key_encrypt ::
  "(bytes \<Rightarrow> bytes \<Rightarrow> bytes \<Rightarrow> (string, bytes) result) \<Rightarrow> bytes \<Rightarrow> bytes \<Rightarrow> bytes \<Rightarrow>
   (string, bytes \<times> bytes) result" where
  "key_encrypt seal key nonce plaintext =
    (case seal key nonce plaintext of Inl e \<Rightarrow> Inl e | Inr c \<Rightarrow> Inr (c, nonce))"

definition key_decrypt ::
  "(bytes \<Rightarrow> bytes \<Rightarrow> bytes \<Rightarrow> (string, bytes) result) \<Rightarrow> bytes \<Rightarrow> bytes \<Rightarrow> bytes \<Rightarrow> cipher_outcome" where
  "key_decrypt unseal key ciphertext nonce =
    (if length nonce \<noteq> 12 then Panicked
     else case unseal key nonce ciphertext of Inl e \<Rightarrow> DecryptFailed e | Inr p \<Rightarrow> Done p)"

definition key_save :: "bytes \<Rightarrow> disk \<Rightarrow> disk" where
  "key_save key disk = hm_insert ''cluster.key'' key disk"

definition key_load :: "disk \<Rightarrow> (raft_error, bytes) result" where
  "key_load disk =
    (case hm_get disk ''cluster.key'' of
       None \<Rightarrow> Inl RIo
     | Some b \<Rightarrow>
        if length b \<noteq> 32
        then Inl (RRaft (''cluster.key: expected 32 bytes, got '' @ show_nat (length b)))
        else Inr b)"


section \<open>Peers of the HTTP transport\<close>

type_synonym peers = "(u64, string) hash_map"

definition set_peer :: "u64 \<Rightarrow> string \<Rightarrow> peers \<Rightarrow> peers" where
  "set_peer i base_url ps = hm_insert i base_url ps"

definition remove_peer :: "u64 \<Rightarrow> peers \<Rightarrow> peers" where
  "remove_peer i ps = hm_remove i ps"

definition get_peer_url :: "peers \<Rightarrow> u64 \<Rightarrow> (string, string) result" where
  "get_peer_url ps i =
    (case hm_get ps i of
       Some u \<Rightarrow> Inr u
     | None \<Rightarrow> Inl (''node '' @ show_word i @ '' not in peer map''))"


section \<open>Applying log entries\<close>

definition normal_cmds :: "('l, 'm) entry list \<Rightarrow> command list" where
  "normal_cmds es = List.map_filter (\<lambda>e. case e_payload e of Normal c \<Rightarrow> Some c | _ \<Rightarrow> None) es"

lemma normal_cmds_simps [simp]:
  "normal_cmds [] = []"
  "normal_cmds (e # es) = (case e_payload e of Normal c \<Rightarrow> c # normal_cmds es | _ \<Rightarrow> normal_cmds es)"
  by (auto simp: normal_cmds_def map_filter_simps split: payload.splits)

definition core :: "('l, 'm) sm_store \<Rightarrow> fsm_state \<times> 'l log_id option \<times> ('l, 'm) stored_membership" where
  "core st = (ss_fsm st, ss_last_applied st, ss_last_membership st)"

lemma apply_entry_simps [simp]:
  "ss_last_applied (fst (apply_entry e st)) = Some (e_log_id e)"
  "ss_fsm (fst (apply_entry e st))
    = (case e_payload e of Normal c \<Rightarrow> fst (apply_command (ss_fsm st) c) | _ \<Rightarrow> ss_fsm st)"
  "ss_last_membership (fst (apply_entry e st))
    = (case e_payload e of Membership m \<Rightarrow> (Some (e_log_id e), m) | _ \<Rightarrow> ss_last_membership st)"
  by (simp_all add: apply_entry_def Let_def split: payload.split prod.split)

lemma apply_loop_Cons [simp]:
  "fst (apply_loop (e # es) st) = fst (apply_loop es (fst (apply_entry e st)))"
  "snd (apply_loop (e # es) st)
    = snd (apply_entry e st) # snd (apply_loop es (fst (apply_entry e st)))"
  by (simp_all add: case_prod_unfold)

declare apply_loop.simps(2) [simp del]

lemma core_apply_entry:
  "core st = core st' \<Longrightarrow> core (fst (apply_entry e st)) = core (fst (apply_entry e st'))"
  by (simp add: core_def split: payload.split)

lemma core_apply_loop:
  "core st = core st' \<Longrightarrow> core (fst (apply_loop es st)) = core (fst (apply_loop es st'))"
proof (induction es arbitrary: st st')
  case (Cons e es)
  from Cons.IH [OF core_apply_entry [OF Cons.prems]] show ?case by simp
qed simp

lemma core_watch_send [simp]: "core (watch_send st) = core st"
  by (simp add: core_def watch_send_def)

lemma apply_entries_proj:
  "fst (apply_entries es st)
    = watch_send (fst (apply_loop es st)\<lparr> ss_version := ss_version (fst (apply_loop es st)) + 1 \<rparr>)"
  "snd (apply_entries es st) = snd (apply_loop es st)"
  by (simp_all add: apply_entries_def case_prod_unfold)

lemma core_apply_entries: "core (fst (apply_entries es st)) = core (fst (apply_loop es st))"
  by (simp add: apply_entries_proj) (simp add: core_def)

lemma apply_loop_append:
  "fst (apply_loop (es @ fs) st) = fst (apply_loop fs (fst (apply_loop es st)))"
  by (induction es arbitrary: st) simp_all

lemma core_apply_split:
  "core (fst (apply_entries (es @ fs) st))
    = core (fst (apply_entries fs (fst (apply_entries es st))))"
proof -
  have "core (fst (apply_loop fs (fst (apply_loop es st))))
      = core (fst (apply_loop fs (fst (apply_entries es st))))"
    by (rule core_apply_loop) (simp add: core_apply_entries)
  then show ?thesis by (simp add: core_apply_entries apply_loop_append)
qed

lemma apply_loop_fsm: "ss_fsm (fst (apply_loop es st)) = apply_all (normal_cmds es) (ss_fsm st)"
  by (induction es arbitrary: st) (simp_all add: apply_all_def split: payload.split)

lemma apply_loop_last:
  "ss_last_applied (fst (apply_loop es st))
    = (if es = [] then ss_last_applied st else Some (e_log_id (last es)))"
  by (induction es arbitrary: st) simp_all

lemma apply_loop_responses: "length (snd (apply_loop es st)) = length es"
  by (induction es arbitrary: st) simp_all

lemma apply_entries_spec:
  "ss_fsm (fst (apply_entries es st)) = apply_all (normal_cmds es) (ss_fsm st)"
  "ss_last_applied (fst (apply_entries es st))
    = (if es = [] then ss_last_applied st else Some (e_log_id (last es)))"
  "length (snd (apply_entries es st)) = length es"
  using core_apply_entries [of es st]
  by (simp_all add: core_def apply_loop_fsm apply_loop_last apply_entries_proj(2) apply_loop_responses)

section \<open>Crashes during a write\<close>

lemma atomic_write_get:
  assumes "g \<noteq> f @ ''.tmp''"
  shows "hm_get (snd (fst (atomic_write f d (n, disk)))) g
    = (if g = f \<and> 3 \<le> n then Some d else hm_get disk g)"
proof -
  consider "n = 0" | "n = 1" | "n = 2" | k where "n = Suc (Suc (Suc k))"
    by (metis One_nat_def Suc_1 not0_implies_Suc)
  then show ?thesis
    using assms by cases (auto simp: atomic_write_def atomic_write_ops_def Let_def)
qed

lemma atomic_write_result:
  "fst (fst (atomic_write f d (n, disk))) = n - 3"
  "snd (atomic_write f d (n, disk)) = (if 3 \<le> n then Inr () else Inl SIo)"
  by (simp_all add: atomic_write_def atomic_write_ops_def Let_def)

lemma write_snapshot_files:
  fixes n :: nat and disk :: disk and data :: bytes
  assumes "to_json meta = Inr j"
  defines "disk' \<equiv> snd (fst (write_snapshot to_json data meta (n, disk)))"
  shows "hm_get disk' ''snapshot.bin'' = (if 3 \<le> n then Some data else hm_get disk ''snapshot.bin'')"
    and "hm_get disk' ''snapshot-meta.json''
      = (if 6 \<le> n then Some j else hm_get disk ''snapshot-meta.json'')"
    and "hm_get disk' ''vote.json'' = hm_get disk ''vote.json''"
    and "snd (write_snapshot to_json data meta (n, disk)) = (if 6 \<le> n then Inr () else Inl SIo)"
proof -
  obtain m d1 r where w: "atomic_write ''snapshot.bin'' data (n, disk) = ((m, d1), r)"
    by (metis surj_pair)
  have m: "m = n - 3" "r = (if 3 \<le> n then Inr () else Inl SIo)"
    using atomic_write_result [of "''snapshot.bin''" data n disk] w by simp_all
  have d1: "g \<noteq> ''snapshot.bin.tmp'' \<Longrightarrow>
      hm_get d1 g = (if g = ''snapshot.bin'' \<and> 3 \<le> n then Some data else hm_get disk g)" for g
    using atomic_write_get [of g "''snapshot.bin''" data n disk] w by simp
  have eq: "write_snapshot to_json data meta (n, disk)
      = (if 3 \<le> n then atomic_write ''snapshot-meta.json'' j (m, d1) else ((m, d1), Inl SIo))"
    by (simp add: write_snapshot_def w m assms(1))
  have g: "3 \<le> n \<Longrightarrow> g \<noteq> ''snapshot-meta.json.tmp'' \<Longrightarrow>
      hm_get disk' g = (if g = ''snapshot-meta.json'' \<and> 6 \<le> n then Some j else hm_get d1 g)" for g
    using atomic_write_get [of g "''snapshot-meta.json''" j m d1] by (auto simp: disk'_def eq m)
  have h: "\<not> 3 \<le> n \<Longrightarrow> disk' = d1" by (simp add: disk'_def eq)
  show "hm_get disk' ''snapshot.bin'' = (if 3 \<le> n then Some data else hm_get disk ''snapshot.bin'')"
    "hm_get disk' ''snapshot-meta.json''
      = (if 6 \<le> n then Some j else hm_get disk ''snapshot-meta.json'')"
    "hm_get disk' ''vote.json'' = hm_get disk ''vote.json''"
    by (cases "3 \<le> n"; simp add: g h d1)+
  show "snd (write_snapshot to_json data meta (n, disk)) = (if 6 \<le> n then Inr () else Inl SIo)"
    using atomic_write_result [of "''snapshot-meta.json''" j m d1] by (auto simp: eq m)
qed

lemma read_after_write:
  assumes "to_json meta = Inr j" "from_json j = Inr meta" "6 \<le> n"
  shows "read_snapshot from_json (snd (fst (write_snapshot to_json data meta (n, disk))))
    = Inr (Some (data, meta))"
  using assms write_snapshot_files [of to_json meta j data n disk] by (simp add: read_snapshot_def)

lemma read_vote_after_snapshot:
  assumes "to_json meta = Inr j"
  shows "read_vote vj (snd (fst (write_snapshot to_json data meta (n, disk)))) = read_vote vj disk"
  using write_snapshot_files(3) [of to_json meta j data n disk] assms by (simp add: read_vote_def)

section \<open>The log has no holes\<close>

lemma fold_delete: "fold AList.delete ks m = filter (\<lambda>(k, _). k \<notin> set ks) m"
proof (induction ks arbitrary: m)
  case (Cons k ks)
  have "AList.delete k m = filter (\<lambda>(k', _). k' \<noteq> k) m"
    unfolding AList.delete_eq by (rule filter_cong) auto
  then show ?case by (auto simp: Cons intro!: filter_cong)
qed (simp add: case_prod_unfold)

lemma fold_delete_filter:
  "fold AList.delete (map fst (filter (\<lambda>(k, _). P k) m)) m = filter (\<lambda>(k, _). \<not> P k) m"
  unfolding fold_delete by (rule filter_cong) (auto simp: image_iff)

lemma log_truncate_log: "ls_log (log_truncate i ls) = filter (\<lambda>(k, _). k < lg_index i) (ls_log ls)"
  by (simp add: log_truncate_def fold_delete_filter not_le)

lemma log_purge_log: "ls_log (log_purge i ls) = filter (\<lambda>(k, _). lg_index i < k) (ls_log ls)"
  by (simp add: log_purge_def fold_delete_filter not_le)


definition contiguous :: "nat list \<Rightarrow> bool" where
  "contiguous xs = (xs = [] \<or> xs = [hd xs..<hd xs + length xs])"

lemma contiguous_upt [simp]: "contiguous [a..<b]"
  by (cases "a < b") (auto simp: contiguous_def)

lemma contiguous_ex: "contiguous xs \<longleftrightarrow> (\<exists>a b. xs = [a..<b])"
  using contiguous_upt by (auto simp: contiguous_def) (metis upt_0 upt_rec)

lemma contiguous_sorted: "contiguous xs \<Longrightarrow> sorted_wrt (<) xs"
  by (auto simp: contiguous_ex)

lemma contiguous_appendD: "contiguous (xs @ ys) \<Longrightarrow> contiguous xs"
proof -
  assume "contiguous (xs @ ys)"
  then obtain a b where "xs @ ys = [a..<b]" by (auto simp: contiguous_ex)
  then have "xs = take (length xs) [a..<b]" by (metis append_eq_conv_conj)
  then show ?thesis by (metis contiguous_upt take_upt take_all nat_le_linear length_upt le_diff_conv add.commute)
qed

lemma filter_less_upt: "filter (\<lambda>x. x < c) [a..<b] = [a..<min b c]"
proof (induction b)
  case (Suc b)
  then show ?case by (cases "b < c") (auto simp: min.absorb1 min.absorb2 not_less)
qed simp

lemma filter_greater_upt: "filter (\<lambda>x. c < x) [a..<b] = [max a (Suc c)..<b]"
  by (induction b) (auto simp: max_def not_less le_Suc_eq)

lemma contiguous_filter:
  assumes "contiguous xs"
  shows "contiguous (filter (\<lambda>x. x < c) xs)" and "contiguous (filter (\<lambda>x. c < x) xs)"
  using assms by (auto simp: contiguous_ex [of xs] filter_less_upt filter_greater_upt)

definition log_indexes :: "('v, 'l, 'm) log_store \<Rightarrow> nat list" where
  "log_indexes ls = map (\<lambda>(k, _). unat k) (ls_log ls)"

definition log_inv :: "('v, 'l, 'm) log_store \<Rightarrow> bool" where
  "log_inv ls = (list_all (\<lambda>(k, e). k = lg_index (e_log_id e)) (ls_log ls) \<and> contiguous (log_indexes ls))"

datatype ('l, 'm) log_op = Append "('l, 'm) entry list" | Truncate "'l log_id" | Purge "'l log_id"

fun log_step :: "('l, 'm) log_op \<Rightarrow> ('v, 'l, 'm) log_store \<Rightarrow> ('v, 'l, 'm) log_store" where
  "log_step (Append es) ls = log_append es ls"
| "log_step (Truncate i) ls = log_truncate i ls"
| "log_step (Purge i) ls = log_purge i ls"

text \<open>
  Openraft appends consecutive entries, the first of which follows the last one in the log.
\<close>

fun log_guard :: "('l, 'm) log_op \<Rightarrow> ('v, 'l, 'm) log_store \<Rightarrow> bool" where
  "log_guard (Append es) ls = contiguous (log_indexes ls @ map (\<lambda>e. unat (lg_index (e_log_id e))) es)"
| "log_guard _ ls = True"

lemma log_inv_bt_wf: "log_inv ls \<Longrightarrow> bt_wf (ls_log ls)"
  using contiguous_sorted [of "log_indexes ls"]
  by (simp add: log_inv_def log_indexes_def sorted_wrt_map case_prod_unfold word_less_nat_alt)

lemma bt_insert_all:
  fixes log :: "(u64 \<times> ('l, 'm) entry) list"
  assumes "sorted_wrt (<) (map (\<lambda>(k, _). unat k) log @ map (\<lambda>e. unat (lg_index (e_log_id e))) es)"
  shows "fold (\<lambda>e m. bt_insert (lg_index (e_log_id e)) e m) es log
    = log @ map (\<lambda>e. (lg_index (e_log_id e), e)) es"
  using assms
proof (induction es arbitrary: log)
  case (Cons e es)
  have "bt_insert (lg_index (e_log_id e)) e log = log @ [(lg_index (e_log_id e), e)]"
    using Cons.prems
    by (intro bt_insert_last)
       (auto simp: sorted_wrt_append sorted_wrt_map case_prod_unfold word_less_nat_alt)
  with Cons show ?case by simp
qed simp

lemma log_append_log:
  assumes "log_guard (Append es) ls"
  shows "ls_log (log_append es ls) = ls_log ls @ map (\<lambda>e. (lg_index (e_log_id e), e)) es"
  using bt_insert_all [of "ls_log ls" es] contiguous_sorted assms
  by (auto simp: log_append_def log_indexes_def)

lemma map_filter_fst:
  "map (\<lambda>(k, _). f k) (filter (\<lambda>(k, _). P (f k)) m) = filter P (map (\<lambda>(k, _). f k) m)"
  by (induction m) auto

lemma log_step_inv:
  assumes "log_inv ls" "log_guard op ls"
  shows "log_inv (log_step op ls)"
proof (cases op)
  case (Append es)
  with assms log_append_log [of es ls] show ?thesis
    by (auto simp: log_inv_def log_indexes_def list_all_iff comp_def)
next
  case (Truncate i)
  have "log_indexes (log_truncate i ls) = filter (\<lambda>x. x < unat (lg_index i)) (log_indexes ls)"
    unfolding log_indexes_def log_truncate_log word_less_nat_alt by (rule map_filter_fst)
  with assms Truncate show ?thesis
    by (auto simp: log_inv_def log_truncate_log list_all_iff contiguous_filter)
next
  case (Purge i)
  have "log_indexes (log_purge i ls) = filter (\<lambda>x. unat (lg_index i) < x) (log_indexes ls)"
    unfolding log_indexes_def log_purge_log word_less_nat_alt by (rule map_filter_fst)
  with assms Purge show ?thesis
    by (auto simp: log_inv_def log_purge_log list_all_iff contiguous_filter)
qed

interpretation log: guarded_steps log_guard log_step log_inv
  by unfold_locales (rule log_step_inv)

section \<open>Peers\<close>

interpretation peers: keyed_store
  "\<lambda>ps i. case get_peer_url ps i of Inr u \<Rightarrow> Some u | Inl _ \<Rightarrow> None" set_peer remove_peer "\<lambda>_. True"
  by unfold_locales (auto simp: get_peer_url_def set_peer_def remove_peer_def split: option.splits)


section \<open>Properties\<close>



text \<open>
  (C6) What a crash during the persisting of a snapshot leaves behind: before the first rename
  the previous pair, between the renames the new data beside the previous metadata, after the
  second rename the new pair.
\<close>

theorem crash_during_write_snapshot:
  assumes "to_json meta = Inr j" "from_json j = Inr meta"
  shows "read_snapshot from_json (snd (fst (write_snapshot to_json data meta (n, disk)))) =
    (if n < 3 then read_snapshot from_json disk
     else if n < 6 then
       (case hm_get disk ''snapshot-meta.json'' of
          None \<Rightarrow> Inr None
        | Some b \<Rightarrow> (case from_json b of Inl e \<Rightarrow> Inl (SDecode e) | Inr old \<Rightarrow> Inr (Some (data, old))))
     else Inr (Some (data, meta)))"
  using write_snapshot_files [of to_json meta j data n disk] assms
  by (simp add: read_snapshot_def split: option.split)

theorem crash_during_write_snapshot_witness:
  fixes old new :: "(unit, unit) snapshot_meta"
  defines "old \<equiv> \<lparr> sm_last_log_id = None, sm_last_membership = (None, ()), sm_snapshot_id = ''a'' \<rparr>"
  defines "new \<equiv> \<lparr> sm_last_log_id = None, sm_last_membership = (None, ()), sm_snapshot_id = ''b'' \<rparr>"
  shows "read_snapshot (\<lambda>j. if j = [1] then Inr old else Inr new)
      (snd (fst (write_snapshot (\<lambda>m. if m = old then Inr [1] else Inr [2]) [20] new
        (4, [(''snapshot.bin'', [10]), (''snapshot-meta.json'', [1])]))))
    = Inr (Some ([20], old))"
  by (subst crash_during_write_snapshot [where j = "[2]"]) (simp_all add: old_def new_def)

text \<open>
  The metadata of the previous snapshot together with the data of the new one is not the
  previous pair: a crash between the two renames makes the next start take the new state for
  the state at the old log position, although the writer is documented to leave the previous
  consistent pair.
\<close>

theorem crash_leaves_torn_pair:
  fixes old new :: "(unit, unit) snapshot_meta"
  defines "old \<equiv> \<lparr> sm_last_log_id = Some \<lparr> lg_leader = (), lg_index = 1 \<rparr>,
      sm_last_membership = (None, ()), sm_snapshot_id = ''snapshot-1'' \<rparr>"
    and "new \<equiv> \<lparr> sm_last_log_id = Some \<lparr> lg_leader = (), lg_index = 2 \<rparr>,
      sm_last_membership = (None, ()), sm_snapshot_id = ''snapshot-2'' \<rparr>"
  defines "from_json \<equiv> \<lambda>j. if j = [1] then Inr old else Inr new"
  defines "disk \<equiv> [(''snapshot.bin'', [10]), (''snapshot-meta.json'', [1])]"
  defines "disk' \<equiv> snd (fst (write_snapshot (\<lambda>m. if m = old then Inr [1] else Inr [2]) [20] new (5, disk)))"
  shows "read_snapshot from_json disk = Inr (Some ([10], old)) \<and>
    read_snapshot from_json disk' = Inr (Some ([20], old))"
  by (simp add: old_def new_def from_json_def disk_def disk'_def read_snapshot_def
      write_snapshot_def atomic_write_def atomic_write_ops_def numeral_eq_Suc Let_def)



text \<open>
  A batch of entries is applied in order: the state machine is that of applying the
  commands of its normal entries one after the other, the last applied entry is the last of the
  batch, and every entry gets one response. Splitting the batch makes no difference.
\<close>

theorem apply_batch:
  "ss_fsm (fst (apply_entries es st)) = apply_all (normal_cmds es) (ss_fsm st) \<and>
   ss_last_applied (fst (apply_entries es st))
     = (if es = [] then ss_last_applied st else Some (e_log_id (last es))) \<and>
   length (snd (apply_entries es st)) = length es \<and>
   core (fst (apply_entries (es @ fs) st)) = core (fst (apply_entries fs (fst (apply_entries es st))))"
  using apply_entries_spec [of es st] core_apply_split [of es fs st] by simp

end
