(* ===== verification/Ports.thy ===== *)
theory Ports
  imports Types Strings
begin

text \<open>
  The port allocator of \<^verbatim>\<open>crates/net/src/ports.rs\<close>. The set of free ports is the
  ascending list of its elements. The invariant says that free and allocated ports are disjoint
  and in range, and every operation keeps it; the interface \<open>port_allocator\<close> collects what
  the container runner relies on.
\<close>

section \<open>The pool\<close>

record port_pool =
  pp_start :: u16
  pp_end :: u16
  pp_available :: "u16 list"
  pp_allocated :: "(u16, alloc_id) hash_map"

fun bs_insert :: "u16 \<Rightarrow> u16 list \<Rightarrow> u16 list" where
  "bs_insert x [] = [x]"
| "bs_insert x (y # ys) = (if x < y then x # y # ys else if x = y then y # ys else y # bs_insert x ys)"

definition bs_remove :: "u16 \<Rightarrow> u16 list \<Rightarrow> u16 list" where
  "bs_remove x ys = filter (\<lambda>y. y \<noteq> x) ys"

definition port_range :: "u16 \<Rightarrow> u16 \<Rightarrow> u16 list" where
  "port_range start end = map word_of_nat [unat start..<Suc (unat end)]"

definition with_range :: "u16 \<Rightarrow> u16 \<Rightarrow> u16 list \<Rightarrow> port_pool" where
  "with_range start end in_use = \<lparr>
     pp_start = start, pp_end = end,
     pp_available = fold bs_remove in_use (port_range start end), pp_allocated = [] \<rparr>"

definition new_pool :: "u16 list \<Rightarrow> port_pool" where
  "new_pool in_use = with_range 49152 65535 in_use"

definition allocate :: "alloc_id \<Rightarrow> port_pool \<Rightarrow> port_pool \<times> u16 option" where
  "allocate alloc_id pool =
    (case pp_available pool of
       [] \<Rightarrow> (pool, None)
     | port # _ \<Rightarrow>
        (pool\<lparr> pp_available := bs_remove port (pp_available pool),
               pp_allocated := hm_insert port alloc_id (pp_allocated pool) \<rparr>, Some port))"

definition allocate_specific :: "alloc_id \<Rightarrow> u16 \<Rightarrow> port_pool \<Rightarrow> port_pool \<times> bool" where
  "allocate_specific alloc_id port pool =
    (if port < pp_start pool \<or> pp_end pool < port then (pool, False)
     else if hm_has (pp_allocated pool) port then (pool, False)
     else (pool\<lparr> pp_available := bs_remove port (pp_available pool),
                 pp_allocated := hm_insert port alloc_id (pp_allocated pool) \<rparr>, True))"

definition release :: "u16 \<Rightarrow> port_pool \<Rightarrow> port_pool" where
  "release port pool =
    (case hm_get (pp_allocated pool) port of
       None \<Rightarrow> pool
     | Some _ \<Rightarrow>
        pool\<lparr> pp_allocated := hm_remove port (pp_allocated pool),
              pp_available := bs_insert port (pp_available pool) \<rparr>)"

definition pool_snapshot :: "port_pool \<Rightarrow> (u16, alloc_id) hash_map" where
  "pool_snapshot pool = pp_allocated pool"

fun restore_loop :: "u16 list \<Rightarrow> (u16 \<times> alloc_id) list \<Rightarrow> port_pool \<Rightarrow> port_pool" where
  "restore_loop in_use [] pool = pool"
| "restore_loop in_use ((port, alloc_id) # rest) pool =
    (if port < pp_start pool \<or> pp_end pool < port then restore_loop in_use rest pool
     else if port \<in> set in_use then restore_loop in_use rest pool
     else restore_loop in_use rest
       (pool\<lparr> pp_available := bs_remove port (pp_available pool),
              pp_allocated := hm_insert port alloc_id (pp_allocated pool) \<rparr>))"

definition pool_restore :: "u16 list \<Rightarrow> (u16, alloc_id) hash_map \<Rightarrow> port_pool \<Rightarrow> port_pool" where
  "pool_restore in_use snap pool = restore_loop in_use snap pool"


section \<open>Ports in use on the host\<close>

definition parse_proc_net_tcp_line :: "string \<Rightarrow> u16 option" where
  "parse_proc_net_tcp_line line =
    (case split_whitespace line of
       _ # local_addr # _ \<Rightarrow>
         map_option word_of_nat (from_str_radix16 65536 (last (split_char CHR '':'' local_addr)))
     | _ \<Rightarrow> None)"

definition parse_ss_line :: "string \<Rightarrow> u16 option" where
  "parse_ss_line line =
    (case split_whitespace line of
       _ # _ # _ # local_addr # _ \<Rightarrow>
         map_option word_of_nat (parse_unsigned 65536 (last (split_char CHR '':'' local_addr)))
     | _ \<Rightarrow> None)"

definition ports_of_lines :: "(string \<Rightarrow> u16 option) \<Rightarrow> string \<Rightarrow> u16 list \<Rightarrow> u16 list" where
  "ports_of_lines parse contents ports =
    fold (\<lambda>line ps. case parse line of None \<Rightarrow> ps | Some p \<Rightarrow> bs_insert p ps)
      (drop 1 (str_lines contents)) ports"

text \<open>
  The arguments are the contents of the two files, where they can be read, and the output of
  \<^verbatim>\<open>ss -tlnp\<close>, where it succeeds.
\<close>

definition scan_host_ports :: "string option \<Rightarrow> string option \<Rightarrow> string option \<Rightarrow> u16 list" where
  "scan_host_ports tcp tcp6 ss =
    (let add = (\<lambda>parse contents ports.
           case contents of None \<Rightarrow> ports | Some c \<Rightarrow> ports_of_lines parse c ports);
         ports = add parse_proc_net_tcp_line tcp6 (add parse_proc_net_tcp_line tcp [])
     in if ports \<noteq> [] then ports else add parse_ss_line ss ports)"


section \<open>Ordered sets of ports\<close>

lemma set_bs_insert [simp]: "set (bs_insert x ys) = insert x (set ys)"
  by (induction x ys rule: bs_insert.induct) auto

lemma sorted_bs_insert: "sorted_wrt (<) ys \<Longrightarrow> sorted_wrt (<) (bs_insert x ys)"
  by (induction x ys rule: bs_insert.induct) auto

lemma set_bs_remove [simp]: "set (bs_remove x ys) = set ys - {x}"
  by (auto simp: bs_remove_def)

lemma sorted_bs_remove: "sorted_wrt (<) ys \<Longrightarrow> sorted_wrt (<) (bs_remove x ys)"
  by (simp add: bs_remove_def sorted_wrt_filter)

lemma set_fold_bs_remove: "set (fold bs_remove xs ys) = set ys - set xs"
  by (induction xs arbitrary: ys) auto

lemma sorted_fold_bs_remove: "sorted_wrt (<) ys \<Longrightarrow> sorted_wrt (<) (fold bs_remove xs ys)"
  by (induction xs arbitrary: ys) (auto intro: sorted_bs_remove)

lemma unat_u16_less: "unat (p :: u16) < 65536"
  using unsigned_less [of p, where 'a = nat] by simp

lemma set_port_range: "set (port_range start end) = {p. start \<le> p \<and> p \<le> end}"
proof (intro equalityI subsetI)
  fix p assume "p \<in> set (port_range start end)"
  then obtain n where n: "p = word_of_nat n" "unat start \<le> n" "n \<le> unat end"
    by (auto simp: port_range_def)
  moreover have "n < 65536" using n(3) unat_u16_less [of "end"] by simp
  then have "unat p = n" using n(1) by (simp add: unat_of_nat)
  ultimately show "p \<in> {p. start \<le> p \<and> p \<le> end}" by (simp add: word_le_nat_alt)
next
  fix p assume "p \<in> {p. start \<le> p \<and> p \<le> end}"
  then have "unat p \<in> set [unat start..<Suc (unat end)]" by (auto simp: word_le_nat_alt)
  then show "p \<in> set (port_range start end)"
    unfolding port_range_def set_map by (intro image_eqI [of _ _ "unat p"]) simp_all
qed

lemma sorted_port_range: "sorted_wrt (<) (port_range start end)"
proof -
  have "sorted_wrt (\<lambda>m n. (word_of_nat m :: u16) < word_of_nat n) [unat start..<Suc (unat end)]"
  proof (rule sorted_wrt_mono_rel [OF _ sorted_wrt_upt])
    fix m n assume mn: "m \<in> set [unat start..<Suc (unat end)]" "n \<in> set [unat start..<Suc (unat end)]" "m < n"
    then have "n < 65536" using unat_u16_less [of "end"] by auto
    with mn show "(word_of_nat m :: u16) < word_of_nat n"
      by (simp add: word_less_nat_alt unat_of_nat)
  qed
  then show ?thesis by (simp add: port_range_def sorted_wrt_map del: upt_Suc)
qed

section \<open>The invariant\<close>

definition pool_inv :: "port_pool \<Rightarrow> bool" where
  "pool_inv pool \<longleftrightarrow> sorted_wrt (<) (pp_available pool) \<and> hm_wf (pp_allocated pool) \<and>
     set (pp_available pool) \<inter> fst ` set (pp_allocated pool) = {} \<and>
     (\<forall>p \<in> set (pp_available pool) \<union> fst ` set (pp_allocated pool). pp_start pool \<le> p \<and> p \<le> pp_end pool)"

datatype port_op =
    OpAllocate alloc_id
  | OpSpecific alloc_id u16
  | OpRelease u16
  | OpRestore "u16 list" "(u16, alloc_id) hash_map"

fun pool_step :: "port_op \<Rightarrow> port_pool \<Rightarrow> port_pool" where
  "pool_step (OpAllocate a) pool = fst (allocate a pool)"
| "pool_step (OpSpecific a p) pool = fst (allocate_specific a p pool)"
| "pool_step (OpRelease p) pool = release p pool"
| "pool_step (OpRestore in_use snap) pool = pool_restore in_use snap pool"

lemma pool_inv_take:
  assumes "pool_inv pool" "pp_start pool \<le> port" "port \<le> pp_end pool"
  shows "pool_inv (pool\<lparr> pp_available := bs_remove port (pp_available pool),
                         pp_allocated := hm_insert port a (pp_allocated pool) \<rparr>)"
  using assms by (auto simp: pool_inv_def hm_insert_keys sorted_bs_remove distinct_update)

lemma pool_inv_restore: "pool_inv pool \<Longrightarrow> pool_inv (restore_loop in_use snap pool)"
  by (induction in_use snap pool rule: restore_loop.induct) (auto simp: not_less intro: pool_inv_take)

lemma pool_inv_release: "pool_inv pool \<Longrightarrow> pool_inv (release p pool)"
proof (cases "hm_get (pp_allocated pool) p")
  case (Some a)
  then have "p \<in> fst ` set (pp_allocated pool)" by (metis hm_has_get hm_has_iff)
  moreover assume "pool_inv pool"
  ultimately show ?thesis
    using Some by (auto simp: release_def pool_inv_def hm_keys_remove sorted_bs_insert distinct_delete)
qed (simp add: release_def)

lemma pool_inv_step: "pool_inv pool \<Longrightarrow> pool_inv (pool_step op pool)"
proof (cases op)
  case (OpAllocate a)
  moreover assume inv: "pool_inv pool"
  moreover have "pp_start pool \<le> p \<and> p \<le> pp_end pool" if "p \<in> set (pp_available pool)" for p
    using inv that by (auto simp: pool_inv_def)
  ultimately show ?thesis
    using pool_inv_take [OF inv]
    by (cases "pp_available pool") (auto simp: allocate_def simp del: set_bs_remove)
qed (auto simp: allocate_specific_def not_less pool_restore_def
       intro: pool_inv_take pool_inv_restore pool_inv_release)

lemma pool_inv_with_range: "pool_inv (with_range start end in_use)"
  by (auto simp: pool_inv_def with_range_def set_fold_bs_remove set_port_range
      intro: sorted_fold_bs_remove sorted_port_range)

interpretation pool: stepped pool_step pool_inv
  by unfold_locales (rule pool_inv_step)


section \<open>The interface of the runner\<close>

text \<open>
  What the container runner relies on: a port that is handed out was owned by nobody and belongs
  to the caller from then on, a failed allocation changes nothing, and a release frees exactly
  the port it names.
\<close>

locale port_allocator =
  fixes alloc_port :: "'i \<Rightarrow> 'p \<Rightarrow> 'p \<times> u16 option"
    and free_port :: "u16 \<Rightarrow> 'p \<Rightarrow> 'p"
    and owner :: "'p \<Rightarrow> u16 \<Rightarrow> 'i option"
    and pinv :: "'p \<Rightarrow> bool"
  assumes alloc_Some: "pinv p \<Longrightarrow> alloc_port i p = (p', Some port) \<Longrightarrow>
      owner p port = None \<and> owner p' = (owner p)(port \<mapsto> i)"
    and alloc_None: "pinv p \<Longrightarrow> alloc_port i p = (p', None) \<Longrightarrow> p' = p"
    and free_owner: "pinv p \<Longrightarrow> owner (free_port port p) = (owner p)(port := None)"
    and pinv_alloc: "pinv p \<Longrightarrow> pinv (fst (alloc_port i p))"
    and pinv_free: "pinv p \<Longrightarrow> pinv (free_port port p)"
begin

lemma owner_kept_by_alloc:
  assumes "pinv p" "owner p port = Some j"
  shows "owner (fst (alloc_port i p)) port = Some j"
proof (cases "alloc_port i p")
  case (Pair p' r)
  show ?thesis
  proof (cases r)
    case None
    with Pair assms alloc_None [of p i p'] show ?thesis by simp
  next
    case (Some q)
    with Pair assms alloc_Some [of p i p' q] show ?thesis by auto
  qed
qed

lemma alloc_not_owned:
  assumes "pinv p" "owner p port = Some j"
  shows "snd (alloc_port i p) \<noteq> Some port"
  using assms alloc_Some [of p i "fst (alloc_port i p)" port] by (metis option.discI prod.collapse)

lemma free_after_alloc:
  assumes "pinv p" "alloc_port i p = (p', Some port)"
  shows "owner (free_port port p') = owner p"
  using assms alloc_Some [OF assms] free_owner [of p' port] pinv_alloc [OF assms(1), of i]
  by (auto simp: fun_upd_idem)

lemma free_unowned: "pinv p \<Longrightarrow> owner p port = None \<Longrightarrow> owner (free_port port p) = owner p"
  by (simp add: free_owner fun_upd_idem)

end

definition owner_of :: "port_pool \<Rightarrow> u16 \<Rightarrow> alloc_id option" where
  "owner_of pool port = hm_get (pp_allocated pool) port"

lemma pool_inv_available_unowned:
  "pool_inv pool \<Longrightarrow> port \<in> set (pp_available pool) \<Longrightarrow> owner_of pool port = None"
  by (auto simp: pool_inv_def owner_of_def map_of_eq_None_iff)

lemma pool_inv_range:
  "pool_inv pool \<Longrightarrow> (p, i) \<in> set (pp_allocated pool) \<Longrightarrow> pp_start pool \<le> p \<and> p \<le> pp_end pool"
  by (force simp: pool_inv_def)

lemma release_owner: "owner_of (release port pool) = (owner_of pool)(port := None)"
  by (auto simp: release_def owner_of_def split: option.split)

lemma allocate_eq_Some:
  "allocate i pool = (pool', Some port) \<longleftrightarrow>
    (\<exists>rest. pp_available pool = port # rest) \<and>
    pool' = pool\<lparr> pp_available := bs_remove port (pp_available pool),
                  pp_allocated := hm_insert port i (pp_allocated pool) \<rparr>"
  by (auto simp: allocate_def split: list.splits)

interpretation ports: port_allocator allocate release owner_of pool_inv
proof
  fix p i p' port
  assume "pool_inv p" "allocate i p = (p', Some port)"
  then show "owner_of p port = None \<and> owner_of p' = (owner_of p)(port \<mapsto> i)"
    using pool_inv_available_unowned [of p port] by (auto simp: allocate_eq_Some owner_of_def)
next
  show "pool_inv p \<Longrightarrow> pool_inv (fst (allocate i p))" for p i
    using pool_inv_step [of p "OpAllocate i"] by simp
qed (auto simp: allocate_def release_owner pool_inv_release split: list.splits)

section \<open>No port is lost\<close>

definition all_ports :: "port_pool \<Rightarrow> u16 set" where
  "all_ports pool = set (pp_available pool) \<union> fst ` set (pp_allocated pool)"

fun is_runtime_op :: "port_op \<Rightarrow> bool" where
  "is_runtime_op (OpAllocate _) = True"
| "is_runtime_op (OpRelease _) = True"
| "is_runtime_op _ = False"

lemma all_ports_step: "is_runtime_op op \<Longrightarrow> all_ports (pool_step op pool) = all_ports pool"
proof (induction op pool rule: pool_step.induct)
  case (3 p pool)
  show ?case
    using hm_has_iff [of "pp_allocated pool" p]
    by (auto simp: release_def all_ports_def hm_keys_remove hm_has_def split: option.splits)
qed (auto simp: allocate_def all_ports_def hm_insert_keys split: list.splits)

lemma all_ports_run:
  "list_all is_runtime_op ops \<Longrightarrow> all_ports (fold pool_step ops pool) = all_ports pool"
  by (induction ops arbitrary: pool) (auto simp: all_ports_step)

lemma restore_loop_get:
  assumes "hm_wf snap"
    and "list_all (\<lambda>(p, _). pp_start pool \<le> p \<and> p \<le> pp_end pool \<and> p \<notin> set in_use) snap"
  shows "hm_get (pp_allocated (restore_loop in_use snap pool)) p
    = (case hm_get snap p of Some i \<Rightarrow> Some i | None \<Rightarrow> hm_get (pp_allocated pool) p)"
  using assms
proof (induction in_use snap pool rule: restore_loop.induct)
  case (2 in_use q i rest pool)
  have "p = q \<Longrightarrow> hm_get rest p = None" using 2(4) by (simp add: map_of_eq_None_iff)
  with 2 show ?case by (auto simp: not_less split: option.splits)
qed simp

section \<open>Properties\<close>

text \<open>
  Whatever sequence of allocations, reservations, releases and restores the allocator sees,
  the free ports and the allocated ones are disjoint, each in the configured range, and every
  allocated port has one owner.
\<close>

theorem ports_wellformed: "pool_inv (fold pool_step ops (with_range start end in_use))"
  by (rule pool.run_keeps) (rule pool_inv_with_range)

text \<open>
  An allocation hands out the lowest free port, which nobody owned, and makes the caller
  its owner; it fails exactly when no port is free, and then changes nothing. A port that is
  owned is never handed out again before it is released.
\<close>

theorem allocate_lowest_free:
  assumes "pool_inv pool"
  shows "case allocate i pool of
     (pool', None) \<Rightarrow> pp_available pool = [] \<and> pool' = pool
   | (pool', Some port) \<Rightarrow>
       port \<in> set (pp_available pool) \<and> (\<forall>q \<in> set (pp_available pool). port \<le> q) \<and>
       owner_of pool port = None \<and> owner_of pool' = (owner_of pool)(port \<mapsto> i) \<and>
       set (pp_available pool') = set (pp_available pool) - {port}"
proof (cases "allocate i pool")
  case (Pair pool' r)
  show ?thesis
  proof (cases r)
    case None
    then show ?thesis using Pair by (auto simp: allocate_def split: list.splits)
  next
    case (Some port)
    then have al: "allocate i pool = (pool', Some port)" using Pair by simp
    then obtain rest where rest: "pp_available pool = port # rest"
        "pp_available pool' = bs_remove port (pp_available pool)"
      by (auto simp: allocate_eq_Some)
    moreover have "\<forall>q \<in> set (pp_available pool). port \<le> q"
      using rest(1) assms by (auto simp: pool_inv_def less_imp_le)
    ultimately show ?thesis
      using ports.alloc_Some [OF assms al] unfolding al by (simp del: fun_upd_apply)
  qed
qed

theorem allocate_lowest_free_witness:
  "owner_of (fst (allocate ''b'' (fst (allocate ''a'' (with_range 50000 50002 [50000]))))) 50002 = Some ''b''"
proof -
  let ?p = "fst (allocate ''a'' (with_range 50000 50002 [50000]))"
  have "pool_inv ?p" using ports.pinv_alloc [OF pool_inv_with_range] .
  moreover have "allocate ''b'' ?p = (fst (allocate ''b'' ?p), Some 50002)"
    by (simp add: with_range_def port_range_def allocate_def bs_remove_def)
  ultimately show ?thesis using allocate_lowest_free [of ?p "''b''"] by (simp split: prod.splits)
qed

text \<open>
  No port is lost and none appears: under allocations and releases the free and the
  allocated ports together are those of the range that were not in use on the host at start.
\<close>

theorem ports_conserved:
  assumes "list_all is_runtime_op ops"
  shows "all_ports (fold pool_step ops (with_range start end in_use))
    = {p. start \<le> p \<and> p \<le> end} - set in_use"
  using all_ports_run [OF assms]
  by (simp add: all_ports_def with_range_def set_fold_bs_remove set_port_range)

theorem ports_conserved_witness:
  "all_ports (fold pool_step [OpAllocate ''a'', OpAllocate ''b'', OpRelease 50000]
     (with_range 50000 50003 [50002])) = {p. 50000 \<le> p \<and> p \<le> 50003} - {50002}"
  using ports_conserved [of "[OpAllocate ''a'', OpAllocate ''b'', OpRelease 50000]" 50000 50003 "[50002]"]
  by simp

text \<open>
  Crash recovery: restoring the snapshot of a pool into a fresh pool of the same range gives
  every port back to its owner, provided none of them is in use on the host by then.
\<close>

theorem snapshot_restore:
  assumes "pool_inv pool" "pp_start pool = start" "pp_end pool = end"
    and "fst ` set (pool_snapshot pool) \<inter> set in_use' = {}"
  shows "owner_of (pool_restore in_use' (pool_snapshot pool) (with_range start end in_use)) = owner_of pool"
proof (rule ext)
  fix p
  have "hm_get (pp_allocated (restore_loop in_use' (pp_allocated pool) (with_range start end in_use))) p
      = (case hm_get (pp_allocated pool) p of Some i \<Rightarrow> Some i | None \<Rightarrow> None)"
    by (subst restore_loop_get)
       (use assms pool_inv_range [OF assms(1)] in
         \<open>auto simp: pool_inv_def pool_snapshot_def with_range_def list_all_iff split: option.split\<close>)
  then show "owner_of (pool_restore in_use' (pool_snapshot pool) (with_range start end in_use)) p
      = owner_of pool p"
    by (simp add: owner_of_def pool_restore_def pool_snapshot_def split: option.splits)
qed

theorem snapshot_restore_witness:
  "owner_of (pool_restore [] (pool_snapshot (fst (allocate ''a'' (with_range 50000 50001 []))))
      (with_range 50000 50001 [])) 50000 = Some ''a''"
proof -
  let ?p = "fst (allocate ''a'' (with_range 50000 50001 []))"
  have "owner_of (pool_restore [] (pool_snapshot ?p) (with_range 50000 50001 [])) = owner_of ?p"
    by (rule snapshot_restore, rule ports.pinv_alloc [OF pool_inv_with_range])
       (simp_all add: with_range_def port_range_def allocate_def)
  then show ?thesis
    by (simp add: with_range_def port_range_def allocate_def owner_of_def)
qed

end
