(* ===== verification/Scheduler.thy ===== *)
theory Scheduler
  imports Fsm
begin

text \<open>
  The placement function of \<^verbatim>\<open>crates/node/src/primary/scheduler.rs\<close>. A placement is
  on a ready node that has the capacity, prefers nodes without the same service, packs the
  fullest node, and placing what it chose never takes more memory than a node has.
\<close>

section \<open>Placement\<close>

record schedule_request =
  rq_need :: resources
  rq_name :: string
  rq_kind :: alloc_kind
  rq_volume :: "string option"

definition has_capacity :: "node_resources option \<Rightarrow> resources \<Rightarrow> bool" where
  "has_capacity available need =
    (case available of
       Some avail \<Rightarrow> f64_le (r_cpu need) (nr_cpu_available avail) \<and> r_memory need \<le> nr_memory_available avail
     | None \<Rightarrow> False)"

definition gib1 :: u64 where
  "gib1 = 1073741824"

definition bin_pack_score :: "node_resources \<Rightarrow> f64" where
  "bin_pack_score avail =
    f64_add (nr_cpu_available avail)
      (f64_div (f64_of_u64 (nr_memory_available avail)) (f64_of_u64 gib1))"

text \<open>\<^verbatim>\<open>Iterator::min_by\<close>: the first of the smallest elements.\<close>

definition min_by :: "('a \<Rightarrow> 'a \<Rightarrow> ordering) \<Rightarrow> 'a list \<Rightarrow> 'a option" where
  "min_by cmp xs =
    (case xs of
       [] \<Rightarrow> None
     | x # xs \<Rightarrow> Some (fold (\<lambda>y x. if cmp x y = Greater then y else x) xs x))"

definition compare_scores :: "fsm_node \<times> node_resources \<Rightarrow> fsm_node \<times> node_resources \<Rightarrow> ordering" where
  "compare_scores a b =
    (case f64_partial_cmp (bin_pack_score (snd a)) (bin_pack_score (snd b)) of
       Some c \<Rightarrow> c
     | None \<Rightarrow> Equal)"

definition candidates ::
  "resources \<Rightarrow> fsm_node list \<Rightarrow> (u64 \<Rightarrow> node_resources option) \<Rightarrow> (fsm_node \<times> node_resources) list" where
  "candidates need nodes available_fn =
    List.map_filter
      (\<lambda>n. case available_fn (n_raft_id n) of
             None \<Rightarrow> None
           | Some avail \<Rightarrow> if has_capacity (Some avail) need then Some (n, avail) else None)
      (filter (\<lambda>n. n_status n = NReady) nodes)"

definition spread ::
  "string \<Rightarrow> (node_id \<times> string \<times> alloc_kind) list \<Rightarrow> (fsm_node \<times> node_resources) list \<Rightarrow>
   (fsm_node \<times> node_resources) list" where
  "spread name allocs cands =
    (let nodes_with_same = map fst (filter (\<lambda>(_, n, k). n = name \<and> k = KService) allocs)
     in filter (\<lambda>(n, _). n_mill_id n \<notin> set nodes_with_same) cands)"

definition schedule ::
  "schedule_request \<Rightarrow> fsm_node list \<Rightarrow> (node_id \<times> string \<times> alloc_kind) list \<Rightarrow>
   (string \<times> fsm_volume) list \<Rightarrow> (u64 \<Rightarrow> node_resources option) \<Rightarrow> node_id option" where
  "schedule request nodes allocs volumes available_fn =
    (let place = (\<lambda>_ :: unit.
       let cands = candidates (rq_need request) nodes available_fn
       in if cands = [] then None
          else
            let cands =
              (if rq_kind request = KService \<and> spread (rq_name request) allocs cands \<noteq> []
               then spread (rq_name request) allocs cands else cands)
            in map_option (\<lambda>(n, _). n_mill_id n) (min_by compare_scores cands))
     in case rq_volume request of
          None \<Rightarrow> place ()
        | Some vol_name \<Rightarrow>
           (case List.find (\<lambda>(name, _). name = vol_name) volumes of
              None \<Rightarrow> place ()
            | Some (_, vol) \<Rightarrow>
               (case v_state vol of
                  VReady \<Rightarrow> place ()
                | VAttached node \<Rightarrow>
                    if list_ex (\<lambda>n. n_mill_id n = node \<and> n_status n = NReady \<and>
                                    has_capacity (available_fn (n_raft_id n)) (rq_need request)) nodes
                    then Some node else None)))"


section \<open>Placement on the cluster state\<close>

text \<open>
  The call that \<^verbatim>\<open>start_alloc\<close> and \<^verbatim>\<open>spawn_task\<close> make: every node, every
  allocation whatever its status, and the resources that the state computes.
\<close>

definition schedule_on :: "fsm_state \<Rightarrow> (string \<times> fsm_volume) list \<Rightarrow> schedule_request \<Rightarrow> node_id option" where
  "schedule_on s vols request =
    schedule request (list_nodes s)
      (map (\<lambda>a. (al_node a, al_name a, al_kind a)) (list_allocs s))
      vols (node_available_resources s)"


section \<open>The steps of the placement\<close>

lemma set_candidates:
  "(n, avail) \<in> set (candidates need nodes f) \<longleftrightarrow>
    n \<in> set nodes \<and> n_status n = NReady \<and> f (n_raft_id n) = Some avail \<and> has_capacity (Some avail) need"
  unfolding candidates_def
  by (auto simp: set_map_filter split: option.splits if_splits)

lemma fold_min_in: "fold (\<lambda>y x. if cmp x y = Greater then y else x) xs x \<in> insert x (set xs)"
  by (induction xs arbitrary: x) auto

lemma min_by_in: "min_by cmp xs = Some x \<Longrightarrow> x \<in> set xs"
  using fold_min_in [of cmp "tl xs" "hd xs"] by (cases xs) (auto simp: min_by_def)

lemma min_by_None [simp]: "min_by cmp xs = None \<longleftrightarrow> xs = []"
  by (simp add: min_by_def split: list.split)

lemma compare_scores_Greater:
  "compare_scores a b = Greater \<longleftrightarrow> f64_lt (bin_pack_score (snd b)) (bin_pack_score (snd a))"
  using f64_partial_cmp_Greater [of "bin_pack_score (snd a)" "bin_pack_score (snd b)"]
  by (auto simp: compare_scores_def split: option.splits)

lemma fold_min_least:
  assumes "\<forall>y \<in> insert x (set xs). bin_pack_score (snd y) \<noteq> NaN"
  shows "\<forall>y \<in> insert x (set xs). f64_le
    (bin_pack_score (snd (fold (\<lambda>y x. if compare_scores x y = Greater then y else x) xs x)))
    (bin_pack_score (snd y))"
  using assms
proof (induction xs arbitrary: x)
  case (Cons z xs)
  let ?w = "if compare_scores x z = Greater then z else x"
  have "f64_le (bin_pack_score (snd ?w)) (bin_pack_score (snd x)) \<and>
      f64_le (bin_pack_score (snd ?w)) (bin_pack_score (snd z))"
    using Cons.prems f64_le_total [of "bin_pack_score (snd x)" "bin_pack_score (snd z)"]
    by (auto simp: compare_scores_Greater f64_lt_def f64_le_refl)
  then show ?case using Cons.IH [of ?w] Cons.prems by (auto intro: f64_le_trans)
qed (simp add: f64_le_refl)

lemma min_by_least:
  assumes "min_by compare_scores xs = Some x" "\<forall>y \<in> set xs. bin_pack_score (snd y) \<noteq> NaN" "y \<in> set xs"
  shows "f64_le (bin_pack_score (snd x)) (bin_pack_score (snd y))"
  using assms fold_min_least [of "hd xs" "tl xs"] by (cases xs) (auto simp: min_by_def)

definition preferred :: "schedule_request \<Rightarrow> fsm_node list \<Rightarrow> (node_id \<times> string \<times> alloc_kind) list \<Rightarrow>
    (u64 \<Rightarrow> node_resources option) \<Rightarrow> (fsm_node \<times> node_resources) list" where
  "preferred request nodes allocs f =
    (let cands = candidates (rq_need request) nodes f;
         sp = spread (rq_name request) allocs cands
     in if rq_kind request = KService \<and> sp \<noteq> [] then sp else cands)"

definition attached_to :: "schedule_request \<Rightarrow> (string \<times> fsm_volume) list \<Rightarrow> node_id option" where
  "attached_to request volumes =
    (case rq_volume request of
       None \<Rightarrow> None
     | Some v \<Rightarrow> (case List.find (\<lambda>(name, _). name = v) volumes of
         None \<Rightarrow> None
       | Some (_, vol) \<Rightarrow> (case v_state vol of VAttached node \<Rightarrow> Some node | VReady \<Rightarrow> None)))"

definition fits :: "schedule_request \<Rightarrow> (u64 \<Rightarrow> node_resources option) \<Rightarrow> fsm_node \<Rightarrow> bool" where
  "fits request f n = (n_status n = NReady \<and> has_capacity (f (n_raft_id n)) (rq_need request))"

lemma schedule_eq:
  "schedule request nodes allocs volumes f =
    (case attached_to request volumes of
       Some node \<Rightarrow> if \<exists>n \<in> set nodes. n_mill_id n = node \<and> fits request f n then Some node else None
     | None \<Rightarrow> map_option (\<lambda>(n, _). n_mill_id n)
                 (min_by compare_scores (preferred request nodes allocs f)))"
proof -
  have "spread nm al [] = []" for nm al by (simp add: spread_def)
  then show ?thesis
    by (auto simp: schedule_def attached_to_def preferred_def fits_def list_ex_iff Let_def
        split: option.split volume_state.split)
qed

lemma preferred_subset: "set (preferred request nodes allocs f) \<subseteq> set (candidates (rq_need request) nodes f)"
  by (auto simp: preferred_def spread_def Let_def)

lemma preferred_Nil:
  "preferred request nodes allocs f = [] \<longleftrightarrow> candidates (rq_need request) nodes f = []"
  by (auto simp: preferred_def spread_def Let_def)

lemma candidates_fits:
  "(n, avail) \<in> set (candidates (rq_need request) nodes f) \<Longrightarrow> n \<in> set nodes \<and> fits request f n"
  by (auto simp: set_candidates fits_def)

lemma fits_candidates:
  "n \<in> set nodes \<Longrightarrow> fits request f n \<Longrightarrow> \<exists>avail. (n, avail) \<in> set (candidates (rq_need request) nodes f)"
  by (auto simp: set_candidates fits_def has_capacity_def split: option.splits)

lemma schedule_Some:
  assumes "schedule request nodes allocs volumes f = Some m"
  shows "\<exists>n \<in> set nodes. n_mill_id n = m \<and> fits request f n"
proof (cases "attached_to request volumes")
  case None
  then obtain n avail where n: "min_by compare_scores (preferred request nodes allocs f) = Some (n, avail)"
      "n_mill_id n = m"
    using assms by (auto simp: schedule_eq)
  from min_by_in [OF n(1)] preferred_subset have "(n, avail) \<in> set (candidates (rq_need request) nodes f)"
    by blast
  with n(2) candidates_fits show ?thesis by blast
next
  case (Some node)
  with assms show ?thesis by (auto simp: schedule_eq split: if_splits)
qed

lemma schedule_None:
  assumes "attached_to request volumes = None"
  shows "schedule request nodes allocs volumes f = None \<longleftrightarrow> \<not> (\<exists>n \<in> set nodes. fits request f n)"
proof -
  have "candidates (rq_need request) nodes f = [] \<longleftrightarrow> \<not> (\<exists>n \<in> set nodes. fits request f n)"
    using candidates_fits fits_candidates by (metis list.set_intros(1) neq_Nil_conv surj_pair empty_iff empty_set)
  then show ?thesis using assms by (simp add: schedule_eq preferred_Nil)
qed

section \<open>Memory is never overcommitted\<close>

definition distinct_mill_ids :: "fsm_state \<Rightarrow> bool" where
  "distinct_mill_ids s = distinct (map n_mill_id (list_nodes s))"

definition no_overcommit :: "fsm_state \<Rightarrow> bool" where
  "no_overcommit s = list_all
    (\<lambda>n. used_memory s (n_mill_id n) \<le> unat (nr_memory_total (n_resources n))) (list_nodes s)"

lemma raft_id_for_node:
  assumes "fsm_inv s" "raft_id_for s m = Some i"
  shows "\<exists>n. hm_get (f_nodes s) i = Some n \<and> n_mill_id n = m"
proof -
  obtain n where n: "n \<in> set (hm_values (f_nodes s))" "n_mill_id n = m" "n_raft_id n = i"
    using assms(2) find_eq_Some by (fastforce simp: raft_id_for_def)
  then obtain j where "(j, n) \<in> set (f_nodes s)" by auto
  moreover from this have "j = i" using assms(1) n(3) by (auto simp: fsm_inv_def keyed_by_id_def list_all_iff)
  ultimately have "hm_get (f_nodes s) i = Some n" using assms(1) by (simp add: fsm_inv_def)
  with n show ?thesis by blast
qed

lemma distinct_mill_ids_eq:
  assumes "distinct_mill_ids s" "n \<in> set (list_nodes s)" "n' \<in> set (list_nodes s)" "n_mill_id n = n_mill_id n'"
  shows "n = n'"
  using assms by (auto simp: distinct_mill_ids_def distinct_map inj_on_def)

lemma unat_total_bound: "unat (w :: u64) < 2 ^ 64"
  using unsigned_less [of w, where 'a = nat] by simp

lemma has_capacity_memory:
  assumes "hm_get (f_nodes s) i = Some n" "has_capacity (node_available_resources s i) need"
    and "used_memory s (n_mill_id n) \<le> unat (nr_memory_total (n_resources n))"
  shows "used_memory s (n_mill_id n) + unat (r_memory need) \<le> unat (nr_memory_total (n_resources n))"
proof -
  have "used_memory s (n_mill_id n) < 2 ^ 64"
    using assms(3) unat_total_bound [of "nr_memory_total (n_resources n)"] by linarith
  then obtain r where "node_available_resources s i = Some r"
      "unat (nr_memory_available r) = unat (nr_memory_total (n_resources n)) - used_memory s (n_mill_id n)"
    using node_available_Some [OF assms(1)] by blast
  with assms(2,3) show ?thesis by (auto simp: has_capacity_def word_le_nat_alt)
qed

lemma placement_keeps_no_overcommit:
  assumes "fsm_inv s" "distinct_mill_ids s" "no_overcommit s"
    and "schedule_on s vols request = Some m" "raft_id_for s m = Some i"
    and "hm_get (f_allocs s) aid = None"
  shows "no_overcommit (fst (apply_command s
    (AllocScheduled aid i name kind adr (alloc_resources_from (rq_need request)))))"
proof -
  obtain n where n: "n \<in> set (list_nodes s)" "n_mill_id n = m" "fits request (node_available_resources s) n"
    using assms(4) unfolding schedule_on_def by (metis schedule_Some)
  obtain n' where n': "hm_get (f_nodes s) i = Some n'" "n_mill_id n' = m"
    using raft_id_for_node [OF assms(1,5)] by blast
  have "n' \<in> set (list_nodes s)" using n'(1) by (force simp: list_nodes_def dest: map_of_SomeD)
  with n n' assms(2) have eq: "n' = n" using distinct_mill_ids_eq by metis
  have "n_raft_id n = i"
    using assms(1) n'(1) eq by (auto simp: fsm_inv_def keyed_by_id_def list_all_iff dest!: map_of_SomeD)
  then have fit: "used_memory s m + unat (r_memory (rq_need request)) \<le> unat (nr_memory_total (n_resources n))"
    using has_capacity_memory [of s i n "rq_need request"] n n' eq assms(3)
    by (auto simp: fits_def no_overcommit_def list_all_iff)
  let ?s' = "fst (apply_command s (AllocScheduled aid i name kind adr (alloc_resources_from (rq_need request))))"
  have "list_nodes ?s' = list_nodes s" by (simp add: list_nodes_def split: option.split)
  moreover have "used_memory ?s' (n_mill_id x) \<le> unat (nr_memory_total (n_resources x))"
    if "x \<in> set (list_nodes s)" for x
    using used_memory_scheduled [OF n'(1) assms(6), of name kind adr _ "n_mill_id x"] fit that n n'
      distinct_mill_ids_eq [OF assms(2) that n(1)] assms(3)
    by (auto simp: alloc_resources_from_def no_overcommit_def list_all_iff)
  ultimately show ?thesis by (simp add: no_overcommit_def list_all_iff)
qed


section \<open>Properties\<close>

text \<open>
  A placement is sound: the chosen node is one of the given nodes, it is ready, and it has
  the processors and the memory that the request needs.
\<close>

theorem schedule_sound:
  assumes "schedule request nodes allocs volumes available_fn = Some m"
  shows "\<exists>n avail. n \<in> set nodes \<and> n_mill_id n = m \<and> n_status n = NReady \<and>
    available_fn (n_raft_id n) = Some avail \<and>
    f64_le (r_cpu (rq_need request)) (nr_cpu_available avail) \<and>
    r_memory (rq_need request) \<le> nr_memory_available avail"
  using schedule_Some [OF assms] by (auto simp: fits_def has_capacity_def split: option.splits)

definition req1 :: schedule_request where
  "req1 = \<lparr> rq_need = \<lparr> r_cpu = Fin 1, r_memory = 1073741824 \<rparr>, rq_name = ''web'',
     rq_kind = KService, rq_volume = None \<rparr>"

definition ready_node :: "u64 \<Rightarrow> node_id \<Rightarrow> fsm_node" where
  "ready_node i m = node1\<lparr> n_raft_id := i, n_mill_id := m, n_status := NReady \<rparr>"

definition avail1 :: "u64 \<Rightarrow> node_resources option" where
  "avail1 i = (if i = 1 then Some \<lparr> nr_cpu_total = Fin 8, nr_cpu_available = Fin 8,
       nr_memory_total = 8589934592, nr_memory_available = 8589934592 \<rparr>
     else if i = 2 then Some \<lparr> nr_cpu_total = Fin 8, nr_cpu_available = Fin 4,
       nr_memory_total = 8589934592, nr_memory_available = 4294967296 \<rparr>
     else None)"

lemmas place_simps = schedule_def candidates_def map_filter_simps spread_def has_capacity_def min_by_def
  compare_scores_def f64_partial_cmp_def bin_pack_score_def gib1_def f64_of_u64_def f64_of_nat_def
  req1_def ready_node_def avail1_def node1_def Let_def

lemma req1_service: "attached_to req1 [] = None" "rq_kind req1 = KService"
  by (simp_all add: attached_to_def req1_def)

lemma avail1_scores:
  "\<forall>n \<in> set [ready_node 1 ''n1'', ready_node 2 ''n2'']. \<forall>r. avail1 (n_raft_id n) = Some r \<longrightarrow>
     bin_pack_score r \<noteq> NaN"
  by (auto simp: place_simps)

lemma place1: "schedule req1 [ready_node 1 ''n1'', ready_node 2 ''n2''] [] [] avail1 = Some ''n2''"
  by (simp add: place_simps)

lemma place2:
  "schedule req1 [ready_node 1 ''n1'', ready_node 2 ''n2''] [(''n2'', ''web'', KService)] [] avail1 = Some ''n1''"
  by (simp add: place_simps)

theorem schedule_sound_witness:
  "\<exists>n avail. n \<in> set [ready_node 1 ''n1'', ready_node 2 ''n2''] \<and> n_mill_id n = ''n2'' \<and> n_status n = NReady \<and>
    avail1 (n_raft_id n) = Some avail \<and>
    f64_le (r_cpu (rq_need req1)) (nr_cpu_available avail) \<and>
    r_memory (rq_need req1) \<le> nr_memory_available avail"
  by (rule schedule_sound [OF place1])

text \<open>
  A placement is complete: unless the request names a volume that is attached, it fails
  only when no ready node has the capacity. For an attached volume the answer is the node that
  holds it, if that node fits, and nothing otherwise.
\<close>

theorem schedule_complete:
  "case attached_to request volumes of
     None \<Rightarrow> schedule request nodes allocs volumes available_fn = None \<longleftrightarrow>
       \<not> (\<exists>n \<in> set nodes. fits request available_fn n)
   | Some node \<Rightarrow> schedule request nodes allocs volumes available_fn =
       (if \<exists>n \<in> set nodes. n_mill_id n = node \<and> fits request available_fn n then Some node else None)"
proof (cases "attached_to request volumes")
  case None
  then show ?thesis using schedule_None by simp
next
  case (Some node)
  then show ?thesis by (simp add: schedule_eq)
qed

text \<open>
  (C21) Spreading comes before packing: a service without an attached volume goes to a node that
  runs no allocation of that service if one fits, and among the nodes that remain to one with
  the least free resources, scored as processors plus gibibytes.
\<close>

theorem schedule_preference:
  assumes "attached_to request volumes = None" "rq_kind request = KService"
    and "schedule request nodes allocs volumes available_fn = Some m"
    and "\<forall>n \<in> set nodes. \<forall>r. available_fn (n_raft_id n) = Some r \<longrightarrow> bin_pack_score r \<noteq> NaN"
  defines "free \<equiv> \<lambda>n. n \<in> set nodes \<and> fits request available_fn n \<and>
    (n_mill_id n, rq_name request, KService) \<notin> set allocs"
  shows "\<exists>n r. n \<in> set nodes \<and> n_mill_id n = m \<and> available_fn (n_raft_id n) = Some r \<and>
    ((\<exists>x. free x) \<longrightarrow> free n) \<and>
    (\<forall>x s. (if \<exists>x. free x then free x else x \<in> set nodes \<and> fits request available_fn x) \<and>
       available_fn (n_raft_id x) = Some s \<longrightarrow> f64_le (bin_pack_score r) (bin_pack_score s))"
proof -
  let ?cands = "candidates (rq_need request) nodes available_fn"
  obtain n r where n: "min_by compare_scores (preferred request nodes allocs available_fn) = Some (n, r)"
      "n_mill_id n = m"
    using assms(1,3) by (auto simp: schedule_eq)
  have sp: "(x, s) \<in> set (spread (rq_name request) allocs ?cands) \<longleftrightarrow>
      free x \<and> available_fn (n_raft_id x) = Some s" for x s
    by (auto simp: spread_def set_candidates free_def fits_def Let_def image_iff)
  have ca: "(x, s) \<in> set ?cands \<longleftrightarrow>
      x \<in> set nodes \<and> fits request available_fn x \<and> available_fn (n_raft_id x) = Some s" for x s
    by (auto simp: set_candidates fits_def)
  have ex: "(\<exists>x. free x) \<longleftrightarrow> spread (rq_name request) allocs ?cands \<noteq> []"
  proof -
    have "free x \<Longrightarrow> \<exists>s. available_fn (n_raft_id x) = Some s" for x
      by (auto simp: free_def fits_def has_capacity_def split: option.splits)
    then show ?thesis using sp by (metis ex_in_conv set_empty surj_pair)
  qed
  have pr: "(x, s) \<in> set (preferred request nodes allocs available_fn) \<longleftrightarrow>
      (if \<exists>x. free x then free x else x \<in> set nodes \<and> fits request available_fn x) \<and>
      available_fn (n_raft_id x) = Some s" for x s
    using sp [of x s] ca [of x s] ex assms(2) by (simp add: preferred_def Let_def)
  have nn: "\<forall>y \<in> set (preferred request nodes allocs available_fn). bin_pack_score (snd y) \<noteq> NaN"
    using preferred_subset [of request nodes allocs available_fn] assms(4)
    by (force simp: set_candidates)
  have "(n, r) \<in> set ?cands" "(n, r) \<in> set (preferred request nodes allocs available_fn)"
    using min_by_in [OF n(1)] preferred_subset by blast+
  moreover have "f64_le (bin_pack_score r) (bin_pack_score s)"
    if "(x, s) \<in> set (preferred request nodes allocs available_fn)" for x s
    using min_by_least [OF n(1) nn that] by simp
  ultimately show ?thesis using n(2) ca pr by (intro exI [of _ n] exI [of _ r]) auto
qed

theorem schedule_preference_witness:
  defines "free \<equiv> \<lambda>n. n \<in> set [ready_node 1 ''n1'', ready_node 2 ''n2''] \<and> fits req1 avail1 n \<and>
    (n_mill_id n, rq_name req1, KService) \<notin> set [(''n2'', ''web'', KService)]"
  shows "\<exists>n r. n \<in> set [ready_node 1 ''n1'', ready_node 2 ''n2''] \<and> n_mill_id n = ''n1'' \<and>
    avail1 (n_raft_id n) = Some r \<and> ((\<exists>x. free x) \<longrightarrow> free n) \<and>
    (\<forall>x s. (if \<exists>x. free x then free x
            else x \<in> set [ready_node 1 ''n1'', ready_node 2 ''n2''] \<and> fits req1 avail1 x) \<and>
       avail1 (n_raft_id x) = Some s \<longrightarrow> f64_le (bin_pack_score r) (bin_pack_score s))"
  unfolding free_def
  by (rule schedule_preference [OF req1_service place2 avail1_scores])

text \<open>
  (C4) Placements never overcommit memory. Take a well-formed state whose nodes have distinct
  names and whose allocations fit their nodes; recording a new allocation on the node that the
  scheduler chose for it leads to a state whose allocations fit their nodes again.
\<close>

theorem placement_never_overcommits:
  assumes "fsm_inv s" "distinct_mill_ids s" "no_overcommit s"
    and "schedule_on s vols request = Some m" "raft_id_for s m = Some i"
    and "hm_get (f_allocs s) aid = None"
  shows "no_overcommit (fst (apply_command s
    (AllocScheduled aid i name kind adr (alloc_resources_from (rq_need request)))))"
  using assms by (rule placement_keeps_no_overcommit)

definition state2 :: fsm_state where
  "state2 = fsm_default\<lparr> f_nodes := [(1, (ready_node 1 ''n1'')\<lparr> n_resources := \<lparr> nr_cpu_total = Fin 4,
      nr_cpu_available = Fin 4, nr_memory_total = 4294967296, nr_memory_available = 4294967296 \<rparr> \<rparr>)] \<rparr>"

theorem placement_never_overcommits_witness:
  "no_overcommit (fst (apply_command state2
    (AllocScheduled ''web-0'' 1 ''web'' KService None (alloc_resources_from (rq_need req1)))))"
  by (rule placement_never_overcommits [where vols = "[]" and m = "''n1''"])
     (simp_all add: state2_def fsm_default_def fsm_inv_def keyed_by_id_def distinct_mill_ids_def
       no_overcommit_def list_nodes_def used_memory_def raft_id_for_def schedule_on_def list_allocs_def
       node_available_resources_def f64_sub_def place_simps)

end
