(* ===== verification/Validate.thy ===== *)
theory Validate
  imports Types Strings
begin

text \<open>
  Validation of a configuration, \<^verbatim>\<open>crates/config/src/validate\<close>: the classification of
  environment values (\<^verbatim>\<open>parse.rs\<close>), the constraints (\<^verbatim>\<open>constraints.rs\<close>),
  the references between services (\<^verbatim>\<open>refs.rs\<close>) and \<^verbatim>\<open>resolve\<close>
  (\<^verbatim>\<open>mod.rs\<close>). The error list that Rust mutates is threaded through. The parsers
  of byte sizes and durations belong to the bytesize and humantime crates and are parameters.
  A configuration is accepted exactly when it meets the declarative \<open>valid_raw\<close>, and an
  interpolated value is read back from its printed form.
\<close>

datatype config_error =
    CParse string
  | InvalidField string string
  | UnknownServiceRef string string
  | Constraint string string
  | Multiple "config_error list"

type_synonym size_parser = "string \<Rightarrow> (string, byte_size) result"
type_synonym duration_parser = "string \<Rightarrow> (string, duration) result"


section \<open>Fields\<close>

definition parse_byte_size ::
  "size_parser \<Rightarrow> string \<Rightarrow> string \<Rightarrow> config_error list \<Rightarrow> byte_size \<times> config_error list" where
  "parse_byte_size psize path v errors =
    (case psize v of
       Inr b \<Rightarrow> (b, errors)
     | Inl e \<Rightarrow> (0, errors @ [InvalidField path (''invalid byte size '' @ quoted v @ '': '' @ e)]))"

definition parse_duration ::
  "duration_parser \<Rightarrow> string \<Rightarrow> string \<Rightarrow> config_error list \<Rightarrow> duration \<times> config_error list" where
  "parse_duration pdur path v errors =
    (case pdur v of
       Inr d \<Rightarrow> (d, errors)
     | Inl e \<Rightarrow> (0, errors @ [InvalidField path (''invalid duration '' @ quoted v @ '': '' @ e)]))"


section \<open>Environment values\<close>

definition parse_interpolation_expr ::
  "string \<Rightarrow> string \<Rightarrow> string \<Rightarrow> config_error list \<Rightarrow> env_part \<times> config_error list" where
  "parse_interpolation_expr path expr full_value errors =
    (case Option.bind (strip_prefix expr ''secret('') (\<lambda>s. strip_suffix s '')'') of
       Some inner \<Rightarrow>
         (let name = str_trim inner
          in (Secret name,
              if name = [] then errors @ [InvalidField path (''empty secret name in '' @ quoted full_value)]
              else errors))
     | None \<Rightarrow>
        (case Option.bind (strip_prefix expr ''service.'') (\<lambda>s. strip_suffix s ''.address'') of
           Some name \<Rightarrow>
             (ServiceAddress name,
              if name = [] then errors @ [InvalidField path (''empty service name in '' @ quoted full_value)]
              else errors)
         | None \<Rightarrow>
            (PLiteral (''${'' @ expr @ ''}''),
             errors @ [InvalidField path (''unknown interpolation '' @ quoted (''${'' @ expr @ ''}'') @
               '' in '' @ quoted full_value)])))"

text \<open>
  The loop of \<^verbatim>\<open>parse_env_value\<close>: what remains to be read, and the parts found so
  far. The early return for a value without interpolation is the left result.
\<close>

function env_loop ::
  "string \<Rightarrow> string \<Rightarrow> string \<Rightarrow> env_part list \<Rightarrow> config_error list \<Rightarrow>
   (string + env_part list) \<times> config_error list" where
  "env_loop path v rest parts errors =
    (case str_find rest ''${'' of
       None \<Rightarrow>
         if rest = [] then (Inr parts, errors)
         else if parts = [] then (Inl rest, errors)
         else (Inr (parts @ [PLiteral rest]), errors)
     | Some start \<Rightarrow>
        (let parts = (if 0 < start then parts @ [PLiteral (take start rest)] else parts);
             after_dollar_brace = drop (start + 2) rest
         in case str_find after_dollar_brace ''}'' of
              None \<Rightarrow>
                (Inr (parts @ [PLiteral (drop start rest)]),
                 errors @ [InvalidField path (''unclosed interpolation in '' @ quoted v)])
            | Some end \<Rightarrow>
                (case parse_interpolation_expr path (take end after_dollar_brace) v errors of
                   (part, errors) \<Rightarrow>
                     env_loop path v (drop (end + 1) after_dollar_brace) (parts @ [part]) errors)))"
  by pat_completeness auto
termination
proof (relation "measure (\<lambda>(_, _, rest, _, _). length rest)", simp)
  fix rest :: string and start "end" :: nat and x y path v parts' part errors parts errors'
  assume "str_find rest ''${'' = Some start" "x = drop (start + 2) rest"
  then have "rest \<noteq> []" by auto
  then show "((path, v, drop (end + 1) x, parts' @ [part], errors), path, v, rest, parts, errors')
      \<in> measure (\<lambda>(_, _, rest, _, _). length rest)"
    using \<open>x = drop (start + 2) rest\<close> by simp
qed

declare env_loop.simps [simp del]

definition parse_env_value ::
  "string \<Rightarrow> string \<Rightarrow> config_error list \<Rightarrow> env_value \<times> config_error list" where
  "parse_env_value path v errors =
    (case env_loop path v v [] errors of
       (Inl s, errors) \<Rightarrow> (ELiteral s, errors)
     | (Inr parts, errors) \<Rightarrow>
         (if parts = [] then ELiteral [] else Interpolated parts, errors))"

fun parse_env_loop ::
  "string \<Rightarrow> (string \<times> string) list \<Rightarrow> (string, env_value) hash_map \<Rightarrow> config_error list \<Rightarrow>
   (string, env_value) hash_map \<times> config_error list" where
  "parse_env_loop parent_path [] res errors = (res, errors)"
| "parse_env_loop parent_path ((key, v) # raw) res errors =
    (case parse_env_value (parent_path @ ''.env.'' @ key) v errors of
       (ev, errors) \<Rightarrow> parse_env_loop parent_path raw (hm_insert key ev res) errors)"

definition parse_env_map ::
  "string \<Rightarrow> (string, string) hash_map \<Rightarrow> config_error list \<Rightarrow>
   (string, env_value) hash_map \<times> config_error list" where
  "parse_env_map parent_path raw errors = parse_env_loop parent_path raw [] errors"


section \<open>Constraints\<close>

definition check_cpu :: "string \<Rightarrow> f64 \<Rightarrow> config_error list \<Rightarrow> config_error list" where
  "check_cpu path cpu errors =
    (if f64_le cpu (Fin 0) then errors @ [Constraint path ''cpu must be greater than 0''] else errors)"

definition check_port :: "string \<Rightarrow> u16 \<Rightarrow> config_error list \<Rightarrow> config_error list" where
  "check_port path port errors =
    (if port = 0 then errors @ [Constraint path ''port must be greater than 0''] else errors)"

definition check_health_path :: "string \<Rightarrow> string \<Rightarrow> config_error list \<Rightarrow> config_error list" where
  "check_health_path path health_path errors =
    (if \<not> starts_with health_path ''/''
     then errors @ [Constraint path (''health path must start with '' @ quoted ''/'' @ '', got '' @ quoted health_path)]
     else errors)"

definition check_volume ::
  "string \<Rightarrow> bool \<Rightarrow> byte_size option \<Rightarrow> config_error list \<Rightarrow> config_error list" where
  "check_volume path ephemeral sz errors =
    (if \<not> ephemeral \<and> sz = None then errors @ [Constraint path ''persistent volume must have a size'']
     else errors)"


section \<open>References\<close>

fun part_refs :: "string \<Rightarrow> string list \<Rightarrow> env_part list \<Rightarrow> config_error list \<Rightarrow> config_error list" where
  "part_refs path defined [] errors = errors"
| "part_refs path defined (ServiceAddress service # parts) errors =
    part_refs path defined parts
      (if service \<notin> set defined then errors @ [UnknownServiceRef path service] else errors)"
| "part_refs path defined (_ # parts) errors = part_refs path defined parts errors"

fun check_env_refs ::
  "string \<Rightarrow> (string \<times> env_value) list \<Rightarrow> string list \<Rightarrow> config_error list \<Rightarrow> config_error list" where
  "check_env_refs parent_path [] defined errors = errors"
| "check_env_refs parent_path ((key, Interpolated parts) # env) defined errors =
    check_env_refs parent_path env defined (part_refs (parent_path @ ''.env.'' @ key) defined parts errors)"
| "check_env_refs parent_path ((key, ELiteral _) # env) defined errors =
    check_env_refs parent_path env defined errors"

definition check_service_refs ::
  "(string, service_def) hash_map \<Rightarrow> (string, task_def) hash_map \<Rightarrow> string list \<Rightarrow>
   config_error list \<Rightarrow> config_error list" where
  "check_service_refs services tasks defined errors =
    fold (\<lambda>(name, task) errors. check_env_refs (''task.'' @ name) (t_env task) defined errors) tasks
      (fold (\<lambda>(name, svc) errors. check_env_refs (''service.'' @ name) (s_env svc) defined errors)
        services errors)"


section \<open>Services, tasks and the whole configuration\<close>

text \<open>How an error list becomes a result, at the end of each of the three functions.\<close>

definition finish :: "'a \<Rightarrow> config_error list \<Rightarrow> (config_error, 'a) result" where
  "finish x errors =
    (case errors of [] \<Rightarrow> Inr x | [e] \<Rightarrow> Inl e | _ \<Rightarrow> Inl (Multiple errors))"

fun resolve_volumes ::
  "size_parser \<Rightarrow> string \<Rightarrow> (string \<times> raw_volume_def) list \<Rightarrow> config_error list \<Rightarrow>
   volume_def list \<times> config_error list" where
  "resolve_volumes psize path [] errors = ([], errors)"
| "resolve_volumes psize path ((vol_name, raw_vol) # vols) errors =
    (let vol_path = path @ ''.volume.'' @ vol_name;
         (sz, errors) = (case rv_size raw_vol of
            None \<Rightarrow> (None, errors)
          | Some s \<Rightarrow> (case parse_byte_size psize (vol_path @ ''.size'') s errors of (b, errors) \<Rightarrow> (Some b, errors)));
         errors = check_volume vol_path (rv_ephemeral raw_vol) sz errors;
         (rest, errors) = resolve_volumes psize path vols errors
     in (\<lparr> vd_name = vol_name, vd_path = rv_path raw_vol, vd_size = sz,
           vd_ephemeral = rv_ephemeral raw_vol \<rparr> # rest, errors))"

definition resolve_health ::
  "duration_parser \<Rightarrow> string \<Rightarrow> raw_health_check option \<Rightarrow> config_error list \<Rightarrow>
   health_check option \<times> config_error list" where
  "resolve_health pdur path health errors =
    (case health of
       None \<Rightarrow> (None, errors)
     | Some h \<Rightarrow>
        (let (interval, errors) = parse_duration pdur (path @ ''.health.interval'') (rh_interval h) errors;
             errors = check_health_path (path @ ''.health.path'') (rh_path h) errors
         in (Some \<lparr> h_path = rh_path h, h_interval = interval,
               h_failure_threshold = (case rh_failure_threshold h of Some t \<Rightarrow> t | None \<Rightarrow> 3) \<rparr>, errors)))"

definition resolve_routes :: "(string, raw_route_def) hash_map \<Rightarrow> route_def list" where
  "resolve_routes routes =
    map (\<lambda>(hostname, r). \<lparr> rd_hostname = hostname, rd_path = rr_path r, rd_websocket = rr_websocket r \<rparr>) routes"

definition resolve_service ::
  "size_parser \<Rightarrow> duration_parser \<Rightarrow> string \<Rightarrow> raw_service_def \<Rightarrow> (config_error, service_def) result" where
  "resolve_service psize pdur name raw =
    (let path = ''service.'' @ name;
         (memory, errors) = parse_byte_size psize (path @ ''.memory'') (rs_memory raw) [];
         errors = check_cpu (path @ ''.cpu'') (rs_cpu raw) errors;
         errors = check_port (path @ ''.port'') (rs_port raw) errors;
         (env, errors) = parse_env_map path (rs_env raw) errors;
         (health, errors) = resolve_health pdur path (rs_health raw) errors;
         (volumes, errors) = resolve_volumes psize path (rs_volume raw) errors
     in finish \<lparr>
          s_image = rs_image raw, s_port = rs_port raw, s_replicas = rs_replicas raw,
          s_resources = \<lparr> r_cpu = rs_cpu raw, r_memory = memory \<rparr>, s_env = env,
          s_command = rs_command raw, s_health = health, s_routes = resolve_routes (rs_route raw),
          s_volumes = volumes \<rparr> errors)"

definition resolve_task ::
  "size_parser \<Rightarrow> duration_parser \<Rightarrow> string \<Rightarrow> raw_task_def \<Rightarrow> (config_error, task_def) result" where
  "resolve_task psize pdur name raw =
    (let path = ''task.'' @ name;
         (memory, errors) = parse_byte_size psize (path @ ''.memory'') (rt_memory raw) [];
         (timeout, errors) = parse_duration pdur (path @ ''.timeout'') (rt_timeout raw) errors;
         errors = check_cpu (path @ ''.cpu'') (rt_cpu raw) errors;
         (env, errors) = parse_env_map path (rt_env raw) errors
     in finish \<lparr>
          t_image = rt_image raw, t_resources = \<lparr> r_cpu = rt_cpu raw, r_memory = memory \<rparr>,
          t_timeout = timeout, t_env = env, t_command = rt_command raw \<rparr> errors)"

fun resolve_all ::
  "(string \<Rightarrow> 'r \<Rightarrow> (config_error, 'd) result) \<Rightarrow> (string \<times> 'r) list \<Rightarrow> (string, 'd) hash_map \<Rightarrow>
   config_error list \<Rightarrow> (string, 'd) hash_map \<times> config_error list" where
  "resolve_all f [] acc errors = (acc, errors)"
| "resolve_all f ((name, raw) # rest) acc errors =
    (case f name raw of
       Inr d \<Rightarrow> resolve_all f rest (hm_insert name d acc) errors
     | Inl (Multiple errs) \<Rightarrow> resolve_all f rest acc (errors @ errs)
     | Inl e \<Rightarrow> resolve_all f rest acc (errors @ [e]))"

definition resolve_config ::
  "size_parser \<Rightarrow> duration_parser \<Rightarrow> raw_config \<Rightarrow> (config_error, cluster_config) result" where
  "resolve_config psize pdur raw =
    (let (services, errors) = resolve_all (resolve_service psize pdur) (rc_service raw) [] [];
         (tasks, errors) = resolve_all (resolve_task psize pdur) (rc_task raw) [] errors;
         errors = check_service_refs services tasks (hm_keys (rc_service raw)) errors
     in finish \<lparr> c_services = services, c_tasks = tasks \<rparr> errors)"

text \<open>The entry point: the HCL parser is a parameter.\<close>

definition parse_config ::
  "(string \<Rightarrow> (string, raw_config) result) \<Rightarrow> size_parser \<Rightarrow> duration_parser \<Rightarrow> string \<Rightarrow>
   (config_error, cluster_config) result" where
  "parse_config hcl psize pdur input =
    (case hcl input of Inl e \<Rightarrow> Inl (CParse e) | Inr raw \<Rightarrow> resolve_config psize pdur raw)"


section \<open>Which environment values are well formed\<close>

definition expr_ok :: "string \<Rightarrow> bool" where
  "expr_ok expr = (snd (parse_interpolation_expr [] expr [] []) = [])"

definition expr_part :: "string \<Rightarrow> env_part" where
  "expr_part expr = fst (parse_interpolation_expr [] expr [] [])"

inductive wf_value :: "string \<Rightarrow> bool" where
  wf_plain: "str_find s ''${'' = None \<Longrightarrow> wf_value s"
| wf_expr: "str_find lit ''${'' = None \<Longrightarrow> CHR ''}'' \<notin> set expr \<Longrightarrow> expr_ok expr \<Longrightarrow> wf_value rest \<Longrightarrow>
    wf_value (lit @ ''${'' @ expr @ ''}'' @ rest)"

lemma interpolation_part [simp]:
  "fst (parse_interpolation_expr path expr v errors) = expr_part expr"
  by (simp add: parse_interpolation_expr_def expr_part_def Let_def split: option.split)

lemma interpolation_errors [simp]:
  "snd (parse_interpolation_expr path expr v errors) = [] \<longleftrightarrow> errors = [] \<and> expr_ok expr"
  by (auto simp: parse_interpolation_expr_def expr_ok_def Let_def split: option.split)

lemma str_find_dollar:
  "str_find lit ''${'' = None \<Longrightarrow> str_find (lit @ ''${'' @ r) ''${'' = Some (length lit)"
proof (induction lit)
  case (Cons c lit)
  then have "\<not> starts_with (c # lit) ''${''" "str_find lit ''${'' = None"
    by (auto split: if_splits)
  moreover from this(1) have "\<not> starts_with (c # lit @ ''${'' @ r) ''${''"
    by (cases lit) (auto simp: starts_with_def)
  ultimately show ?case using Cons.IH by simp
qed (simp add: starts_with_def)

lemma str_find_brace:
  "CHR ''}'' \<notin> set e \<Longrightarrow> str_find (e @ ''}'' @ r) ''}'' = Some (length e)"
  by (induction e) (auto simp: starts_with_def)

lemma str_find_brace_Some: "str_find s ''}'' = Some i \<Longrightarrow> CHR ''}'' \<notin> set (take i s)"
proof (induction s arbitrary: i)
  case (Cons c s)
  then show ?case by (auto simp: starts_with_def split: if_splits)
qed simp

lemma str_find_dollar_Some: "str_find s ''${'' = Some i \<Longrightarrow> str_find (take i s) ''${'' = None"
proof (induction s arbitrary: i)
  case (Cons c s)
  show ?case
  proof (cases "starts_with (c # s) ''${''")
    case False
    with Cons.prems obtain j where j: "i = Suc j" "str_find s ''${'' = Some j" by auto
    have "\<not> starts_with (c # take j s) ''${''"
      using False by (cases j; cases s) (auto simp: starts_with_def)
    with Cons.IH [OF j(2)] j(1) show ?thesis by simp
  qed (use Cons.prems in auto)
qed simp

text \<open>The three steps of the loop.\<close>

lemma env_loop_plain:
  "str_find rest ''${'' = None \<Longrightarrow> env_loop path v rest parts errors =
    (if rest = [] then Inr parts else if parts = [] then Inl rest else Inr (parts @ [PLiteral rest]), errors)"
  by (subst env_loop.simps) simp

lemma env_loop_expr:
  assumes "str_find lit ''${'' = None" "CHR ''}'' \<notin> set expr"
  shows "env_loop path v (lit @ ''${'' @ expr @ ''}'' @ rest) parts errors =
    env_loop path v rest (parts @ (if lit = [] then [] else [PLiteral lit]) @ [expr_part expr])
      (snd (parse_interpolation_expr path expr v errors))"
  by (subst env_loop.simps)
     (use str_find_dollar [OF assms(1), of "expr @ ''}'' @ rest"] str_find_brace [OF assms(2), of rest] in
       \<open>simp add: case_prod_unfold\<close>)

lemma env_loop_unclosed:
  assumes "str_find rest ''${'' = Some start" "str_find (drop (start + 2) rest) ''}'' = None"
  shows "snd (env_loop path v rest parts errors) \<noteq> []"
  by (subst env_loop.simps) (use assms in \<open>simp add: Let_def\<close>)

lemma value_cases:
  obtains (plain) "str_find s ''${'' = None"
  | (expr) lit expr rest where "s = lit @ ''${'' @ expr @ ''}'' @ rest" "str_find lit ''${'' = None"
      "CHR ''}'' \<notin> set expr" "length rest < length s"
  | (unclosed) start where "str_find s ''${'' = Some start" "str_find (drop (start + 2) s) ''}'' = None"
proof (cases "str_find s ''${''")
  case (Some i)
  show thesis
  proof (cases "str_find (drop (i + 2) s) ''}''")
    case (Some j)
    let ?a = "drop (i + 2) s"
    have "s = take i s @ ''${'' @ ?a" using str_find_Some [OF \<open>str_find s ''${'' = Some i\<close>] by simp
    moreover have "?a = take j ?a @ ''}'' @ drop (j + 1) ?a" using str_find_Some [OF Some] by simp
    ultimately have eq: "s = take i s @ ''${'' @ take j ?a @ ''}'' @ drop (j + 1) ?a" by metis
    have "s \<noteq> []" using \<open>str_find s ''${'' = Some i\<close> by auto
    then have "length (drop (j + 1) ?a) < length s" by simp
    with eq show thesis
      using str_find_dollar_Some [OF \<open>str_find s ''${'' = Some i\<close>] str_find_brace_Some [OF Some]
      by (intro expr)
  qed (use Some unclosed in blast)
qed (use plain in blast)


lemma env_loop_wf: "wf_value s \<Longrightarrow> snd (env_loop path v s parts []) = []"
proof (induction arbitrary: parts rule: wf_value.induct)
  case (wf_expr lit expr rest)
  have "snd (parse_interpolation_expr path expr v []) = []" using wf_expr(3) by simp
  then show ?case using wf_expr(5) by (simp only: env_loop_expr [OF wf_expr(1,2)])
qed (simp add: env_loop_plain)

lemma env_loop_no_errors:
  "snd (env_loop path v s parts errors) = [] \<Longrightarrow> errors = [] \<and> wf_value s"
proof (induction "length s" arbitrary: s parts errors rule: less_induct)
  case less
  show ?case
  proof (cases s rule: value_cases)
    case plain
    then show ?thesis using less.prems by (auto simp: env_loop_plain intro: wf_plain)
  next
    case (expr lit expr rest)
    have "snd (parse_interpolation_expr path expr v errors) = [] \<and> wf_value rest"
      using less.hyps [OF expr(4)] less.prems unfolding expr(1) env_loop_expr [OF expr(2,3)] by blast
    with expr show ?thesis by (auto intro!: wf_value.intros(2) simp del: append.simps)
  next
    case (unclosed start)
    then show ?thesis using env_loop_unclosed less.prems by blast
  qed
qed

lemma parse_env_value_errors:
  "snd (parse_env_value path v errors) = [] \<longleftrightarrow> errors = [] \<and> wf_value v"
  using env_loop_wf [of v path v "[]"] env_loop_no_errors [of path v v "[]" errors]
  by (auto simp: parse_env_value_def case_prod_unfold split: sum.splits)

lemma parse_env_loop_errors:
  "snd (parse_env_loop p raw res errors) = [] \<longleftrightarrow> errors = [] \<and> (\<forall>(k, v) \<in> set raw. wf_value v)"
  by (induction p raw res errors rule: parse_env_loop.induct)
     (auto simp: case_prod_unfold parse_env_value_errors)

section \<open>Printing\<close>

fun show_part :: "env_part \<Rightarrow> string" where
  "show_part (PLiteral s) = s"
| "show_part (ServiceAddress n) = ''${service.'' @ n @ ''.address}''"
| "show_part (Secret n) = ''${secret('' @ n @ '')}''"

definition show_parts :: "env_part list \<Rightarrow> string" where
  "show_parts ps = concat (map show_part ps)"

fun normal_parts :: "env_part list \<Rightarrow> bool" where
  "normal_parts [] = True"
| "normal_parts (PLiteral s # ps) =
    (s \<noteq> [] \<and> str_find s ''${'' = None \<and> (case ps of PLiteral _ # _ \<Rightarrow> False | _ \<Rightarrow> True) \<and> normal_parts ps)"
| "normal_parts (ServiceAddress n # ps) = (n \<noteq> [] \<and> CHR ''}'' \<notin> set n \<and> normal_parts ps)"
| "normal_parts (Secret n # ps) =
    (n \<noteq> [] \<and> CHR ''}'' \<notin> set n \<and> str_trim n = n \<and> normal_parts ps)"

lemma expr_secret:
  assumes "n \<noteq> []" "str_trim n = n"
  shows "parse_interpolation_expr path (''secret('' @ n @ '')'') v errors = (Secret n, errors)"
proof -
  have "strip_prefix (''secret('' @ n @ '')'') ''secret('' = Some (n @ '')'')"
    "strip_suffix (n @ '')'') '')'' = Some n"
    by (simp_all only: strip_prefix_eq_Some strip_suffix_eq_Some)
  then show ?thesis using assms by (simp only: parse_interpolation_expr_def) simp
qed

lemma expr_service:
  assumes "n \<noteq> []"
  shows "parse_interpolation_expr path (''service.'' @ n @ ''.address'') v errors = (ServiceAddress n, errors)"
proof -
  have "strip_prefix (''service.'' @ n @ ''.address'') ''secret('' = None"
    by (simp add: strip_prefix_def starts_with_def)
  moreover have "strip_prefix (''service.'' @ n @ ''.address'') ''service.'' = Some (n @ ''.address'')"
    "strip_suffix (n @ ''.address'') ''.address'' = Some n"
    by (simp_all only: strip_prefix_eq_Some strip_suffix_eq_Some)
  ultimately show ?thesis using assms by (simp only: parse_interpolation_expr_def) simp
qed

fun is_literal :: "env_part \<Rightarrow> bool" where
  "is_literal (PLiteral _) = True"
| "is_literal _ = False"

lemma env_loop_part:
  assumes "str_find lit ''${'' = None" "CHR ''}'' \<notin> set e"
    and parse: "\<And>path v errors. parse_interpolation_expr path e v errors = (p, errors)"
    and printed: "show_part p = ''${'' @ e @ ''}''"
  shows "env_loop path v (lit @ show_parts (p # ps)) acc errors
    = env_loop path v (show_parts ps) (acc @ (if lit = [] then [] else [PLiteral lit]) @ [p]) errors"
proof -
  have "lit @ show_parts (p # ps) = lit @ ''${'' @ e @ ''}'' @ show_parts ps"
    by (simp add: show_parts_def printed)
  moreover have "expr_part e = p" by (simp add: expr_part_def parse)
  ultimately show ?thesis by (simp only: env_loop_expr [OF assms(1,2)] parse snd_conv)
qed

lemma env_loop_show_expr:
  assumes "\<not> is_literal p" "normal_parts (p # ps)" "str_find lit ''${'' = None"
  shows "env_loop path v (lit @ show_parts (p # ps)) acc errors
    = env_loop path v (show_parts ps) (acc @ (if lit = [] then [] else [PLiteral lit]) @ [p]) errors"
proof (cases p)
  case (ServiceAddress n)
  show ?thesis unfolding ServiceAddress
    by (rule env_loop_part [OF assms(3) _ expr_service]) (use assms(2) ServiceAddress in simp_all)
next
  case (Secret n)
  show ?thesis unfolding Secret
    by (rule env_loop_part [OF assms(3) _ expr_secret]) (use assms(2) Secret in simp_all)
qed (use assms in simp)

lemma env_loop_show:
  assumes "normal_parts ps" "acc \<noteq> [] \<or> (\<exists>p \<in> set ps. \<not> is_literal p)"
  shows "env_loop path v (show_parts ps) acc errors = (Inr (acc @ ps), errors)"
  using assms
proof (induction "length ps" arbitrary: ps acc rule: less_induct)
  case less
  show ?case
  proof (cases ps)
    case Nil
    then show ?thesis by (simp add: show_parts_def env_loop_plain)
  next
    case (Cons p ps1)
    show ?thesis
    proof (cases "is_literal p")
      case False
      then have "env_loop path v (show_parts ps) acc errors = env_loop path v (show_parts ps1) (acc @ [p]) errors"
        using env_loop_show_expr [of p ps1 "[]"] less.prems(1) Cons by simp
      also have "\<dots> = (Inr ((acc @ [p]) @ ps1), errors)"
        by (rule less.hyps) (use less.prems(1) Cons False in \<open>cases p; simp\<close>)+
      finally show ?thesis using Cons by simp
    next
      case True
      then obtain s where p: "p = PLiteral s" by (cases p) auto
      show ?thesis
      proof (cases ps1)
        case Nil
        then show ?thesis using less.prems p Cons by (simp add: show_parts_def env_loop_plain)
      next
        case (Cons q ps2)
        have q: "\<not> is_literal q" "normal_parts (q # ps2)" "s \<noteq> []" "str_find s ''${'' = None"
          using less.prems(1) p Cons \<open>ps = p # ps1\<close> by (cases q; simp)+
        have "env_loop path v (show_parts ps) acc errors
            = env_loop path v (show_parts ps2) (acc @ [PLiteral s, q]) errors"
          using env_loop_show_expr [OF q(1,2,4)] p Cons \<open>ps = p # ps1\<close> q(3) by (simp add: show_parts_def)
        also have "\<dots> = (Inr ((acc @ [PLiteral s, q]) @ ps2), errors)"
          by (rule less.hyps) (use q Cons \<open>ps = p # ps1\<close> in \<open>cases q; simp\<close>)+
        finally show ?thesis using p Cons \<open>ps = p # ps1\<close> by simp
      qed
    qed
  qed
qed

section \<open>The value does not depend on where the errors go\<close>

definition env_value_of :: "string \<Rightarrow> env_value" where
  "env_value_of v = fst (parse_env_value [] v [])"

lemma env_loop_unclosed_fst:
  assumes "str_find s ''${'' = Some start" "str_find (drop (start + 2) s) ''}'' = None"
  shows "fst (env_loop path v s parts errors) = fst (env_loop path' v' s parts errors')"
  by (subst (1 2) env_loop.simps) (use assms in \<open>simp add: Let_def\<close>)

lemma env_loop_fst: "fst (env_loop path v s parts errors) = fst (env_loop path' v' s parts errors')"
proof (induction "length s" arbitrary: s parts errors errors' rule: less_induct)
  case less
  show ?case
  proof (cases s rule: value_cases)
    case plain
    then show ?thesis by (simp add: env_loop_plain)
  next
    case (expr lit expr rest)
    show ?thesis
      unfolding expr(1) env_loop_expr [OF expr(2,3)] using expr(4) by (intro less.hyps) simp
  next
    case (unclosed start)
    then show ?thesis by (rule env_loop_unclosed_fst)
  qed
qed

lemma parse_env_value_fst [simp]: "fst (parse_env_value path v errors) = env_value_of v"
  using env_loop_fst [of path v v "[]" errors "[]" v "[]"]
  by (auto simp: parse_env_value_def env_value_of_def case_prod_unfold split: sum.splits)

lemma parse_env_loop_Cons:
  "parse_env_loop p ((k, v) # raw) res errors =
    parse_env_loop p raw (hm_insert k (env_value_of v) res) (snd (parse_env_value (p @ ''.env.'' @ k) v errors))"
  by (simp only: parse_env_loop.simps case_prod_unfold parse_env_value_fst)

lemma parse_env_loop_get:
  "hm_wf raw \<Longrightarrow> hm_get (fst (parse_env_loop p raw res errors)) k
    = (case hm_get raw k of Some v \<Rightarrow> Some (env_value_of v) | None \<Rightarrow> hm_get res k)"
proof (induction raw arbitrary: res errors)
  case (Cons kv raw)
  obtain key v where kv: "kv = (key, v)" by force
  have "k = key \<Longrightarrow> hm_get raw k = None" using Cons.prems kv by (simp add: map_of_eq_None_iff)
  then show ?case using Cons unfolding kv parse_env_loop_Cons by (auto split: option.splits)
qed simp

lemma parse_env_loop_wf: "hm_wf res \<Longrightarrow> hm_wf (fst (parse_env_loop p raw res errors))"
proof (induction raw arbitrary: res errors)
  case (Cons kv raw)
  obtain key v where kv: "kv = (key, v)" by force
  show ?case unfolding kv parse_env_loop_Cons by (intro Cons.IH distinct_update Cons.prems)
qed simp

lemma parse_env_map_set:
  assumes "hm_wf raw"
  shows "set (fst (parse_env_map p raw errors)) = (\<lambda>(k, v). (k, env_value_of v)) ` set raw"
proof -
  let ?m = "fst (parse_env_map p raw errors)"
  have "hm_wf ?m" by (simp add: parse_env_map_def parse_env_loop_wf)
  then have "(k, v) \<in> set ?m \<longleftrightarrow> hm_get ?m k = Some v" for k v by (simp add: map_of_eq_Some_iff)
  moreover have "hm_get ?m k = map_option env_value_of (hm_get raw k)" for k
    using parse_env_loop_get [OF assms] by (simp add: parse_env_map_def split: option.split)
  moreover have "hm_get raw k = Some w \<longleftrightarrow> (k, w) \<in> set raw" for k w
    using assms by (simp add: map_of_eq_Some_iff)
  ultimately have "(k, v) \<in> set ?m \<longleftrightarrow> (k, v) \<in> (\<lambda>(k, v). (k, env_value_of v)) ` set raw" for k v
    by (force simp: image_iff)
  then show ?thesis by auto
qed

section \<open>Which configurations are accepted\<close>

fun service_refs :: "env_value \<Rightarrow> string set" where
  "service_refs (ELiteral _) = {}"
| "service_refs (Interpolated parts) = {s. ServiceAddress s \<in> set parts}"

definition valid_env :: "string list \<Rightarrow> (string, string) hash_map \<Rightarrow> bool" where
  "valid_env defined env \<longleftrightarrow>
    (\<forall>(k, v) \<in> set env. wf_value v \<and> service_refs (env_value_of v) \<subseteq> set defined)"

definition valid_health :: "duration_parser \<Rightarrow> raw_health_check option \<Rightarrow> bool" where
  "valid_health pdur h \<longleftrightarrow>
    (case h of None \<Rightarrow> True | Some h \<Rightarrow> is_ok (pdur (rh_interval h)) \<and> starts_with (rh_path h) ''/'')"

definition valid_volume :: "size_parser \<Rightarrow> raw_volume_def \<Rightarrow> bool" where
  "valid_volume psize v \<longleftrightarrow> (case rv_size v of None \<Rightarrow> rv_ephemeral v | Some s \<Rightarrow> is_ok (psize s))"

definition valid_service :: "size_parser \<Rightarrow> duration_parser \<Rightarrow> string list \<Rightarrow> raw_service_def \<Rightarrow> bool" where
  "valid_service psize pdur defined raw \<longleftrightarrow>
     is_ok (psize (rs_memory raw)) \<and> \<not> f64_le (rs_cpu raw) (Fin 0) \<and> rs_port raw \<noteq> 0 \<and>
     valid_env defined (rs_env raw) \<and> valid_health pdur (rs_health raw) \<and>
     (\<forall>(k, v) \<in> set (rs_volume raw). valid_volume psize v)"

definition valid_task :: "size_parser \<Rightarrow> duration_parser \<Rightarrow> string list \<Rightarrow> raw_task_def \<Rightarrow> bool" where
  "valid_task psize pdur defined raw \<longleftrightarrow>
     is_ok (psize (rt_memory raw)) \<and> is_ok (pdur (rt_timeout raw)) \<and> \<not> f64_le (rt_cpu raw) (Fin 0) \<and>
     valid_env defined (rt_env raw)"

definition valid_raw :: "size_parser \<Rightarrow> duration_parser \<Rightarrow> raw_config \<Rightarrow> bool" where
  "valid_raw psize pdur raw \<longleftrightarrow>
     (\<forall>(n, s) \<in> set (rc_service raw). valid_service psize pdur (hm_keys (rc_service raw)) s) \<and>
     (\<forall>(n, t) \<in> set (rc_task raw). valid_task psize pdur (hm_keys (rc_service raw)) t)"

definition raw_wf :: "raw_config \<Rightarrow> bool" where
  "raw_wf raw \<longleftrightarrow> hm_wf (rc_service raw) \<and> hm_wf (rc_task raw) \<and>
     (\<forall>(n, s) \<in> set (rc_service raw). hm_wf (rs_env s)) \<and> (\<forall>(n, t) \<in> set (rc_task raw). hm_wf (rt_env t))"

lemma finish_Ok [simp]: "finish x es = Inr y \<longleftrightarrow> es = [] \<and> y = x"
  by (auto simp: finish_def split: list.split)

lemma finish_is_ok [simp]: "is_ok (finish x es) \<longleftrightarrow> es = []"
  by (auto simp: is_ok_iff)

lemma parse_byte_size_errors [simp]:
  "snd (parse_byte_size psize path v errors) = [] \<longleftrightarrow> errors = [] \<and> is_ok (psize v)"
  by (auto simp: parse_byte_size_def split: sum.split)

lemma parse_duration_errors [simp]:
  "snd (parse_duration pdur path v errors) = [] \<longleftrightarrow> errors = [] \<and> is_ok (pdur v)"
  by (auto simp: parse_duration_def split: sum.split)

lemma check_errors [simp]:
  "check_cpu path cpu errors = [] \<longleftrightarrow> errors = [] \<and> \<not> f64_le cpu (Fin 0)"
  "check_port path port errors = [] \<longleftrightarrow> errors = [] \<and> port \<noteq> 0"
  "check_health_path path hp errors = [] \<longleftrightarrow> errors = [] \<and> starts_with hp ''/''"
  "check_volume path eph sz errors = [] \<longleftrightarrow> errors = [] \<and> (eph \<or> sz \<noteq> None)"
  by (auto simp: check_cpu_def check_port_def check_health_path_def check_volume_def)

lemma resolve_health_errors [simp]:
  "snd (resolve_health pdur path h errors) = [] \<longleftrightarrow> errors = [] \<and> valid_health pdur h"
  by (auto simp: resolve_health_def valid_health_def case_prod_unfold Let_def split: option.split)

lemma resolve_volumes_errors [simp]:
  "snd (resolve_volumes psize path vols errors) = [] \<longleftrightarrow>
    errors = [] \<and> (\<forall>(k, v) \<in> set vols. valid_volume psize v)"
  by (induction psize path vols errors rule: resolve_volumes.induct)
     (auto simp: valid_volume_def case_prod_unfold Let_def split: option.splits)

lemma parse_env_map_errors [simp]:
  "snd (parse_env_map p raw errors) = [] \<longleftrightarrow> errors = [] \<and> (\<forall>(k, v) \<in> set raw. wf_value v)"
  by (simp add: parse_env_map_def parse_env_loop_errors)

lemma resolve_service_ok:
  "is_ok (resolve_service psize pdur name raw) \<longleftrightarrow>
     is_ok (psize (rs_memory raw)) \<and> \<not> f64_le (rs_cpu raw) (Fin 0) \<and> rs_port raw \<noteq> 0 \<and>
     (\<forall>(k, v) \<in> set (rs_env raw). wf_value v) \<and> valid_health pdur (rs_health raw) \<and>
     (\<forall>(k, v) \<in> set (rs_volume raw). valid_volume psize v)"
  by (simp add: resolve_service_def case_prod_unfold Let_def)

lemma resolve_task_ok:
  "is_ok (resolve_task psize pdur name raw) \<longleftrightarrow>
     is_ok (psize (rt_memory raw)) \<and> is_ok (pdur (rt_timeout raw)) \<and> \<not> f64_le (rt_cpu raw) (Fin 0) \<and>
     (\<forall>(k, v) \<in> set (rt_env raw). wf_value v)"
  by (simp add: resolve_task_def case_prod_unfold Let_def)

lemma part_refs_errors:
  "part_refs path defined parts errors = [] \<longleftrightarrow>
    errors = [] \<and> service_refs (Interpolated parts) \<subseteq> set defined"
  by (induction path defined parts errors rule: part_refs.induct) auto

lemma check_env_refs_errors:
  "check_env_refs p env defined errors = [] \<longleftrightarrow>
    errors = [] \<and> (\<forall>(k, v) \<in> set env. service_refs v \<subseteq> set defined)"
  by (induction p env defined errors rule: check_env_refs.induct) (auto simp: part_refs_errors)

lemma fold_errors:
  assumes "\<And>n x errors. f n x errors = [] \<longleftrightarrow> errors = [] \<and> P x"
  shows "fold (\<lambda>(n, x) errors. f n x errors) xs errors = [] \<longleftrightarrow> errors = [] \<and> (\<forall>(n, x) \<in> set xs. P x)"
  by (induction xs arbitrary: errors) (auto simp: assms)

lemma check_service_refs_errors:
  "check_service_refs services tasks defined errors = [] \<longleftrightarrow> errors = [] \<and>
    (\<forall>(n, s) \<in> set services. \<forall>(k, v) \<in> set (s_env s). service_refs v \<subseteq> set defined) \<and>
    (\<forall>(n, t) \<in> set tasks. \<forall>(k, v) \<in> set (t_env t). service_refs v \<subseteq> set defined)"
proof -
  have "fold (\<lambda>(n, s) errors. check_env_refs (''service.'' @ n) (s_env s) defined errors) services errors = []
      \<longleftrightarrow> errors = [] \<and> (\<forall>(n, s) \<in> set services. \<forall>(k, v) \<in> set (s_env s). service_refs v \<subseteq> set defined)"
    by (rule fold_errors) (simp add: check_env_refs_errors)
  moreover have "fold (\<lambda>(n, t) errors. check_env_refs (''task.'' @ n) (t_env t) defined errors) tasks es = []
      \<longleftrightarrow> es = [] \<and> (\<forall>(n, t) \<in> set tasks. \<forall>(k, v) \<in> set (t_env t). service_refs v \<subseteq> set defined)" for es
    by (rule fold_errors) (simp add: check_env_refs_errors)
  ultimately show ?thesis by (auto simp: check_service_refs_def)
qed

lemma resolve_all_errors:
  assumes "\<And>n r es. f n r = Inl (Multiple es) \<Longrightarrow> es \<noteq> []"
  shows "snd (resolve_all f raws acc errors) = [] \<longleftrightarrow> errors = [] \<and> (\<forall>(n, r) \<in> set raws. is_ok (f n r))"
proof (induction raws arbitrary: acc errors)
  case (Cons nr raws)
  then show ?case by (cases nr) (use assms in \<open>auto split: sum.splits config_error.splits\<close>)
qed simp

lemma resolve_all_get:
  assumes "hm_wf raws" "\<forall>(n, r) \<in> set raws. is_ok (f n r)"
  shows "hm_get (fst (resolve_all f raws acc errors)) k
    = (case hm_get raws k of Some r \<Rightarrow> Some (projr (f k r)) | None \<Rightarrow> hm_get acc k)"
  using assms
proof (induction raws arbitrary: acc errors)
  case (Cons nr raws)
  obtain name raw where nr: "nr = (name, raw)" by force
  obtain d where d: "f name raw = Inr d" using Cons.prems(2) nr by (auto simp: is_ok_iff)
  have "k = name \<Longrightarrow> hm_get raws k = None" using Cons.prems(1) nr by (simp add: map_of_eq_None_iff)
  with Cons d show ?case by (auto simp: nr split: option.splits)
qed simp

lemma resolve_all_wf: "hm_wf acc \<Longrightarrow> hm_wf (fst (resolve_all f raws acc errors))"
proof (induction raws arbitrary: acc errors)
  case (Cons nr raws)
  then show ?case
    by (cases nr) (auto split: sum.split config_error.split intro!: Cons.IH distinct_update)
qed simp

fun is_plain :: "config_error \<Rightarrow> bool" where
  "is_plain (Multiple _) = False"
| "is_plain _ = True"

named_theorems plain \<open>error lists without nested lists\<close>

lemma plain_checks [plain]:
  "list_all is_plain errors \<Longrightarrow> list_all is_plain (check_cpu path cpu errors)"
  "list_all is_plain errors \<Longrightarrow> list_all is_plain (check_port path port errors)"
  "list_all is_plain errors \<Longrightarrow> list_all is_plain (check_health_path path hp errors)"
  "list_all is_plain errors \<Longrightarrow> list_all is_plain (check_volume path eph sz errors)"
  "list_all is_plain errors \<Longrightarrow> list_all is_plain (snd (parse_byte_size psize path v errors))"
  "list_all is_plain errors \<Longrightarrow> list_all is_plain (snd (parse_duration pdur path v errors))"
  "list_all is_plain errors \<Longrightarrow> list_all is_plain (snd (parse_interpolation_expr path e v errors))"
  by (simp_all add: check_cpu_def check_port_def check_health_path_def check_volume_def
      parse_byte_size_def parse_duration_def parse_interpolation_expr_def Let_def
      split: sum.split option.split)

lemma plain_env_loop [plain]:
  "list_all is_plain errors \<Longrightarrow> list_all is_plain (snd (env_loop path v s parts errors))"
proof (induction "length s" arbitrary: s parts errors rule: less_induct)
  case less
  show ?case
  proof (cases s rule: value_cases)
    case plain
    then show ?thesis using less.prems by (simp add: env_loop_plain)
  next
    case (expr lit expr rest)
    show ?thesis
      unfolding expr(1) env_loop_expr [OF expr(2,3)]
      by (rule less.hyps [OF expr(4)]) (rule plain_checks(7) [OF less.prems])
  next
    case (unclosed start)
    then show ?thesis using less.prems by (subst env_loop.simps) (simp add: Let_def)
  qed
qed

lemma plain_env_map [plain]:
  "list_all is_plain errors \<Longrightarrow> list_all is_plain (snd (parse_env_map p raw errors))"
proof -
  have "list_all is_plain errors \<Longrightarrow> list_all is_plain (snd (parse_env_value path v errors))" for path v errors
    using plain_env_loop [of errors path v v "[]"]
    by (simp add: parse_env_value_def case_prod_unfold split: sum.split)
  then have "list_all is_plain errors \<Longrightarrow> list_all is_plain (snd (parse_env_loop p raw res errors))" for res errors
  proof (induction raw arbitrary: res errors)
    case (Cons kv raw)
    then show ?case by (cases kv) (simp only: parse_env_loop_Cons)
  qed simp
  then show "list_all is_plain errors \<Longrightarrow> ?thesis" by (simp add: parse_env_map_def)
qed

lemma plain_health [plain]:
  "list_all is_plain errors \<Longrightarrow> list_all is_plain (snd (resolve_health pdur path h errors))"
  by (simp add: resolve_health_def case_prod_unfold Let_def plain split: option.split)

lemma plain_volumes [plain]:
  "list_all is_plain errors \<Longrightarrow> list_all is_plain (snd (resolve_volumes psize path vols errors))"
proof (induction vols arbitrary: errors)
  case (Cons v vols)
  then show ?case
    by (cases v) (simp add: case_prod_unfold Let_def plain_checks split: option.split)
qed simp

lemma finish_Multiple: "finish x es = Inl (Multiple ms) \<Longrightarrow> list_all is_plain es \<Longrightarrow> ms \<noteq> []"
  by (auto simp: finish_def split: list.splits)

lemma resolve_Multiple:
  "resolve_service psize pdur name raw = Inl (Multiple es) \<Longrightarrow> es \<noteq> []"
  "resolve_task psize pdur name rawt = Inl (Multiple es) \<Longrightarrow> es \<noteq> []"
  unfolding resolve_service_def resolve_task_def case_prod_unfold Let_def
  by (erule finish_Multiple, simp add: plain)+

lemma resolved_service:
  assumes "resolve_service psize pdur name raw = Inr svc" "hm_wf (rs_env raw)"
  shows "set (s_env svc) = (\<lambda>(k, v). (k, env_value_of v)) ` set (rs_env raw)"
    and "s_image svc = rs_image raw" "s_port svc = rs_port raw" "s_replicas svc = rs_replicas raw"
    and "r_cpu (s_resources svc) = rs_cpu raw" "psize (rs_memory raw) = Inr (r_memory (s_resources svc))"
proof -
  have "is_ok (psize (rs_memory raw))"
    using resolve_service_ok [of psize pdur name raw] assms(1) by simp
  then obtain b where b: "psize (rs_memory raw) = Inr b" by (auto simp: is_ok_iff)
  then show "set (s_env svc) = (\<lambda>(k, v). (k, env_value_of v)) ` set (rs_env raw)"
    "s_image svc = rs_image raw" "s_port svc = rs_port raw" "s_replicas svc = rs_replicas raw"
    "r_cpu (s_resources svc) = rs_cpu raw" "psize (rs_memory raw) = Inr (r_memory (s_resources svc))"
    using assms parse_env_map_set [OF assms(2)]
    by (simp_all add: resolve_service_def case_prod_unfold Let_def parse_byte_size_def [of psize _ "rs_memory raw"])
qed

lemma resolved_task_env:
  assumes "resolve_task psize pdur name raw = Inr t" "hm_wf (rt_env raw)"
  shows "set (t_env t) = (\<lambda>(k, v). (k, env_value_of v)) ` set (rt_env raw)"
  using assms parse_env_map_set [OF assms(2)] by (simp add: resolve_task_def case_prod_unfold Let_def)

lemma resolve_all_set:
  assumes "hm_wf raws" "\<forall>(n, r) \<in> set raws. is_ok (f n r)"
  shows "set (fst (resolve_all f raws [] errors)) = (\<lambda>(n, r). (n, projr (f n r))) ` set raws"
proof -
  let ?m = "fst (resolve_all f raws [] errors)"
  have wf: "hm_wf ?m" by (simp add: resolve_all_wf)
  have "(k, v) \<in> set ?m \<longleftrightarrow> (\<exists>r. (k, r) \<in> set raws \<and> v = projr (f k r))" for k v
    unfolding hm_set_get [OF wf] hm_set_get [OF assms(1)]
    using resolve_all_get [OF assms, of "[]" errors k] by (cases "hm_get raws k") auto
  then show ?thesis by (auto simp: image_iff Bex_def split_paired_Ex)
qed

lemma resolve_services_errors:
  "snd (resolve_all (resolve_service psize pdur) S acc errors) = [] \<longleftrightarrow>
    errors = [] \<and> (\<forall>(n, r) \<in> set S. is_ok (resolve_service psize pdur n r))"
  by (rule resolve_all_errors) (rule resolve_Multiple(1))

lemma resolve_tasks_errors:
  "snd (resolve_all (resolve_task psize pdur) T acc errors) = [] \<longleftrightarrow>
    errors = [] \<and> (\<forall>(n, r) \<in> set T. is_ok (resolve_task psize pdur n r))"
  by (rule resolve_all_errors) (rule resolve_Multiple(2))

lemma service_valid:
  assumes "hm_wf (rs_env r)"
  shows "valid_service psize pdur D r \<longleftrightarrow> is_ok (resolve_service psize pdur n r) \<and>
    (\<forall>(k, v) \<in> set (s_env (projr (resolve_service psize pdur n r))). service_refs v \<subseteq> set D)"
proof (cases "resolve_service psize pdur n r")
  case (Inl e)
  then have "\<not> is_ok (resolve_service psize pdur n r)" by simp
  then show ?thesis unfolding resolve_service_ok valid_service_def valid_env_def by fastforce
next
  case (Inr svc)
  then have "is_ok (resolve_service psize pdur n r)" by simp
  moreover from this have "valid_service psize pdur D r \<longleftrightarrow>
      (\<forall>(k, v) \<in> set (rs_env r). service_refs (env_value_of v) \<subseteq> set D)"
    unfolding resolve_service_ok valid_service_def valid_env_def by fastforce
  moreover have "(\<forall>(k, v) \<in> set (rs_env r). service_refs (env_value_of v) \<subseteq> set D) \<longleftrightarrow>
      (\<forall>(k, v) \<in> set (s_env svc). service_refs v \<subseteq> set D)"
    unfolding resolved_service(1) [OF Inr assms] by auto
  ultimately show ?thesis by (simp add: Inr)
qed

lemma task_valid:
  assumes "hm_wf (rt_env r)"
  shows "valid_task psize pdur D r \<longleftrightarrow> is_ok (resolve_task psize pdur n r) \<and>
    (\<forall>(k, v) \<in> set (t_env (projr (resolve_task psize pdur n r))). service_refs v \<subseteq> set D)"
proof (cases "resolve_task psize pdur n r")
  case (Inl e)
  then have "\<not> is_ok (resolve_task psize pdur n r)" by simp
  then show ?thesis unfolding resolve_task_ok valid_task_def valid_env_def by fastforce
next
  case (Inr t)
  then have "is_ok (resolve_task psize pdur n r)" by simp
  moreover from this have "valid_task psize pdur D r \<longleftrightarrow>
      (\<forall>(k, v) \<in> set (rt_env r). service_refs (env_value_of v) \<subseteq> set D)"
    unfolding resolve_task_ok valid_task_def valid_env_def by fastforce
  moreover have "(\<forall>(k, v) \<in> set (rt_env r). service_refs (env_value_of v) \<subseteq> set D) \<longleftrightarrow>
      (\<forall>(k, v) \<in> set (t_env t). service_refs v \<subseteq> set D)"
    unfolding resolved_task_env [OF Inr assms] by auto
  ultimately show ?thesis by (simp add: Inr)
qed

section \<open>Properties\<close>



definition raw1 :: raw_config where
  "raw1 = \<lparr> rc_service = [(''web'', \<lparr> rs_image = ''nginx'', rs_port = 80, rs_replicas = 2, rs_cpu = Fin (1 / 2),
       rs_memory = ''256M'', rs_env = [(''DB'', ''${service.web.address}'')],
       rs_health = Some \<lparr> rh_path = ''/ok'', rh_interval = ''10s'', rh_failure_threshold = None \<rparr>,
       rs_route = [], rs_volume = [(''data'', \<lparr> rv_path = ''/data'', rv_size = Some ''1G'', rv_ephemeral = False \<rparr>)],
       rs_command = None \<rparr>)],
     rc_task = [] \<rparr>"

lemma web_ref:
  "env_loop path v ''${service.web.address}'' [] errors = (Inr [ServiceAddress ''web''], errors)"
  using env_loop_show [of "[ServiceAddress ''web'']" "[]" path v errors]
  by (simp add: show_parts_def)


text \<open>
  Printing and parsing environment values are inverse: a list of parts in normal form, that
  is without empty or adjacent literals and without markers in them, with names that are not
  empty and hold no closing brace, is read back from its printed form, without an error.
\<close>

theorem env_value_roundtrip:
  assumes "normal_parts ps" "\<exists>p \<in> set ps. \<not> is_literal p"
  shows "parse_env_value path (show_parts ps) errors = (Interpolated ps, errors)"
  using env_loop_show [of ps "[]" path "show_parts ps" errors] assms
  by (auto simp: parse_env_value_def)

theorem env_value_roundtrip_witness:
  "parse_env_value ''service.web.env.URL''
     (show_parts [PLiteral ''http://'', ServiceAddress ''api'', PLiteral ''/?k='', Secret ''key'']) []
   = (Interpolated [PLiteral ''http://'', ServiceAddress ''api'', PLiteral ''/?k='', Secret ''key''], [])"
  by (rule env_value_roundtrip)
     (simp_all add: starts_with_def str_trim_def trim_start.simps)

end
