(* ===== verification/Rpc.thy ===== *)
theory Rpc
  imports Types Strings
begin

unbundle bit_operations_syntax

text \<open>
  The connection between the primary and the secondaries, \<^verbatim>\<open>crates/node/src/rpc\<close>:
  the messages (\<^verbatim>\<open>protocol.rs\<close>), the frames on the wire (\<^verbatim>\<open>codec.rs\<close>),
  the table of routes, the handshake and the reconnection of the primary
  (\<^verbatim>\<open>router.rs\<close>) and the handshake of the secondary (\<^verbatim>\<open>server.rs\<close>),
  with the errors of the node (\<^verbatim>\<open>error.rs\<close>, \<^verbatim>\<open>storage/mod.rs\<close>).
  A byte stream is the list of its bytes, serde\_json is a parameter. A sequence of frames is
  read back as it was written, and a handshake succeeds exactly when the tokens agree.
\<close>

section \<open>Errors\<close>

text \<open>
  Errors that wrap an error of another crate carry its message.
\<close>

datatype node_error =
    NContainerd string
  | NNet string
  | NRaft string
  | NBind string
  | PortExhaustion
  | AllocNotFound string
  | ServiceNotFound string
  | NotATask string
  | RaftRejected string
  | BadRequest string
  | AllocAlreadyExists string
  | NodeUnreachable string
  | NIo string
  | NInternal string
  | ChannelClosed
  | DeployFailed string string

fun show_node_error :: "node_error \<Rightarrow> string" where
  "show_node_error (NContainerd m) = m"
| "show_node_error (NNet m) = m"
| "show_node_error (NRaft m) = m"
| "show_node_error (NBind address) = ''failed to bind '' @ address"
| "show_node_error PortExhaustion = ''no ports available''"
| "show_node_error (AllocNotFound m) = ''allocation not found: '' @ m"
| "show_node_error (ServiceNotFound m) = ''service not found: '' @ m"
| "show_node_error (NotATask alloc_id) = ''allocation '' @ alloc_id @ '' is not a task''"
| "show_node_error (RaftRejected m) = ''raft rejected: '' @ m"
| "show_node_error (BadRequest m) = ''bad request: '' @ m"
| "show_node_error (AllocAlreadyExists m) = ''allocation already exists: '' @ m"
| "show_node_error (NodeUnreachable m) = ''node unreachable: '' @ m"
| "show_node_error (NIo m) = ''i/o error: '' @ m"
| "show_node_error (NInternal m) = ''internal error: '' @ m"
| "show_node_error ChannelClosed = ''channel closed''"
| "show_node_error (DeployFailed service reason) = ''deploy failed for '' @ service @ '': '' @ reason"

datatype storage_error =
    SNotFound string
  | SAlreadyExists string
  | SAttached string
  | SApi string
  | SHttp string

fun show_storage_error :: "storage_error \<Rightarrow> string" where
  "show_storage_error (SNotFound m) = ''volume not found: '' @ m"
| "show_storage_error (SAlreadyExists m) = ''volume already exists: '' @ m"
| "show_storage_error (SAttached m) = ''volume is attached: '' @ m"
| "show_storage_error (SApi m) = ''api error: '' @ m"
| "show_storage_error (SHttp m) = m"


section \<open>Messages\<close>

record registry_credentials =
  rc_username :: string
  rc_password :: string

datatype node_command =
    Run alloc_id container_spec "registry_credentials option"
  | Stop alloc_id
  | Pull string "registry_credentials option"
  | LogTail alloc_id nat
  | LogFollow alloc_id
  | LogUnfollow alloc_id

datatype log_stream = Stdout | Stderr

record log_line =
  ll_timestamp :: time
  ll_stream :: log_stream
  ll_content :: string

record volume_info =
  vi_name :: string
  vi_size_bytes :: u64
  vi_alloc_id :: "alloc_id option"

record heartbeat =
  hb_node_id :: node_id
  hb_alloc_statuses :: "(alloc_id, alloc_status) hash_map"
  hb_resources :: node_resources
  hb_stats :: "container_stats list"
  hb_volumes :: "volume_info list"

datatype node_report =
    Heartbeat heartbeat
  | RunStarted alloc_id "u16 option" "socket_addr option"
  | RStopped alloc_id "32 word"
  | RunFailed alloc_id string
  | PullComplete string
  | PullFailed string string
  | LogLines alloc_id "log_line list"
  | StatusUpdate alloc_id alloc_status

record auth_request =
  aq_token :: string

record auth_response =
  ap_ok :: bool


section \<open>Frames\<close>

datatype io_error = UnexpectedEof | InvalidData string

fun show_io_error :: "io_error \<Rightarrow> string" where
  "show_io_error UnexpectedEof = ''early eof''"
| "show_io_error (InvalidData m) = m"

definition max_frame_size :: u32 where "max_frame_size = 16 * 1024 * 1024"

definition to_be_bytes :: "u32 \<Rightarrow> bytes" where
  "to_be_bytes w = [ucast (drop_bit 24 w), ucast (drop_bit 16 w), ucast (drop_bit 8 w), ucast w]"

fun from_be_bytes :: "bytes \<Rightarrow> u32" where
  "from_be_bytes [a, b, c, d] =
    push_bit 24 (ucast a) OR push_bit 16 (ucast b) OR push_bit 8 (ucast c) OR ucast d"
| "from_be_bytes _ = 0"

definition frame_too_large :: "u32 \<Rightarrow> io_error" where
  "frame_too_large len = InvalidData (''frame too large: '' @ show_word len @ '' bytes (max '' @
     show_word max_frame_size @ '')'')"

text \<open>
  The bytes that a call appends to the stream. The length is cast to 32 bits before it is
  compared with the maximum.
\<close>

definition write_frame :: "('a \<Rightarrow> (string, bytes) result) \<Rightarrow> 'a \<Rightarrow> (io_error, bytes) result" where
  "write_frame to_vec val =
    (case to_vec val of
       Inl e \<Rightarrow> Inl (InvalidData e)
     | Inr payload \<Rightarrow>
        (let len = word_of_nat (length payload) :: u32
         in if len > max_frame_size then Inl (frame_too_large len)
            else Inr (to_be_bytes len @ payload)))"

definition read_exact :: "nat \<Rightarrow> bytes \<Rightarrow> (io_error, bytes \<times> bytes) result" where
  "read_exact n r = (if length r < n then Inl UnexpectedEof else Inr (take n r, drop n r))"

text \<open>A message and the rest of the stream, or nothing at its end.\<close>

definition read_frame ::
  "(bytes \<Rightarrow> (string, 'a) result) \<Rightarrow> bytes \<Rightarrow> (io_error, ('a \<times> bytes) option) result" where
  "read_frame from_slice r =
    (case read_exact 4 r of
       Inl e \<Rightarrow> if e = UnexpectedEof then Inr None else Inl e
     | Inr (len_buf, r) \<Rightarrow>
        (let len = from_be_bytes len_buf
         in if len > max_frame_size then Inl (frame_too_large len)
            else (case read_exact (unat len) r of
                    Inl e \<Rightarrow> Inl e
                  | Inr (buf, r) \<Rightarrow>
                     (case from_slice buf of
                        Inl e \<Rightarrow> Inl (InvalidData e)
                      | Inr val \<Rightarrow> Inr (Some (val, r))))))"

lemma read_frame_shorter:
  "read_frame from_slice r = Inr (Some (val, r')) \<Longrightarrow> length r' < length r"
  by (auto simp: read_frame_def read_exact_def Let_def split: if_splits sum.splits)

text \<open>
  The loop of a reader: it forwards every message until the stream ends or a frame is bad. Both
  ends run it, \<^verbatim>\<open>reader_loop\<close> on reports and the reader task of
  \<^verbatim>\<open>handle_connection\<close> on commands.
\<close>

function reader_loop :: "(bytes \<Rightarrow> (string, 'a) result) \<Rightarrow> bytes \<Rightarrow> 'a list" where
  "reader_loop from_slice r =
    (case read_frame from_slice r of
       Inl e \<Rightarrow> []
     | Inr None \<Rightarrow> []
     | Inr (Some (val, r')) \<Rightarrow> val # reader_loop from_slice r')"
  by pat_completeness auto

termination
  by (relation "measure (\<lambda>(_, r). length r)") (auto dest: read_frame_shorter)

declare reader_loop.simps [simp del]

text \<open>
  The loop of the writer of the primary over the commands in its channel. It says whether the
  connection is lost: a frame that cannot be written ends it that way, an empty and closed
  channel does not.
\<close>

fun writer_loop ::
  "('a \<Rightarrow> (string, bytes) result) \<Rightarrow> 'a list \<Rightarrow> bool \<times> bytes" where
  "writer_loop to_vec [] = (False, [])"
| "writer_loop to_vec (cmd # cmds) =
    (case write_frame to_vec cmd of
       Inl e \<Rightarrow> (True, [])
     | Inr out \<Rightarrow> (case writer_loop to_vec cmds of (lost, rest) \<Rightarrow> (lost, out @ rest)))"


section \<open>The handshake\<close>

text \<open>Each side yields the bytes that it wrote and its result, the rest of the stream.\<close>

definition do_auth ::
  "(auth_request \<Rightarrow> (string, bytes) result) \<Rightarrow> (bytes \<Rightarrow> (string, auth_response) result) \<Rightarrow>
   string \<Rightarrow> bytes \<Rightarrow> bytes \<times> (node_error, bytes) result" where
  "do_auth to_vec from_slice token stream =
    (case write_frame to_vec \<lparr> aq_token = token \<rparr> of
       Inl e \<Rightarrow> ([], Inl (BadRequest (''rpc auth write: '' @ show_io_error e)))
     | Inr out \<Rightarrow> (out,
        (case read_frame from_slice stream of
           Inl e \<Rightarrow> Inl (BadRequest (''rpc auth read: '' @ show_io_error e))
         | Inr None \<Rightarrow> Inl (BadRequest ''rpc: connection closed during auth'')
         | Inr (Some (resp, stream)) \<Rightarrow>
            if \<not> ap_ok resp then Inl (BadRequest ''rpc: auth rejected'') else Inr stream)))"

definition accept_auth ::
  "(auth_response \<Rightarrow> (string, bytes) result) \<Rightarrow> (bytes \<Rightarrow> (string, auth_request) result) \<Rightarrow>
   string \<Rightarrow> bytes \<Rightarrow> bytes \<times> (node_error, bytes) result" where
  "accept_auth to_vec from_slice auth_token stream =
    (case read_frame from_slice stream of
       Inl e \<Rightarrow> ([], Inl (BadRequest (''auth read: '' @ show_io_error e)))
     | Inr None \<Rightarrow> ([], Inl (BadRequest ''connection closed before auth''))
     | Inr (Some (auth, stream)) \<Rightarrow>
        if aq_token auth \<noteq> auth_token
        then (case write_frame to_vec \<lparr> ap_ok = False \<rparr> of Inl _ \<Rightarrow> [] | Inr out \<Rightarrow> out,
              Inl (BadRequest ''invalid auth token''))
        else (case write_frame to_vec \<lparr> ap_ok = True \<rparr> of
                Inl e \<Rightarrow> ([], Inl (BadRequest (''auth write: '' @ show_io_error e)))
              | Inr out \<Rightarrow> (out, Inr stream)))"


section \<open>Routes\<close>

text \<open>
  A channel and a cancellation token are numbers. Whether the receiver of a channel is gone is
  up to the tasks that drain it, a parameter \<open>gone\<close>.
\<close>

record command_router =
  cr_inner :: "(node_id, nat) hash_map"
  cr_connections :: "(node_id, nat) hash_map"
  cr_cancelled :: "nat list"

definition router_new :: command_router where
  "router_new = \<lparr> cr_inner = [], cr_connections = [], cr_cancelled = [] \<rparr>"

definition router_register :: "node_id \<Rightarrow> nat \<Rightarrow> command_router \<Rightarrow> command_router" where
  "router_register node_id tx r = r\<lparr> cr_inner := hm_insert node_id tx (cr_inner r) \<rparr>"

definition router_deregister :: "node_id \<Rightarrow> command_router \<Rightarrow> command_router" where
  "router_deregister node_id r = r\<lparr> cr_inner := hm_remove node_id (cr_inner r) \<rparr>"

definition router_send ::
  "(nat \<Rightarrow> bool) \<Rightarrow> command_router \<Rightarrow> node_id \<Rightarrow> (node_error, nat) result" where
  "router_send gone r node_id =
    (case hm_get (cr_inner r) node_id of
       None \<Rightarrow> Inl (NodeUnreachable node_id)
     | Some tx \<Rightarrow> if gone tx then Inl ChannelClosed else Inr tx)"

fun broadcast_loop ::
  "(nat \<Rightarrow> bool) \<Rightarrow> (node_id \<times> nat) list \<Rightarrow> nat list \<Rightarrow> node_error option \<Rightarrow> nat list \<times> node_error option" where
  "broadcast_loop gone [] sent last_err = (sent, last_err)"
| "broadcast_loop gone ((node_id, tx) # rest) sent last_err =
    (if gone tx then broadcast_loop gone rest sent (Some ChannelClosed)
     else broadcast_loop gone rest (sent @ [tx]) last_err)"

text \<open>The channels that received the command, and the result.\<close>

definition router_broadcast ::
  "(nat \<Rightarrow> bool) \<Rightarrow> command_router \<Rightarrow> nat list \<times> (node_error, unit) result" where
  "router_broadcast gone r =
    (case broadcast_loop gone (cr_inner r) [] None of
       (sent, None) \<Rightarrow> (sent, Inr ())
     | (sent, Some e) \<Rightarrow> (sent, Inl e))"

definition route_count :: "command_router \<Rightarrow> nat" where
  "route_count r = length (cr_inner r)"

definition router_disconnect :: "node_id \<Rightarrow> command_router \<Rightarrow> command_router" where
  "router_disconnect node_id r =
    (let r' = r\<lparr> cr_connections := hm_remove node_id (cr_connections r),
                 cr_cancelled := (case hm_get (cr_connections r) node_id of
                    None \<Rightarrow> cr_cancelled r | Some c \<Rightarrow> c # cr_cancelled r) \<rparr>
     in router_deregister node_id r')"

text \<open>What \<^verbatim>\<open>wire_connection\<close> registers for a connection, under a fresh channel and token.\<close>

definition wire_connection :: "node_id \<Rightarrow> nat \<Rightarrow> nat \<Rightarrow> command_router \<Rightarrow> command_router" where
  "wire_connection node_id cmd_tx conn_cancel r =
    r\<lparr> cr_inner := hm_insert node_id cmd_tx (cr_inner r),
       cr_connections := hm_insert node_id conn_cancel (cr_connections r) \<rparr>"

text \<open>
  The loop that restores a lost connection, over the outcomes of its attempts: the delays that it
  slept and how it ended. After the last outcome it is still waiting.
\<close>

datatype attempt = Accepted | ConnectFailed | ConnectTimeout | AuthFailed | CancelledWait

datatype reconnect_end = Rewired | GaveUp | Waiting

definition max_delay :: duration where "max_delay = 30 * 10 ^ 9"

definition next_delay :: "duration \<Rightarrow> duration" where
  "next_delay delay = min (delay * 2) max_delay"

fun reconnect_loop :: "duration \<Rightarrow> attempt list \<Rightarrow> duration list \<times> reconnect_end" where
  "reconnect_loop delay [] = ([], Waiting)"
| "reconnect_loop delay (CancelledWait # as) = ([], GaveUp)"
| "reconnect_loop delay (Accepted # as) = ([delay], Rewired)"
| "reconnect_loop delay (_ # as) =
    (case reconnect_loop (next_delay delay) as of (slept, r) \<Rightarrow> (delay # slept, r))"

definition reconnect :: "attempt list \<Rightarrow> duration list \<times> reconnect_end" where
  "reconnect as = reconnect_loop (10 ^ 9) as"


section \<open>Frames are read back\<close>

lemma length_to_be_bytes [simp]: "length (to_be_bytes w) = 4"
  by (simp add: to_be_bytes_def)

lemma from_to_be_bytes [simp]: "from_be_bytes (to_be_bytes w) = w"
proof (rule bit_word_eqI)
  fix n
  assume n: "n < LENGTH(32)"
  consider "n < 8" | "8 \<le> n" "n < 16" | "16 \<le> n" "n < 24" | "24 \<le> n" by linarith
  then show "bit (from_be_bytes (to_be_bytes w)) n = bit w n"
    by cases (use n in \<open>simp_all add: to_be_bytes_def bit_simps less_diff_conv2\<close>)
qed

lemma read_exact_append [simp]:
  "length xs = n \<Longrightarrow> read_exact n (xs @ ys) = Inr (xs, ys)"
  by (simp add: read_exact_def)

lemma read_exact_short: "length r < n \<Longrightarrow> read_exact n r = Inl UnexpectedEof"
  by (simp add: read_exact_def)

lemma write_frame_Ok:
  assumes "write_frame to_vec val = Inr out"
  obtains payload where "to_vec val = Inr payload"
    "out = to_be_bytes (word_of_nat (length payload)) @ payload"
    "\<not> word_of_nat (length payload) > max_frame_size"
  using assms by (auto simp: write_frame_def Let_def split: sum.splits if_splits)

lemma read_write_frame:
  assumes "write_frame to_vec val = Inr out"
    and "\<And>p. to_vec val = Inr p \<Longrightarrow> from_slice p = Inr val \<and> length p < 2 ^ 32"
  shows "read_frame from_slice (out @ rest) = Inr (Some (val, rest))"
proof -
  obtain p where p: "to_vec val = Inr p" "out = to_be_bytes (word_of_nat (length p)) @ p"
      "\<not> word_of_nat (length p) > max_frame_size"
    using assms(1) by (rule write_frame_Ok)
  moreover have "unat (word_of_nat (length p) :: u32) = length p"
    using assms(2) [OF p(1)] by (simp add: unat_of_nat)
  ultimately show ?thesis
    using assms(2) [OF p(1)] by (simp add: read_frame_def)
qed

text \<open>A stream that stops inside of a frame yields no message from it.\<close>

lemma read_torn_frame:
  assumes "write_frame to_vec val = Inr out" "n < length out"
    and "\<And>p. to_vec val = Inr p \<Longrightarrow> length p < 2 ^ 32"
  shows "\<nexists>m. read_frame from_slice (take n out) = Inr (Some m)"
proof (cases "n < 4")
  case True
  then show ?thesis by (simp add: read_frame_def read_exact_short)
next
  case False
  obtain p where p: "to_vec val = Inr p" "out = to_be_bytes (word_of_nat (length p)) @ p"
      "\<not> word_of_nat (length p) > max_frame_size"
    using assms(1) by (rule write_frame_Ok)
  have "unat (word_of_nat (length p) :: u32) = length p"
    using assms(3) [OF p(1)] by (simp add: unat_of_nat)
  moreover have "take n out = to_be_bytes (word_of_nat (length p)) @ take (n - 4) p"
    using False p(2) by simp
  ultimately show ?thesis
    using assms(2) False p by (simp add: read_frame_def read_exact_short)
qed

lemma writer_loop_Cons:
  "writer_loop to_vec (m # ms) = (False, out) \<longleftrightarrow>
    (\<exists>o1 o2. write_frame to_vec m = Inr o1 \<and> writer_loop to_vec ms = (False, o2) \<and> out = o1 @ o2)"
  by (auto split: sum.splits prod.splits)

definition lossless ::
  "('a \<Rightarrow> (string, bytes) result) \<Rightarrow> (bytes \<Rightarrow> (string, 'a) result) \<Rightarrow> 'a \<Rightarrow> bool" where
  "lossless to_vec from_slice m \<longleftrightarrow>
    (case to_vec m of Inl e \<Rightarrow> True | Inr p \<Rightarrow> from_slice p = Inr m \<and> length p < 2 ^ 32)"

lemma losslessD:
  "lossless to_vec from_slice m \<Longrightarrow> to_vec m = Inr p \<Longrightarrow> from_slice p = Inr m \<and> length p < 2 ^ 32"
  by (simp add: lossless_def)

lemma reader_of_writer:
  assumes "list_all (lossless to_vec from_slice) ms" "writer_loop to_vec ms = (False, out)"
  shows "reader_loop from_slice out = ms"
  using assms
proof (induction ms arbitrary: out)
  case Nil
  then show ?case by (simp add: reader_loop.simps [of _ "[]"] read_frame_def read_exact_def)
next
  case (Cons m ms)
  then obtain o1 o2 where o: "write_frame to_vec m = Inr o1" "writer_loop to_vec ms = (False, o2)"
      "out = o1 @ o2"
    unfolding writer_loop_Cons by blast
  have "read_frame from_slice out = Inr (Some (m, o2))"
    unfolding o(3) by (rule read_write_frame [OF o(1)]) (use Cons.prems(1) in \<open>auto dest: losslessD\<close>)
  then show ?case
    using Cons.IH [OF _ o(2)] Cons.prems(1) by (simp add: reader_loop.simps [of _ out])
qed

lemma reader_of_torn_writer:
  assumes "list_all (lossless to_vec from_slice) ms" "writer_loop to_vec ms = (False, out)"
  shows "prefix (reader_loop from_slice (take n out)) ms"
  using assms
proof (induction ms arbitrary: out n)
  case Nil
  then show ?case by (simp add: reader_loop.simps [of _ "[]"] read_frame_def read_exact_def)
next
  case (Cons m ms)
  then obtain o1 o2 where o: "write_frame to_vec m = Inr o1" "writer_loop to_vec ms = (False, o2)"
      "out = o1 @ o2"
    unfolding writer_loop_Cons by blast
  have m: "\<And>p. to_vec m = Inr p \<Longrightarrow> from_slice p = Inr m \<and> length p < 2 ^ 32"
    using Cons.prems(1) by (auto dest: losslessD)
  show ?case
  proof (cases "n < length o1")
    case True
    have "\<nexists>x. read_frame from_slice (take n o1) = Inr (Some x)"
      by (rule read_torn_frame [OF o(1) True]) (use m in blast)
    then show ?thesis
      using True o(3) by (auto simp: reader_loop.simps [of _ "take n o1"] split: sum.splits option.splits)
  next
    case False
    then have "read_frame from_slice (take n out) = Inr (Some (m, take (n - length o1) o2))"
      using read_write_frame [OF o(1) m] o(3) by simp
    then show ?thesis
      using Cons.IH [OF _ o(2)] Cons.prems(1) by (simp add: reader_loop.simps [of _ "take n out"])
  qed
qed


section \<open>Routes as a keyed store\<close>

definition route_of :: "command_router \<Rightarrow> node_id \<Rightarrow> nat option" where
  "route_of r node_id = hm_get (cr_inner r) node_id"

interpretation routes: keyed_store route_of router_register router_deregister "\<lambda>r. hm_wf (cr_inner r)"
  by unfold_locales
     (auto simp: route_of_def router_register_def router_deregister_def intro: distinct_update distinct_delete)

lemma route_of_wire: "route_of (wire_connection node_id tx c r) = (route_of r)(node_id \<mapsto> tx)"
  by (rule ext) (simp add: route_of_def wire_connection_def)

lemma broadcast_loop_eq:
  "broadcast_loop gone rs sent last_err =
    (sent @ filter (\<lambda>tx. \<not> gone tx) (map snd rs),
     if list_ex gone (map snd rs) then Some ChannelClosed else last_err)"
  by (induction gone rs sent last_err rule: broadcast_loop.induct) auto


section \<open>Delays of the reconnection\<close>

lemma next_delay_power:
  "next_delay (min (2 ^ k * 1000000000) max_delay) = min (2 ^ Suc k * 1000000000) max_delay"
  by (auto simp: next_delay_def max_delay_def min_def)

lemma reconnect_loop_delay:
  assumes "i < length (fst (reconnect_loop (min (2 ^ k * 1000000000) max_delay) as))"
  shows "fst (reconnect_loop (min (2 ^ k * 1000000000) max_delay) as) ! i = min (2 ^ (k + i) * 1000000000) max_delay"
  using assms
proof (induction as arbitrary: k i)
  case (Cons a as)
  show ?case
    using Cons.prems Cons.IH [of _ "Suc k"]
    by (cases a; cases i) (auto split: prod.splits simp: next_delay_power simp del: power_Suc)
qed simp


section \<open>Properties\<close>

text \<open>
  (C24) Messages survive the wire: where serde\_json reads back what it wrote and no message
  reaches four gibibytes, the reader forwards exactly the messages that the writer framed, in
  order, and from a stream that is cut off at any byte it forwards a prefix of them.
\<close>

theorem frames_roundtrip:
  assumes "list_all (lossless to_vec from_slice) ms" "writer_loop to_vec ms = (False, out)"
  shows "reader_loop from_slice out = ms \<and> prefix (reader_loop from_slice (take n out)) ms"
  using reader_of_writer [OF assms] reader_of_torn_writer [OF assms] by simp

theorem frames_roundtrip_witness:
  "reader_loop (\<lambda>p. Inr p) [0, 0, 0, 2, 7, 9, 0, 0, 0, 1, 5] = [[7, 9], [5]] \<and>
   prefix (reader_loop (\<lambda>p. Inr p) (take 10 [0, 0, 0, 2, 7, 9, 0, 0, 0, 1, 5])) [[7, 9], [5]]"
  by (rule frames_roundtrip [where to_vec = "\<lambda>p. Inr p"])
     (simp_all add: lossless_def write_frame_def to_be_bytes_def max_frame_size_def)

text \<open>
  (C33) The handshake is sound and complete: when the primary connects with a token, it is let in
  by the secondary, and learns so, exactly when the token is the one of the secondary. Here the
  answer of the secondary to the bytes of the primary is the stream that the primary reads.
\<close>

theorem handshake_iff_token:
  fixes to_vec_q :: "auth_request \<Rightarrow> (string, bytes) result"
    and to_vec_p :: "auth_response \<Rightarrow> (string, bytes) result"
    and auth_token :: string
  assumes "write_frame to_vec_q \<lparr> aq_token = token \<rparr> = Inr q"
    and "lossless to_vec_q from_slice_q \<lparr> aq_token = token \<rparr>"
    and "\<And>p. write_frame to_vec_p p = Inr (answer_bytes p)" "\<And>p. lossless to_vec_p from_slice_p p"
  defines "request \<equiv> fst (do_auth to_vec_q from_slice_p token [])"
    and "answer \<equiv> \<lambda>request. accept_auth to_vec_p from_slice_q auth_token request"
  shows "(is_ok (snd (answer request)) \<longleftrightarrow> token = auth_token) \<and>
    (is_ok (snd (do_auth to_vec_q from_slice_p token (fst (answer request)))) \<longleftrightarrow> token = auth_token)"
proof -
  have req: "request = q" by (simp add: request_def do_auth_def assms(1))
  have rq: "read_frame from_slice_q q = Inr (Some (\<lparr> aq_token = token \<rparr>, []))"
    using read_write_frame [OF assms(1), of from_slice_q "[]"] losslessD [OF assms(2)] by simp
  have "read_frame from_slice_p (answer_bytes p) = Inr (Some (p, []))" for p
    using read_write_frame [OF assms(3), of p from_slice_p "[]"] losslessD [OF assms(4)] by simp
  then show ?thesis
    by (simp add: req answer_def accept_auth_def do_auth_def rq assms(1,3))
qed

definition to_q :: "auth_request \<Rightarrow> (string, bytes) result" where
  "to_q q = Inr (if aq_token q = ''s'' then [1] else [2])"

definition from_q :: "bytes \<Rightarrow> (string, auth_request) result" where
  "from_q b = Inr \<lparr> aq_token = if b = [1] then ''s'' else ''t'' \<rparr>"

definition to_p :: "auth_response \<Rightarrow> (string, bytes) result" where
  "to_p p = Inr (if ap_ok p then [1] else [0])"

definition from_p :: "bytes \<Rightarrow> (string, auth_response) result" where
  "from_p b = Inr \<lparr> ap_ok = (b = [1]) \<rparr>"

theorem handshake_iff_token_witness:
  "\<not> is_ok (snd (accept_auth to_p from_q ''t'' (fst (do_auth to_q from_p ''s'' [])))) \<and>
   is_ok (snd (accept_auth to_p from_q ''s'' (fst (do_auth to_q from_p ''s'' []))))"
proof -
  note defs = to_q_def from_q_def to_p_def from_p_def
  have "write_frame to_q \<lparr> aq_token = ''s'' \<rparr> = Inr [0, 0, 0, 1, 1]"
    "lossless to_q from_q \<lparr> aq_token = ''s'' \<rparr>"
    "\<And>p. write_frame to_p p = Inr (if ap_ok p then [0, 0, 0, 1, 1] else [0, 0, 0, 1, 0])"
    "\<And>p. lossless to_p from_p p"
    by (simp_all add: defs write_frame_def lossless_def to_be_bytes_def max_frame_size_def)
  from handshake_iff_token [OF this, of "''t''"] handshake_iff_token [OF this, of "''s''"]
  show ?thesis by simp
qed

text \<open>
  The delays between the attempts to restore a connection start at one second, double, and
  never exceed thirty seconds.
\<close>

theorem reconnect_delays:
  assumes "i < length (fst (reconnect as))"
  shows "fst (reconnect as) ! i = min (2 ^ i * 10 ^ 9) (30 * 10 ^ 9)"
  using reconnect_loop_delay [of i 0 as] assms by (simp add: reconnect_def max_delay_def)

theorem reconnect_delays_witness:
  "fst (reconnect [ConnectFailed, ConnectTimeout, AuthFailed, ConnectFailed, ConnectFailed, Accepted]) ! 5 = min (2 ^ 5 * 10 ^ 9) (30 * 10 ^ 9)"
  by (rule reconnect_delays) (simp add: reconnect_def)

text \<open>
  The size check of a frame reads a truncated length: a payload of four gibibytes and a
  little more passes it, under a header that announces only the excess.
\<close>

theorem oversized_payload_is_framed:
  assumes "to_vec val = Inr payload" "length payload = 2 ^ 32 + k" "k \<le> 2 ^ 24"
  shows "write_frame to_vec val = Inr (to_be_bytes (word_of_nat k) @ payload)"
proof -
  have "(word_of_nat (length payload) :: u32) = word_of_nat k"
    unfolding assms(2) by (simp add: word_of_nat_eq_iff take_bit_eq_mod)
  moreover have "word_of_nat k \<le> max_frame_size"
    using assms(3) by (simp add: max_frame_size_def word_le_nat_alt unat_of_nat)
  ultimately show ?thesis
    using assms(1) by (simp add: write_frame_def Let_def not_less)
qed

theorem oversized_payload_is_framed_witness:
  "write_frame (\<lambda>n. Inr (replicate n 0)) (2 ^ 32 + 1) = Inr (to_be_bytes (word_of_nat 1) @ replicate (2 ^ 32 + 1) 0)"
  by (rule oversized_payload_is_framed, rule refl, rule length_replicate, simp)

end
