(* ===== verification/Util.thy ===== *)
theory Util
  imports Types Strings
begin

text \<open>
  Helpers of the node, \<^verbatim>\<open>crates/node/src/util.rs\<close>: the suffix of allocation
  identifiers and the date of a time stamp, and the settings that
  \<^verbatim>\<open>env.rs\<close> reads from the environment. The date is shown to be the one that
  counting days in the Gregorian calendar gives.
\<close>

section \<open>Suffixes\<close>

definition hex_digit :: "nat \<Rightarrow> char" where
  "hex_digit n = ''0123456789abcdef'' ! n"

fun show_hex :: "nat \<Rightarrow> string" where
  "show_hex n = (if n < 16 then [hex_digit n] else show_hex (n div 16) @ [hex_digit (n mod 16)])"

declare show_hex.simps [simp del]

text \<open>The nanoseconds since the epoch and the value of the counter before its increment.\<close>

definition rand_suffix :: "nat \<Rightarrow> u64 \<Rightarrow> string" where
  "rand_suffix nanos seq = show_hex (nanos mod 2 ^ 32) @ show_hex (unat seq)"

definition next_seq :: "u64 \<Rightarrow> u64" where
  "next_seq counter = counter + 1"


section \<open>Dates\<close>

definition days_to_ymd :: "nat \<Rightarrow> nat \<times> nat \<times> nat" where
  "days_to_ymd days0 =
    (let days = days0 + 719468;
         era = days div 146097;
         doe = days mod 146097;
         yoe = (doe - doe div 1460 + doe div 36524 - doe div 146096) div 365;
         y = yoe + era * 400;
         doy = doe - (365 * yoe + yoe div 4 - yoe div 100);
         mp = (5 * doy + 2) div 153;
         d = doy - (153 * mp + 2) div 5 + 1;
         m = (if mp < 10 then mp + 3 else mp - 9);
         y = (if m \<le> 2 then y + 1 else y)
     in (y, m, d))"

text \<open>\<^verbatim>\<open>{:0n}\<close>, a number padded with zeros to a width.\<close>

definition pad :: "nat \<Rightarrow> nat \<Rightarrow> string" where
  "pad width n = replicate (width - length (show_nat n)) (CHR ''0'') @ show_nat n"

text \<open>A time stamp in nanoseconds since the epoch.\<close>

definition format_system_time :: "time \<Rightarrow> string" where
  "format_system_time t =
    (let secs = t div 10 ^ 9;
         days = secs div 86400;
         time_secs = secs mod 86400;
         hours = time_secs div 3600;
         mins = (time_secs mod 3600) div 60;
         s = time_secs mod 60;
         (year, month, day) = days_to_ymd days
     in pad 4 year @ ''-'' @ pad 2 month @ ''-'' @ pad 2 day @ ''T'' @
        pad 2 hours @ '':'' @ pad 2 mins @ '':'' @ pad 2 s @ ''Z'')"


section \<open>Settings\<close>

text \<open>The value of the environment variable, if it is set.\<close>

definition read_u64 :: "string option \<Rightarrow> u64 \<Rightarrow> u64" where
  "read_u64 var dflt =
    (case var of
       None \<Rightarrow> dflt
     | Some val \<Rightarrow> (case parse_unsigned (2 ^ 64) val of None \<Rightarrow> dflt | Some n \<Rightarrow> word_of_nat n))"

definition read_ms :: "string option \<Rightarrow> u64 \<Rightarrow> duration" where
  "read_ms var dflt = unat (read_u64 var dflt) * 10 ^ 6"

definition restart_backoff :: "duration list" where
  "restart_backoff = map (\<lambda>s. s * 10 ^ 9) [1, 5, 30, 60]"

text \<open>The settings that other components use, from the environment.\<close>

definition heartbeat_interval :: "(string \<Rightarrow> string option) \<Rightarrow> duration" where
  "heartbeat_interval var = read_ms (var ''MILL_HEARTBEAT_INTERVAL_MS'') 5000"

definition metrics_poll_interval :: "(string \<Rightarrow> string option) \<Rightarrow> duration" where
  "metrics_poll_interval var = read_ms (var ''MILL_METRICS_POLL_INTERVAL_MS'') 10000"

definition heartbeat_timeout :: "(string \<Rightarrow> string option) \<Rightarrow> duration" where
  "heartbeat_timeout var = read_ms (var ''MILL_HEARTBEAT_TIMEOUT_MS'') 15000"

definition health_timeout :: "(string \<Rightarrow> string option) \<Rightarrow> duration" where
  "health_timeout var = read_ms (var ''MILL_HEALTH_TIMEOUT_MS'') 30000"

definition tcp_ready_poll_interval :: "(string \<Rightarrow> string option) \<Rightarrow> duration" where
  "tcp_ready_poll_interval var = read_ms (var ''MILL_TCP_READY_POLL_INTERVAL_MS'') 100"


section \<open>The calendar\<close>

text \<open>The reference: the next day, by the lengths of the months.\<close>

definition leap :: "nat \<Rightarrow> bool" where
  "leap y \<longleftrightarrow> y mod 4 = 0 \<and> (y mod 100 \<noteq> 0 \<or> y mod 400 = 0)"

definition month_days :: "nat \<Rightarrow> nat \<Rightarrow> nat" where
  "month_days y m =
    (if m = 2 then if leap y then 29 else 28
     else if m = 4 \<or> m = 6 \<or> m = 9 \<or> m = 11 then 30 else 31)"

fun next_day :: "nat \<times> nat \<times> nat \<Rightarrow> nat \<times> nat \<times> nat" where
  "next_day (y, m, d) =
    (if d < month_days y m then (y, m, d + 1)
     else if m < 12 then (y, m + 1, 1)
     else (y + 1, 1, 1))"

text \<open>
  Years are counted from March within an era of 400 years. \<open>year_start\<close> is the day on which
  such a year begins, \<open>year_of\<close> the year of a day.
\<close>

definition year_start :: "nat \<Rightarrow> nat" where
  "year_start y = 365 * y + y div 4 - y div 100"

definition year_of :: "nat \<Rightarrow> nat" where
  "year_of doe = (doe - doe div 1460 + doe div 36524 - doe div 146096) div 365"

definition last_day :: "nat \<Rightarrow> nat" where
  "last_day y = (if y = 399 then 146096 else year_start (Suc y) - 1)"

lemma div_Suc_dvd: "0 < k \<Longrightarrow> Suc n div k = n div k + (if k dvd Suc n then 1 else 0)"
  by (simp add: div_Suc mod_eq_0_iff_dvd)

lemma year_start_Suc:
  "year_start (Suc y) = year_start y + 365 + (if 4 dvd Suc y \<and> \<not> 100 dvd Suc y then 1 else 0)"
proof -
  have arith: "q \<le> p \<Longrightarrow> b \<le> a \<Longrightarrow> 365 * Suc y + (p + a) - (q + b) = 365 * y + p - q + 365 + (a - b)"
    for p q a b :: nat by simp
  have "y div 100 \<le> y div 4" by (rule div_le_mono2) simp_all
  moreover have "100 dvd Suc y \<Longrightarrow> 4 dvd Suc y" by (rule dvd_trans [of 4 100]) simp_all
  then have "(if 100 dvd Suc y then 1 else 0) \<le> (if 4 dvd Suc y then 1 else (0 :: nat))" by simp
  ultimately show ?thesis
    unfolding year_start_def div_Suc_dvd [of 4 y, simplified] div_Suc_dvd [of 100 y, simplified]
    by (subst arith) (simp_all split: if_splits)
qed

lemma leap_era: "leap (Suc y + 400 * era) \<longleftrightarrow> leap (Suc y)"
  unfolding leap_def
  using mod_mult_self2 [of "Suc y" 4 "100 * era"] mod_mult_self2 [of "Suc y" 100 "4 * era"]
    mod_mult_self2 [of "Suc y" 400 era] by simp

lemma year_length:
  assumes "y < 400"
  shows "last_day y = year_start y + (if leap (Suc y) then 365 else 364)"
    and "y < 399 \<Longrightarrow> year_start (Suc y) = Suc (last_day y)"
proof -
  have "y \<noteq> 399 \<Longrightarrow> Suc y mod 400 \<noteq> 0" using assms by simp
  then show "last_day y = year_start y + (if leap (Suc y) then 365 else 364)"
    by (cases "y = 399")
       (simp_all add: last_day_def year_start_Suc leap_def mod_eq_0_iff_dvd, simp_all add: year_start_def)
  show "y < 399 \<Longrightarrow> year_start (Suc y) = Suc (last_day y)"
    by (simp add: last_day_def year_start_Suc)
qed

text \<open>
  With \<open>y = 100 * c + 4 * b + a\<close> a year begins on day \<open>36524 * c + 1461 * b + 365 * a\<close>, and the
  quotients in \<open>year_of\<close> count the leap days passed.
\<close>

lemma year_of_parts:
  assumes "a < 4" "b < 25" "c < 4" "t \<le> 364 \<or> t = 365 \<and> a = 3 \<and> (b < 24 \<or> c = 3)"
  shows "year_of (36524 * c + 1461 * b + 365 * a + t) = 100 * c + 4 * b + a"
proof -
  let ?e = "36524 * c + 1461 * b + 365 * a + t"
  obtain q where q: "?e div 1460 = q" "25 * c + b \<le> q" "q \<le> 25 * c + b + 1" "t = 365 \<Longrightarrow> q = 25 * c + b + 1"
      "q = 25 * c + b \<or> 0 < t"
  proof (cases "24 * c + b + 365 * a + t < 1460")
    case True
    then have "?e div 1460 = 25 * c + b" by (intro div_nat_eqI) simp_all
    moreover have "t \<noteq> 365" using True assms(4) by auto
    ultimately show thesis using that by auto
  next
    case False
    then have "?e div 1460 = 25 * c + b + 1" using assms by (intro div_nat_eqI) auto
    moreover have "0 < t" using False assms(1-3) by linarith
    ultimately show thesis using that by auto
  qed
  show ?thesis
  proof (cases "t = 365 \<and> b = 24 \<and> c = 3")
    case True
    then show ?thesis using assms by (simp add: year_of_def)
  next
    case False
    then have "?e div 36524 = c" "?e div 146096 = 0" using assms by (auto intro!: div_nat_eqI)
    then have "year_of ?e = (?e - q + c) div 365" by (simp add: year_of_def q(1))
    also have "\<dots> = 100 * c + 4 * b + a"
      using q(2-5) assms by (intro div_nat_eqI) auto
    finally show ?thesis .
  qed
qed

lemma year_parts:
  assumes "y < 400"
  obtains a b c where "a < 4" "b < 25" "c < 4" "y = 100 * c + 4 * b + a"
    "year_start y = 36524 * c + 1461 * b + 365 * a"
    "leap (Suc y) \<Longrightarrow> a = 3 \<and> (b < 24 \<or> c = 3)"
proof -
  define a b c where "a = y mod 4" and "b = y mod 100 div 4" and "c = y div 100"
  have y: "y = 100 * c + 4 * b + a"
    using mod_mod_cancel [of 4 100 y, simplified] div_mult_mod_eq [of y 100] div_mult_mod_eq [of "y mod 100" 4]
    unfolding a_def b_def c_def by linarith
  have bounds: "a < 4" "b < 25" "c < 4" using assms by (auto simp: a_def b_def c_def)
  then have "y div 4 = 25 * c + b" "y div 100 = c" using y by (auto intro!: div_nat_eqI)
  then have "year_start y = 36524 * c + 1461 * b + 365 * a" using y by (simp add: year_start_def)
  moreover have "leap (Suc y) \<Longrightarrow> a = 3 \<and> (b < 24 \<or> c = 3)"
  proof -
    assume leap: "leap (Suc y)"
    then have "4 dvd Suc y" by (simp add: leap_def mod_eq_0_iff_dvd)
    then have "a = 3" unfolding a_def by presburger
    moreover have "c = 3" if "b = 24"
    proof -
      have "Suc y = 100 * (c + 1)" using y that \<open>a = 3\<close> by simp
      then have "100 * (c + 1) mod 400 = 0" using leap by (simp add: leap_def)
      moreover have "c = 0 \<or> c = 1 \<or> c = 2 \<or> c = 3" using bounds by linarith
      ultimately show ?thesis by (elim disjE) simp_all
    qed
    ultimately show ?thesis using bounds(2) by linarith
  qed
  ultimately show thesis using that y bounds by blast
qed

lemma year_of_eq:
  assumes "y < 400" "year_start y \<le> doe" "doe \<le> last_day y"
  shows "year_of doe = y"
proof -
  obtain a b c where abc: "a < 4" "b < 25" "c < 4" "y = 100 * c + 4 * b + a"
    "year_start y = 36524 * c + 1461 * b + 365 * a" "leap (Suc y) \<Longrightarrow> a = 3 \<and> (b < 24 \<or> c = 3)"
    using year_parts [OF assms(1)] by metis
  define t where "t = doe - year_start y"
  have "t \<le> (if leap (Suc y) then 365 else 364)"
    using year_length(1) [OF assms(1)] assms(2,3) by (simp add: t_def)
  then have "t \<le> 364 \<or> t = 365 \<and> a = 3 \<and> (b < 24 \<or> c = 3)"
    using abc(6) by (auto split: if_splits)
  then show ?thesis
    using year_of_parts [OF abc(1-3), of t] assms(2) abc(4,5) by (simp add: t_def)
qed

lemma year_exists:
  assumes "doe < 146097"
  obtains y where "y < 400" "year_start y \<le> doe" "doe \<le> last_day y"
proof -
  define y where "y = (GREATEST y. y < 400 \<and> year_start y \<le> doe)"
  have "y < 400 \<and> year_start y \<le> doe"
    unfolding y_def by (rule GreatestI_nat [of _ 0 400]) (auto simp: year_start_def)
  moreover have "doe \<le> last_day y"
  proof (rule ccontr)
    assume "\<not> doe \<le> last_day y"
    then have "y \<noteq> 399" using assms by (auto simp: last_day_def)
    then have "year_start (Suc y) \<le> doe"
      using \<open>\<not> doe \<le> last_day y\<close> year_length(2) [of y] \<open>y < 400 \<and> year_start y \<le> doe\<close> by simp
    with \<open>y \<noteq> 399\<close> have "Suc y \<le> y"
      unfolding y_def [symmetric] using \<open>y < 400 \<and> year_start y \<le> doe\<close>
      by (subst (2) y_def, intro Greatest_le_nat [of _ _ 400]) auto
    then show False by simp
  qed
  ultimately show thesis using that by blast
qed

text \<open>Month and day of a day of a year that begins in March, and its date.\<close>

definition month_day :: "nat \<Rightarrow> nat \<times> nat" where
  "month_day doy =
    (let mp = (5 * doy + 2) div 153
     in (if mp < 10 then mp + 3 else mp - 9, doy - (153 * mp + 2) div 5 + 1))"

definition date_of :: "nat \<Rightarrow> nat \<Rightarrow> nat \<times> nat \<times> nat" where
  "date_of y doy = (case month_day doy of (m, d) \<Rightarrow> (if m \<le> 2 then y + 1 else y, m, d))"

lemma last_day_less: "y < 400 \<Longrightarrow> last_day y < 146097"
  by (auto simp: last_day_def year_start_def)

lemma days_to_ymd_eq:
  "days_to_ymd n = date_of (year_of ((n + 719468) mod 146097) + (n + 719468) div 146097 * 400)
    ((n + 719468) mod 146097 - year_start (year_of ((n + 719468) mod 146097)))"
  unfolding days_to_ymd_def date_of_def month_day_def year_of_def year_start_def Let_def prod.case
  by (rule refl)

lemma days_to_ymd_date:
  assumes "n + 719468 = 146097 * era + doe" "y < 400" "year_start y \<le> doe" "doe \<le> last_day y"
  shows "days_to_ymd n = date_of (y + era * 400) (doe - year_start y)"
proof -
  have doe: "doe < 146097" using last_day_less [OF assms(2)] assms(4) by simp
  have "year_of doe = y" by (rule year_of_eq [OF assms(2-4)])
  moreover have "(n + 719468) div 146097 = era" "(n + 719468) mod 146097 = doe"
    using assms(1) doe by simp_all
  ultimately show ?thesis by (simp only: days_to_ymd_eq)
qed

text \<open>The months counted from March: number, first day and length.\<close>

definition month_no :: "nat \<Rightarrow> nat" where
  "month_no mp = (if mp < 10 then mp + 3 else mp - 9)"

definition month_start :: "nat \<Rightarrow> nat" where
  "month_start mp = (153 * mp + 2) div 5"

lemma month_start_bounds: "5 * month_start mp \<le> 153 * mp + 2" "153 * mp + 2 < 5 * month_start mp + 5"
  unfolding month_start_def using div_mult_mod_eq [of "153 * mp + 2" 5] mod_less_divisor [of 5 "153 * mp + 2"]
  by linarith+

lemma month_day_at:
  assumes "month_start mp \<le> doy" "doy < month_start (Suc mp)"
  shows "month_day doy = (month_no mp, doy - month_start mp + 1)"
proof -
  have "(5 * doy + 2) div 153 = mp"
    using assms month_start_bounds [of mp] month_start_bounds [of "Suc mp"] by (intro div_nat_eqI) simp_all
  then show ?thesis by (simp add: month_day_def month_no_def month_start_def)
qed

lemma month_exists:
  obtains mp where "month_start mp \<le> doy" "doy < month_start (Suc mp)"
proof -
  define mp where "mp = (5 * doy + 2) div 153"
  have "153 * mp \<le> 5 * doy + 2" "5 * doy + 2 < 153 * mp + 153"
    using div_mult_mod_eq [of "5 * doy + 2" 153] mod_less_divisor [of 153 "5 * doy + 2"]
    unfolding mp_def by linarith+
  then show thesis
    using that [of mp] month_start_bounds [of mp] month_start_bounds [of "Suc mp"] by simp
qed

lemma month_lengths:
  assumes "mp < 11"
  shows "month_days y (month_no mp) = month_start (Suc mp) - month_start mp"
    and "month_no (Suc mp) = (if month_no mp < 12 then month_no mp + 1 else 1)" and "month_no mp \<noteq> 2"
proof -
  from assms have "mp = 0 \<or> mp = 1 \<or> mp = 2 \<or> mp = 3 \<or> mp = 4 \<or> mp = 5 \<or> mp = 6 \<or> mp = 7 \<or> mp = 8 \<or>
      mp = 9 \<or> mp = 10" by presburger
  then show "month_days y (month_no mp) = month_start (Suc mp) - month_start mp"
    "month_no (Suc mp) = (if month_no mp < 12 then month_no mp + 1 else 1)" "month_no mp \<noteq> 2"
    by (elim disjE; simp add: month_no_def month_start_def month_days_def)+
qed

lemma next_day_same_year:
  assumes "doy < (if leap (Suc y) then 365 else 364)"
  shows "date_of y (Suc doy) = next_day (date_of y doy)"
proof -
  obtain mp where mp: "month_start mp \<le> doy" "doy < month_start (Suc mp)" using month_exists .
  have "month_start 12 = 367" by (simp add: month_start_def)
  show ?thesis
  proof (cases "mp < 11")
    case True
    note len = month_lengths [OF True]
    show ?thesis
    proof (cases "Suc doy < month_start (Suc mp)")
      case True
      then show ?thesis
        using mp len month_day_at [OF mp] month_day_at [of mp "Suc doy"]
        by (simp add: date_of_def Suc_diff_le)
    next
      case False
      then have eq: "Suc doy = month_start (Suc mp)" using mp(2) by simp
      have "month_start (Suc mp) < month_start (Suc (Suc mp))"
        using month_start_bounds [of "Suc mp"] month_start_bounds [of "Suc (Suc mp)"] by simp
      then show ?thesis
        using mp len eq month_day_at [OF mp] month_day_at [of "Suc mp" "Suc doy"]
        by (simp add: date_of_def Suc_diff_le split: if_splits)
    qed
  next
    case False
    have "5 * doy + 2 < 153 * 12" using assms by (auto split: if_splits)
    moreover have "153 * mp \<le> 5 * doy + 2" using month_start_bounds [of mp] mp(1) by linarith
    ultimately have "mp = 11" using False by linarith
    then have "month_day doy = (2, doy - 337 + 1)" "337 \<le> doy" "month_day (Suc doy) = (2, Suc doy - 337 + 1)"
      using mp month_day_at [OF mp] month_day_at [of mp "Suc doy"] assms
      by (auto simp: month_no_def month_start_def split: if_splits)
    then show ?thesis using assms by (auto simp: date_of_def month_days_def)
  qed
qed

lemma next_day_new_year:
  "date_of (Suc y) 0 = next_day (date_of y (if leap (Suc y) then 365 else 364))"
  by (simp add: date_of_def month_day_def month_days_def)

lemma days_to_ymd_Suc: "days_to_ymd (Suc n) = next_day (days_to_ymd n)"
proof -
  define era doe where "era = (n + 719468) div 146097" and "doe = (n + 719468) mod 146097"
  have n: "n + 719468 = 146097 * era + doe" "doe < 146097" by (simp_all add: era_def doe_def)
  obtain y where y: "y < 400" "year_start y \<le> doe" "doe \<le> last_day y"
    using year_exists [OF n(2)] .
  let ?Y = "y + era * 400" and ?L = "if leap (Suc (y + era * 400)) then 365 else 364"
  have L: "last_day y - year_start y = ?L"
    using year_length(1) [OF y(1)] leap_era [of y era] by (simp add: mult.commute)
  have d: "days_to_ymd n = date_of ?Y (doe - year_start y)" by (rule days_to_ymd_date [OF n(1) y])
  consider "doe < last_day y" | "doe = last_day y" "y < 399" | "doe = last_day y" "y = 399"
    using y by linarith
  then show ?thesis
  proof cases
    case 1
    then have "days_to_ymd (Suc n) = date_of ?Y (Suc doe - year_start y)"
      using n(1) y by (intro days_to_ymd_date) auto
    moreover have "doe - year_start y < ?L" using 1 y(2) L by linarith
    ultimately show ?thesis using next_day_same_year d y(2) by (simp add: Suc_diff_le)
  next
    case 2
    then have "year_start (Suc y) = Suc doe" using year_length(2) [OF y(1)] by simp
    then have "days_to_ymd (Suc n) = date_of (Suc y + era * 400) (Suc doe - year_start (Suc y))"
      using n(1) 2 year_length(1) [of "Suc y"] by (intro days_to_ymd_date) auto
    then show ?thesis using next_day_new_year [of ?Y] d L 2(1) \<open>year_start (Suc y) = Suc doe\<close> by simp
  next
    case 3
    then have "days_to_ymd (Suc n) = date_of (0 + Suc era * 400) (0 - year_start 0)"
      using n(1) by (intro days_to_ymd_date) (auto simp: last_day_def year_start_def)
    then show ?thesis using next_day_new_year [of ?Y] d L 3 by simp
  qed
qed


section \<open>Hexadecimal numbers\<close>

lemma hex_digit_inj: "a < 16 \<Longrightarrow> b < 16 \<Longrightarrow> hex_digit a = hex_digit b \<longleftrightarrow> a = b"
  unfolding hex_digit_def by (rule nth_eq_iff_index_eq) simp_all

lemma show_hex_not_Nil [simp]: "show_hex n \<noteq> []"
  by (subst show_hex.simps) simp

lemma show_hex_inj: "show_hex m = show_hex n \<longleftrightarrow> m = n"
proof
  assume "show_hex m = show_hex n"
  then show "m = n"
  proof (induction m arbitrary: n rule: show_hex.induct)
    case (1 m)
    show ?case
    proof (cases "m < 16"; cases "n < 16")
      assume "\<not> m < 16" "\<not> n < 16"
      then have "show_hex (m div 16) = show_hex (n div 16)" "m mod 16 = n mod 16"
        using "1.prems" by (simp_all add: show_hex.simps [of m] show_hex.simps [of n] hex_digit_inj)
      with "1.IH" [OF \<open>\<not> m < 16\<close>] show ?thesis by (metis div_mult_mod_eq)
    qed (use "1.prems" in \<open>simp_all add: show_hex.simps [of m] show_hex.simps [of n] hex_digit_inj append_eq_Cons_conv Cons_eq_append_conv\<close>)
  qed
qed simp


section \<open>Properties\<close>

text \<open>
  (C32) The date of a day is right: \<^verbatim>\<open>days_to_ymd\<close> gives the date that counting
  day by day from 1 January 1970 gives, by the lengths of the months and the leap years of the
  Gregorian calendar.
\<close>

theorem days_to_ymd_calendar: "days_to_ymd n = (next_day ^^ n) (1970, 1, 1)"
proof (induction n)
  case 0
  have "days_to_ymd 0 = date_of (369 + 4 * 400) (135080 - year_start 369)"
    by (rule days_to_ymd_date) (simp_all add: year_start_def last_day_def)
  then show ?case by (simp add: year_start_def date_of_def month_day_def)
next
  case (Suc n)
  then show ?case by (simp only: days_to_ymd_Suc funpow.simps comp_apply)
qed

text \<open>
  Suffixes drawn at the same nanosecond differ exactly when their counters do. Across
  nanoseconds two different draws can give the same suffix, since the two numbers are printed
  without a separator and without padding.
\<close>

theorem rand_suffix_unique:
  "(rand_suffix nanos seq = rand_suffix nanos seq' \<longleftrightarrow> seq = seq') \<and>
   rand_suffix 18 3 = rand_suffix 1 35"
proof
  show "rand_suffix nanos seq = rand_suffix nanos seq' \<longleftrightarrow> seq = seq'"
    by (simp add: rand_suffix_def show_hex_inj word_unat_eq_iff)
  show "rand_suffix 18 3 = rand_suffix 1 35"
    by (simp add: rand_suffix_def show_hex.simps [of 18] show_hex.simps [of 1] show_hex.simps [of "Suc 0"]
      show_hex.simps [of 3] show_hex.simps [of 35] show_hex.simps [of 2])
qed

end
