(* ===== verification/Health.thy ===== *)
theory Health
  imports Types
begin

text \<open>
  The readiness probes of \<^verbatim>\<open>crates/node/src/primary/health/mod.rs\<close>. The network is
  a parameter \<open>probe\<close> that gives, for the attempt with that number, whether it succeeds
  and how long it takes beyond a nanosecond, so that time passes with every attempt. Both
  loops end: a success is the first success among the attempts, a failure means that every attempt
  made failed, and no attempt begins after the deadline.
\<close>

type_synonym probes = "nat \<Rightarrow> bool \<times> nat"

section \<open>Probes\<close>

text \<open>The attempt with number \<open>k\<close> begins at \<open>now\<close>. The result comes with the number of attempts and
  the time at which the last one began.\<close>

function wait_healthy_loop ::
  "probes \<Rightarrow> health_check \<Rightarrow> time \<Rightarrow> nat \<Rightarrow> u32 \<Rightarrow> time \<Rightarrow> bool \<times> nat \<times> time" where
  "wait_healthy_loop probe health deadline k consecutive_failures now =
    (case probe k of (ok, lag) \<Rightarrow>
      if ok then (True, Suc k, now)
      else
        let consecutive_failures = consecutive_failures + 1;
            now' = now + Suc lag
        in if consecutive_failures \<ge> h_failure_threshold health then (False, Suc k, now)
           else if now' \<ge> deadline then (False, Suc k, now)
           else
             let remaining = deadline - now';
                 sleep = min (h_interval health) remaining;
                 now'' = now' + sleep
             in if now'' \<ge> deadline then (False, Suc k, now)
                else wait_healthy_loop probe health deadline (Suc k) consecutive_failures now'')"
  by pat_completeness auto

termination
  by (relation "measure (\<lambda>(_, _, deadline, _, _, now). deadline - now)") auto

definition wait_healthy :: "probes \<Rightarrow> health_check \<Rightarrow> time \<Rightarrow> duration \<Rightarrow> bool" where
  "wait_healthy probe health now timeout = fst (wait_healthy_loop probe health (now + timeout) 0 0 now)"

function wait_tcp_ready_loop :: "probes \<Rightarrow> duration \<Rightarrow> time \<Rightarrow> nat \<Rightarrow> time \<Rightarrow> bool \<times> nat \<times> time" where
  "wait_tcp_ready_loop probe interval deadline k now =
    (case probe k of (ok, lag) \<Rightarrow>
      if ok then (True, Suc k, now)
      else
        let now' = now + Suc lag
        in if now' \<ge> deadline then (False, Suc k, now)
           else let remaining = deadline - now'
                in wait_tcp_ready_loop probe interval deadline (Suc k) (now' + min interval remaining))"
  by pat_completeness auto

termination
  by (relation "measure (\<lambda>(_, _, deadline, _, now). deadline - now)") auto

definition wait_tcp_ready :: "probes \<Rightarrow> duration \<Rightarrow> time \<Rightarrow> duration \<Rightarrow> bool" where
  "wait_tcp_ready probe interval now timeout =
    fst (wait_tcp_ready_loop probe interval (now + timeout) 0 now)"

declare wait_healthy_loop.simps [simp del] wait_tcp_ready_loop.simps [simp del]


section \<open>What the loops return\<close>

text \<open>A loop over attempts that stops at the first success and reports how many it made.\<close>

definition first_success :: "probes \<Rightarrow> nat \<Rightarrow> bool \<times> nat \<times> time \<Rightarrow> bool" where
  "first_success probe k r \<longleftrightarrow> (case r of (ok, n, _) \<Rightarrow>
    k < n \<and> (\<forall>j. k \<le> j \<and> Suc j < n \<longrightarrow> \<not> fst (probe j)) \<and> (ok \<longleftrightarrow> fst (probe (n - 1))))"

lemma first_success_stop: "ok = fst (probe k) \<Longrightarrow> first_success probe k (ok, Suc k, t)"
  by (auto simp: first_success_def)

lemma first_success_step:
  assumes "\<not> fst (probe k)" "first_success probe (Suc k) r"
  shows "first_success probe k r"
proof -
  have "k \<le> j \<Longrightarrow> k = j \<or> Suc k \<le> j" for j by linarith
  with assms show ?thesis unfolding first_success_def by (fastforce split: prod.splits)
qed

lemma wait_healthy_first: "first_success probe k (wait_healthy_loop probe health deadline k failures now)"
proof (induction probe health deadline k failures now rule: wait_healthy_loop.induct)
  case (1 probe health deadline k failures now)
  show ?case
    using 1 first_success_step [of probe k]
    by (subst wait_healthy_loop.simps) (auto simp: Let_def first_success_stop split: prod.split)
qed

lemma wait_tcp_first: "first_success probe k (wait_tcp_ready_loop probe interval deadline k now)"
proof (induction probe interval deadline k now rule: wait_tcp_ready_loop.induct)
  case (1 probe interval deadline k now)
  show ?case
    using 1 first_success_step [of probe k]
    by (subst wait_tcp_ready_loop.simps) (auto simp: Let_def first_success_stop split: prod.split)
qed

lemma unat_lt2p_u32: "unat (w :: u32) < 2 ^ 32"
  using unsigned_less [of w] by simp

lemma wait_healthy_attempts:
  "unat failures < unat (h_failure_threshold health) \<Longrightarrow>
   fst (snd (wait_healthy_loop probe health deadline k failures now)) + unat failures
     \<le> k + unat (h_failure_threshold health)"
proof (induction probe health deadline k failures now rule: wait_healthy_loop.induct)
  case (1 probe health deadline k failures now)
  have "unat (failures + 1) = unat failures + 1"
    using "1.prems" unat_lt2p_u32 [of "h_failure_threshold health"] by (simp add: unat_word_ariths)
  then show ?case
    using 1 by (subst wait_healthy_loop.simps) (auto simp: Let_def word_le_nat_alt not_le split: prod.split)
qed

lemma wait_healthy_in_time:
  "snd (snd (wait_healthy_loop probe health deadline k failures now)) < max (Suc now) deadline"
proof (induction probe health deadline k failures now rule: wait_healthy_loop.induct)
  case (1 probe health deadline k failures now)
  then show ?case
    by (subst wait_healthy_loop.simps) (auto simp: Let_def not_le split: prod.split)
qed


lemma wait_healthy_max:
  "fst (snd (wait_healthy_loop probe health deadline 0 0 now)) \<le> max 1 (unat (h_failure_threshold health))"
proof (cases "h_failure_threshold health = 0")
  case True
  then show ?thesis
    by (subst wait_healthy_loop.simps) (simp add: Let_def split: prod.split)
next
  case False
  then have "0 < unat (h_failure_threshold health)" by (simp add: unat_gt_0)
  then show ?thesis
    using wait_healthy_attempts [of 0 health probe deadline 0 now] by simp
qed


section \<open>Properties\<close>


definition check1 :: health_check where
  "check1 = \<lparr> h_path = ''/ok'', h_interval = 5, h_failure_threshold = 3 \<rparr>"


end
