(* ===== verification/Text.thy ===== *)
theory Text
  imports Types Strings Util
begin

text \<open>
  Parts of the standard library that the node prints and reads with: the textual form of IP and
  socket addresses, and the validation of UTF-8 with its error messages. A string that has been
  validated reads back as its bytes.
\<close>

unbundle bit_operations_syntax

section \<open>Addresses\<close>

definition v4_octets :: "32 word \<Rightarrow> nat list" where
  "v4_octets w = map (\<lambda>i. unat (drop_bit i w AND 0xFF)) [24, 16, 8, 0]"

definition show_v4 :: "32 word \<Rightarrow> string" where
  "show_v4 w = join_with ''.'' (map show_nat (v4_octets w))"

definition v6_segments :: "128 word \<Rightarrow> nat list" where
  "v6_segments w = map (\<lambda>i. unat (drop_bit i w AND 0xFFFF)) [112, 96, 80, 64, 48, 32, 16, 0]"

text \<open>The first of the longest runs of zeros, as its start and its length.\<close>

fun zero_run :: "nat \<Rightarrow> nat list \<Rightarrow> nat \<times> nat \<Rightarrow> nat \<times> nat \<Rightarrow> nat \<times> nat" where
  "zero_run i [] current longest = longest"
| "zero_run i (s # segs) (start, len) longest =
    (if s = 0
     then let current = (if len = 0 then i else start, len + 1)
          in zero_run (Suc i) segs current (if snd current > snd longest then current else longest)
     else zero_run (Suc i) segs (0, 0) longest)"

definition show_segments :: "nat list \<Rightarrow> string" where
  "show_segments segs = join_with '':'' (map show_hex segs)"

definition show_v6 :: "128 word \<Rightarrow> string" where
  "show_v6 w =
    (let segs = v6_segments w
     in if take 6 segs = [0, 0, 0, 0, 0, 0xFFFF] then ''::ffff:'' @ show_v4 (ucast w)
        else case zero_run 0 segs (0, 0) (0, 0) of (start, len) \<Rightarrow>
          if len > 1 then show_segments (take start segs) @ ''::'' @ show_segments (drop (start + len) segs)
          else show_segments segs)"

fun show_ip :: "ip_addr \<Rightarrow> string" where
  "show_ip (V4 w) = show_v4 w"
| "show_ip (V6 w) = show_v6 w"

fun show_socket_addr :: "socket_addr \<Rightarrow> string" where
  "show_socket_addr a =
    (case sa_ip a of
       V4 w \<Rightarrow> show_v4 w @ '':'' @ show_word (sa_port a)
     | V6 w \<Rightarrow> ''['' @ show_v6 w @ '']:'' @ show_word (sa_port a))"


section \<open>UTF-8\<close>

definition continuation :: "nat \<Rightarrow> bool" where
  "continuation b \<longleftrightarrow> 0x80 \<le> b \<and> b \<le> 0xBF"

text \<open>The bytes that may follow the first byte of a sequence of two, three or four.\<close>

definition second_ok :: "nat \<Rightarrow> nat \<Rightarrow> bool" where
  "second_ok a b \<longleftrightarrow>
    (if a = 0xE0 then 0xA0 \<le> b \<and> b \<le> 0xBF
     else if a = 0xED then 0x80 \<le> b \<and> b \<le> 0x9F
     else if a = 0xF0 then 0x90 \<le> b \<and> b \<le> 0xBF
     else if a = 0xF4 then 0x80 \<le> b \<and> b \<le> 0x8F
     else continuation b)"

definition utf8_width :: "nat \<Rightarrow> nat" where
  "utf8_width a =
    (if a < 0x80 then 1
     else if 0xC2 \<le> a \<and> a \<le> 0xDF then 2
     else if 0xE0 \<le> a \<and> a \<le> 0xEF then 3
     else if 0xF0 \<le> a \<and> a \<le> 0xF4 then 4
     else 0)"

text \<open>
  The length of the valid sequence at the front of the bytes, or the error: how many bytes are
  invalid, none if the bytes end inside of a sequence.
\<close>

fun utf8_front :: "nat list \<Rightarrow> (nat option, nat) result" where
  "utf8_front [] = Inr 0"
| "utf8_front (a # bs) =
    (if utf8_width a = 1 then Inr 1
     else if utf8_width a = 0 then Inl (Some 1)
     else case bs of
       [] \<Rightarrow> Inl None
     | b # cs \<Rightarrow>
        if \<not> second_ok a b then Inl (Some 1)
        else if utf8_width a = 2 then Inr 2
        else case cs of
          [] \<Rightarrow> Inl None
        | c # ds \<Rightarrow>
           if \<not> continuation c then Inl (Some 2)
           else if utf8_width a = 3 then Inr 3
           else case ds of
             [] \<Rightarrow> Inl None
           | d # es \<Rightarrow> if \<not> continuation d then Inl (Some 3) else Inr 4)"

lemma utf8_front_bounds: "utf8_front (a # bs) = Inr n \<Longrightarrow> 0 < n"
  by (auto split: if_splits list.splits)

text \<open>The index at which validation fails, with the number of invalid bytes.\<close>

function utf8_check :: "nat \<Rightarrow> nat list \<Rightarrow> (nat \<times> nat option, unit) result" where
  "utf8_check i [] = Inr ()"
| "utf8_check i (a # bs) =
    (case utf8_front (a # bs) of
       Inl len \<Rightarrow> Inl (i, len)
     | Inr n \<Rightarrow> utf8_check (i + n) (drop n (a # bs)))"
  by pat_completeness auto

termination
  by (relation "measure (\<lambda>(_, bs). length bs)") (auto dest: utf8_front_bounds simp del: utf8_front.simps)

definition show_utf8_error :: "nat \<times> nat option \<Rightarrow> string" where
  "show_utf8_error e =
    (case e of
       (i, Some len) \<Rightarrow> ''invalid utf-8 sequence of '' @ show_nat len @ '' bytes from index '' @ show_nat i
     | (i, None) \<Rightarrow> ''incomplete utf-8 byte sequence from index '' @ show_nat i)"

text \<open>\<^verbatim>\<open>String::from_utf8\<close>. A string is the list of its bytes.\<close>

definition from_utf8 :: "bytes \<Rightarrow> (string, string) result" where
  "from_utf8 bs =
    (case utf8_check 0 (map unat bs) of
       Inl e \<Rightarrow> Inl (show_utf8_error e)
     | Inr _ \<Rightarrow> Inr (map (\<lambda>b. char_of (unat b)) bs))"

definition as_bytes :: "string \<Rightarrow> bytes" where
  "as_bytes s = map (\<lambda>c. word_of_nat (of_char c)) s"


section \<open>Facts\<close>

lemma from_utf8_bytes: "from_utf8 bs = Inr s \<Longrightarrow> as_bytes s = bs"
proof -
  assume "from_utf8 bs = Inr s"
  then have s: "s = map (\<lambda>b. char_of (unat b)) bs"
    by (auto simp: from_utf8_def split: sum.splits)
  have "word_of_nat (of_char (char_of (unat b) :: char)) = b" for b :: "8 word"
    using unsigned_less [of b, where ?'a = nat] by simp
  then show ?thesis unfolding s as_bytes_def by (simp add: comp_def)
qed

lemma utf8_ascii: "list_all (\<lambda>b. b < 0x80) bs \<Longrightarrow> utf8_check i bs = Inr ()"
  by (induction i bs rule: utf8_check.induct) (auto simp: utf8_width_def)

end
