(* ===== verification/Effects.thy ===== *)
theory Effects
  imports Fsm Rpc Util Health Text
begin

text \<open>
  The effects of the tasks that run on the primary. A task acts on the replicated state through
  \<^verbatim>\<open>MillRaft::propose\<close>, on the nodes through \<^verbatim>\<open>CommandRouter\<close>,
  on cloud volumes through the \<^verbatim>\<open>Volumes\<close> trait and on its client through a channel of
  events. A world holds the state, the actions of the task so far and a clock that counts them.
  The environment gives for each clock value what the task meets there: the commands that others
  commit before the task goes on, the errors of the calls, the routes at that moment, and what the
  wait of the task sees until its deadline. A statement for every environment is one for every
  interleaving with the other tasks and every pattern of failures.

  A call that fails in Raft may have been committed all the same. Reading the state is not an
  action: \<^verbatim>\<open>read_state\<close> holds the lock and does not wait. Two reads with no await between
  them are taken to see the same state, although another thread may commit in that instant.
\<close>

section \<open>Errors of a deployment\<close>

datatype deploy_error =
    SchedulingFailed string u32
  | HealthCheckTimeout string
  | EnvResolution string
  | ValidationFailed string
  | DNode node_error
  | DStorage storage_error

fun show_deploy_error :: "deploy_error \<Rightarrow> string" where
  "show_deploy_error (SchedulingFailed service replica) =
    ''scheduling failed for '' @ service @ '', replica '' @ show_word replica @ '': no nodes available''"
| "show_deploy_error (HealthCheckTimeout service) = ''health check timeout for '' @ service"
| "show_deploy_error (EnvResolution m) = ''failed to resolve env var: '' @ m"
| "show_deploy_error (ValidationFailed m) = ''deploy validation failed: '' @ m"
| "show_deploy_error (DNode e) = show_node_error e"
| "show_deploy_error (DStorage e) = show_storage_error e"


section \<open>Worlds\<close>

datatype json = JStr string | JBool bool | JNum f64

datatype action =
    AEvent string "(string \<times> json) list"
  | APropose command
  | ASend node_id node_command
  | ABroadcast node_command
  | ACreate string byte_size
  | AAttach string string
  | ADetach string
  | ADestroy string
  | AAddPeer node_id string
  | ARemovePeer string

record world =
  w_fsm :: fsm_state
  w_clock :: nat
  w_trace :: "action list"

record outcome =
  oc_others :: "command list"
  oc_raft_error :: "string option"
  oc_committed :: bool
  oc_router :: command_router
  oc_gone :: "nat \<Rightarrow> bool"
  oc_storage_error :: "storage_error option"
  oc_cloud_id :: string
  oc_batches :: "command list list"
  oc_probe :: probes
  oc_time :: time
  oc_nanos :: nat
  oc_seq :: u64

type_synonym env = "nat \<Rightarrow> outcome"

definition now_outcome :: "env \<Rightarrow> world \<Rightarrow> outcome" where
  "now_outcome env w = env (w_clock w)"

text \<open>An action: others go first, then the clock moves.\<close>

definition tick :: "env \<Rightarrow> action list \<Rightarrow> world \<Rightarrow> world" where
  "tick env as w = w\<lparr> w_fsm := apply_all (oc_others (now_outcome env w)) (w_fsm w),
     w_clock := Suc (w_clock w), w_trace := w_trace w @ as \<rparr>"

definition propose :: "env \<Rightarrow> command \<Rightarrow> world \<Rightarrow> (node_error, response) result \<times> world" where
  "propose env c w =
    (let oc = now_outcome env w;
         w' = tick env [APropose c] w;
         (s, r) = apply_command (w_fsm w') c
     in case oc_raft_error oc of
          None \<Rightarrow> (Inr r, w'\<lparr> w_fsm := s \<rparr>)
        | Some e \<Rightarrow> (Inl (NRaft e), if oc_committed oc then w'\<lparr> w_fsm := s \<rparr> else w'))"

definition send_command :: "env \<Rightarrow> node_id \<Rightarrow> node_command \<Rightarrow> world \<Rightarrow> (node_error, unit) result \<times> world" where
  "send_command env node_id cmd w =
    (let oc = now_outcome env w
     in (map_sum id (\<lambda>_. ()) (router_send (oc_gone oc) (oc_router oc) node_id),
         tick env [ASend node_id cmd] w))"

definition broadcast_command :: "env \<Rightarrow> node_command \<Rightarrow> world \<Rightarrow> (node_error, unit) result \<times> world" where
  "broadcast_command env cmd w =
    (let oc = now_outcome env w
     in (snd (router_broadcast (oc_gone oc) (oc_router oc)), tick env [ABroadcast cmd] w))"

definition send_json_event :: "env \<Rightarrow> string \<Rightarrow> (string \<times> json) list \<Rightarrow> world \<Rightarrow> world" where
  "send_json_event env event data w = tick env [AEvent event data] w"

definition driver_create :: "env \<Rightarrow> string \<Rightarrow> byte_size \<Rightarrow> world \<Rightarrow> (storage_error, string) result \<times> world" where
  "driver_create env name sz w =
    (let oc = now_outcome env w
     in (case oc_storage_error oc of None \<Rightarrow> Inr (oc_cloud_id oc) | Some e \<Rightarrow> Inl e,
         tick env [ACreate name sz] w))"

definition driver_attach :: "env \<Rightarrow> string \<Rightarrow> string \<Rightarrow> world \<Rightarrow> (storage_error, unit) result \<times> world" where
  "driver_attach env name instance_id w =
    (let oc = now_outcome env w
     in (case oc_storage_error oc of None \<Rightarrow> Inr () | Some e \<Rightarrow> Inl e, tick env [AAttach name instance_id] w))"

definition driver_detach :: "env \<Rightarrow> string \<Rightarrow> world \<Rightarrow> (storage_error, unit) result \<times> world" where
  "driver_detach env name w =
    (let oc = now_outcome env w
     in (case oc_storage_error oc of None \<Rightarrow> Inr () | Some e \<Rightarrow> Inl e, tick env [ADetach name] w))"

definition elapsed :: "env \<Rightarrow> time \<Rightarrow> world \<Rightarrow> f64" where
  "elapsed env started w = as_secs_f64 (oc_time (now_outcome env w) - started)"

definition draw_suffix :: "env \<Rightarrow> world \<Rightarrow> string \<times> world" where
  "draw_suffix env w =
    (let oc = now_outcome env w in (rand_suffix (oc_nanos oc) (oc_seq oc), tick env [] w))"

text \<open>
  A wait on changes of the state: it looks at the state, and again after every batch of commands
  that others commit, until the answer is there or the deadline has passed.
\<close>

fun wait_loop :: "(fsm_state \<Rightarrow> 'a option) \<Rightarrow> command list list \<Rightarrow> fsm_state \<Rightarrow> 'a option \<times> fsm_state" where
  "wait_loop look [] s = (look s, s)"
| "wait_loop look (cmds # batches) s =
    (case look s of
       Some a \<Rightarrow> (Some a, s)
     | None \<Rightarrow> wait_loop look batches (apply_all cmds s))"

definition wait_state :: "env \<Rightarrow> (fsm_state \<Rightarrow> 'a option) \<Rightarrow> world \<Rightarrow> 'a option \<times> world" where
  "wait_state env look w =
    (case wait_loop look (oc_batches (now_outcome env w)) (w_fsm w) of
       (r, s) \<Rightarrow> (r, (tick env [] (w\<lparr> w_fsm := s \<rparr>))))"


section \<open>Sequencing\<close>

text \<open>The \<^verbatim>\<open>?\<close> of Rust: the next step runs on a result, an error ends the function.\<close>

definition and_then ::
  "(world \<Rightarrow> ('e, 'a) result \<times> world) \<Rightarrow> ('a \<Rightarrow> world \<Rightarrow> ('e, 'b) result \<times> world) \<Rightarrow>
   world \<Rightarrow> ('e, 'b) result \<times> world" where
  "and_then m f w = (case m w of (Inl e, w') \<Rightarrow> (Inl e, w') | (Inr a, w') \<Rightarrow> f a w')"

definition with_err :: "('e \<Rightarrow> 'f) \<Rightarrow> (world \<Rightarrow> ('e, 'a) result \<times> world) \<Rightarrow> world \<Rightarrow> ('f, 'a) result \<times> world" where
  "with_err g m w = (case m w of (r, w') \<Rightarrow> (map_sum g id r, w'))"

text \<open>A step that cannot fail, and a value read from the state.\<close>

definition quiet :: "(world \<Rightarrow> world) \<Rightarrow> world \<Rightarrow> ('e, unit) result \<times> world" where
  "quiet f w = (Inr (), f w)"

definition reading :: "(fsm_state \<Rightarrow> ('e, 'a) result) \<Rightarrow> world \<Rightarrow> ('e, 'a) result \<times> world" where
  "reading f w = (f (w_fsm w), w)"

fun for_each ::
  "('a \<Rightarrow> world \<Rightarrow> ('e, unit) result \<times> world) \<Rightarrow> 'a list \<Rightarrow> world \<Rightarrow> ('e, unit) result \<times> world" where
  "for_each f [] w = (Inr (), w)"
| "for_each f (x # xs) w = (case f x w of (Inl e, w') \<Rightarrow> (Inl e, w') | (Inr _, w') \<Rightarrow> for_each f xs w')"

text \<open>A call whose result is dropped, \<^verbatim>\<open>let _ = ...\<close>.\<close>

definition ignored :: "(world \<Rightarrow> 'r \<times> world) \<Rightarrow> world \<Rightarrow> world" where
  "ignored m w = snd (m w)"



section \<open>What a task does\<close>

text \<open>
  A step of a task extends the trace by actions of a given kind, moves the state by commands, and
  never turns the clock back. The rules \<open>does\<close> reduce a task to its calls.
\<close>

named_theorems does \<open>which actions a task takes\<close>

definition evolves :: "(action \<Rightarrow> bool) \<Rightarrow> world \<Rightarrow> world \<Rightarrow> bool" where
  "evolves P w w' \<longleftrightarrow> (\<exists>as. w_trace w' = w_trace w @ as \<and> list_all P as) \<and>
    (\<exists>cmds. w_fsm w' = apply_all cmds (w_fsm w)) \<and> w_clock w \<le> w_clock w'"

definition does :: "(action \<Rightarrow> bool) \<Rightarrow> (world \<Rightarrow> 'r \<times> world) \<Rightarrow> bool" where
  "does P m \<longleftrightarrow> (\<forall>w. evolves P w (snd (m w)))"

lemma apply_all_Nil [simp]: "apply_all [] s = s"
  by (simp add: apply_all_def)

lemma apply_all_append: "apply_all (cs @ ds) s = apply_all ds (apply_all cs s)"
  by (simp add: apply_all_def)

lemma apply_all_single: "fst (apply_command s c) = apply_all [c] s"
  by (simp add: apply_all_def)

lemma evolves_refl [simp]: "evolves P w w"
  unfolding evolves_def by (auto intro: exI [of _ "[]"])

lemma evolves_trans: "evolves P w w' \<Longrightarrow> evolves P w' w'' \<Longrightarrow> evolves P w w''"
  unfolding evolves_def
  by (metis append.assoc apply_all_append le_trans list_all_append)

lemma evolves_mono: "evolves P w w' \<Longrightarrow> (\<And>a. P a \<Longrightarrow> Q a) \<Longrightarrow> evolves Q w w'"
  unfolding evolves_def by (auto simp: list_all_iff)

lemma tick_simps [simp]:
  "w_clock (tick env as w) = Suc (w_clock w)"
  "w_trace (tick env as w) = w_trace w @ as"
  "w_fsm (tick env as w) = apply_all (oc_others (now_outcome env w)) (w_fsm w)"
  by (simp_all add: tick_def)

lemma evolves_tick: "list_all P as \<Longrightarrow> evolves P w (tick env as w)"
  unfolding evolves_def by auto

lemma evolves_fsm: "evolves P w w' \<Longrightarrow> s = fst (apply_command (w_fsm w') c) \<Longrightarrow> evolves P w (w'\<lparr> w_fsm := s \<rparr>)"
  unfolding evolves_def apply_all_single by (auto simp flip: apply_all_append)

lemma doesI: "(\<And>w. evolves P w (snd (m w))) \<Longrightarrow> does P m"
  by (simp add: does_def)

lemma doesD: "does P m \<Longrightarrow> m w = (r, w') \<Longrightarrow> evolves P w w'"
  by (metis does_def snd_conv)

lemma does_mono: "does P m \<Longrightarrow> (\<And>a. P a \<Longrightarrow> Q a) \<Longrightarrow> does Q m"
  unfolding does_def by (blast intro: evolves_mono)

lemma propose_eq:
  "propose env c w =
    (case oc_raft_error (now_outcome env w) of
       None \<Rightarrow> (Inr (snd (apply_command (w_fsm (tick env [APropose c] w)) c)),
               (tick env [APropose c] w)\<lparr> w_fsm := fst (apply_command (w_fsm (tick env [APropose c] w)) c) \<rparr>)
     | Some e \<Rightarrow> (Inl (NRaft e),
         if oc_committed (now_outcome env w)
         then (tick env [APropose c] w)\<lparr> w_fsm := fst (apply_command (w_fsm (tick env [APropose c] w)) c) \<rparr>
         else tick env [APropose c] w))"
  by (simp add: propose_def Let_def split: prod.splits option.splits)

lemma propose_trace [simp]: "w_trace (snd (propose env c w)) = w_trace w @ [APropose c]"
  by (simp add: propose_eq split: option.splits)

lemma propose_clock [simp]: "w_clock (snd (propose env c w)) = Suc (w_clock w)"
  by (simp add: propose_eq split: option.splits)

lemma does_propose [does]: "P (APropose c) \<Longrightarrow> does P (propose env c)"
  by (rule doesI) (auto simp: propose_eq split: option.splits intro!: evolves_fsm evolves_tick)

lemma does_send [does]: "P (ASend n c) \<Longrightarrow> does P (send_command env n c)"
  by (rule doesI) (simp add: send_command_def Let_def evolves_tick)

lemma does_broadcast [does]: "P (ABroadcast c) \<Longrightarrow> does P (broadcast_command env c)"
  by (rule doesI) (simp add: broadcast_command_def Let_def evolves_tick)

lemma does_create [does]: "P (ACreate n b) \<Longrightarrow> does P (driver_create env n b)"
  by (rule doesI) (simp add: driver_create_def Let_def evolves_tick)

lemma does_attach [does]: "P (AAttach n i) \<Longrightarrow> does P (driver_attach env n i)"
  by (rule doesI) (simp add: driver_attach_def Let_def evolves_tick)

lemma does_detach [does]: "P (ADetach n) \<Longrightarrow> does P (driver_detach env n)"
  by (rule doesI) (simp add: driver_detach_def Let_def evolves_tick)

lemma evolves_event: "P (AEvent e d) \<Longrightarrow> evolves P w (send_json_event env e d w)"
  by (simp add: send_json_event_def evolves_tick)

lemma does_draw [does]: "does P (draw_suffix env)"
  by (rule doesI) (simp add: draw_suffix_def Let_def evolves_tick)

lemma wait_loop_fsm: "\<exists>cmds. snd (wait_loop look batches s) = apply_all cmds s"
proof (induction look batches s rule: wait_loop.induct)
  case (2 look cmds batches s)
  show ?case
  proof (cases "look s")
    case None
    then show ?thesis using 2 by (auto simp flip: apply_all_append)
  qed (auto intro: exI [of _ "[]"])
qed (auto intro: exI [of _ "[]"])

lemma does_wait [does]: "does P (wait_state env look)"
proof (rule doesI)
  fix w
  obtain r s where rs: "wait_loop look (oc_batches (now_outcome env w)) (w_fsm w) = (r, s)" by force
  obtain cmds where "s = apply_all cmds (w_fsm w)"
    using wait_loop_fsm [of look "oc_batches (now_outcome env w)" "w_fsm w"] rs by auto
  then show "evolves P w (snd (wait_state env look w))"
    by (auto simp: wait_state_def rs evolves_def simp flip: apply_all_append)
qed

lemma does_and_then [does]: "does P m \<Longrightarrow> (\<And>a. does P (f a)) \<Longrightarrow> does P (and_then m f)"
  unfolding does_def and_then_def
  by (auto split: prod.split sum.split) (metis evolves_trans snd_conv)+

lemma does_with_err [does]: "does P m \<Longrightarrow> does P (with_err g m)"
  unfolding does_def with_err_def by (simp split: prod.split) (metis snd_conv)

lemma does_quiet [does]: "(\<And>w. evolves P w (f w)) \<Longrightarrow> does P (quiet f)"
  by (simp add: does_def quiet_def)

lemma does_reading [does]: "does P (reading f)"
  by (simp add: does_def reading_def)

lemma does_for_each [does]: "(\<And>x. x \<in> set xs \<Longrightarrow> does P (f x)) \<Longrightarrow> does P (for_each f xs)"
proof (rule doesI)
  fix w
  assume "\<And>x. x \<in> set xs \<Longrightarrow> does P (f x)"
  then show "evolves P w (snd (for_each f xs w))"
  proof (induction xs arbitrary: w)
    case (Cons x xs)
    obtain r w' where r: "f x w = (r, w')" by force
    have "evolves P w w'" by (rule doesD [OF Cons.prems r]) simp
    then show ?case using Cons.IH [of w'] Cons.prems r by (auto split: sum.split intro: evolves_trans)
  qed simp
qed

lemma evolves_ignored: "does P m \<Longrightarrow> evolves P w (ignored m w)"
  by (simp add: does_def ignored_def)

lemma does_cases [does]:
  "(b \<Longrightarrow> does P m) \<Longrightarrow> (\<not> b \<Longrightarrow> does P n) \<Longrightarrow> does P (if b then m else n)"
  by simp

text \<open>An invariant of the state that every command keeps is kept by every task.\<close>

lemma evolves_inv: "evolves P w w' \<Longrightarrow> fsm_inv (w_fsm w) \<Longrightarrow> fsm_inv (w_fsm w')"
  unfolding evolves_def using apply_all_inv by metis


section \<open>The actions of a call\<close>

text \<open>
  A judgement on the actions of a call, for every environment and every state it may start from:
  \<open>logs Q m\<close> says that the call \<open>m\<close> extends the trace by actions that fit its result as
  \<open>Q\<close> demands.
\<close>

named_theorems logs \<open>the actions of a call, by its result\<close>

definition logs :: "('r \<Rightarrow> action list \<Rightarrow> bool) \<Rightarrow> (world \<Rightarrow> 'r \<times> world) \<Rightarrow> bool" where
  "logs Q m \<longleftrightarrow> (\<forall>w. \<exists>as. w_trace (snd (m w)) = w_trace w @ as \<and> Q (fst (m w)) as)"

lemma logsI: "(\<And>w. \<exists>as. w_trace (snd (m w)) = w_trace w @ as \<and> Q (fst (m w)) as) \<Longrightarrow> logs Q m"
  by (simp add: logs_def)

lemma logsD: "logs Q m \<Longrightarrow> m w = (r, w') \<Longrightarrow> \<exists>as. w_trace w' = w_trace w @ as \<and> Q r as"
  unfolding logs_def by (metis fst_conv snd_conv)

lemma logsE:
  assumes "logs Q m" "m w = (r, w')" "w_trace w' = w_trace w @ as"
  shows "Q r as"
  using logsD [OF assms(1,2)] assms(3) by auto

lemma logs_mono: "logs Q m \<Longrightarrow> (\<And>r as. Q r as \<Longrightarrow> R r as) \<Longrightarrow> logs R m"
  unfolding logs_def by blast

lemma logs_does: "does P m \<Longrightarrow> logs (\<lambda>r as. list_all P as) m"
  unfolding logs_def does_def evolves_def by blast

lemma logs_and_then:
  assumes "logs Q m" and "\<And>a. logs (R a) (f a)"
  shows "logs (\<lambda>r as. (\<exists>e. r = Inl e \<and> Q (Inl e) as) \<or>
      (\<exists>a bs cs. as = bs @ cs \<and> Q (Inr a) bs \<and> R a r cs)) (and_then m f)"
proof (rule logsI)
  fix w
  obtain r w' where m: "m w = (r, w')" by force
  obtain as where as: "w_trace w' = w_trace w @ as" "Q r as" using logsD [OF assms(1) m] by blast
  show "\<exists>as. w_trace (snd (and_then m f w)) = w_trace w @ as \<and>
      ((\<exists>e. fst (and_then m f w) = Inl e \<and> Q (Inl e) as) \<or>
       (\<exists>a bs cs. as = bs @ cs \<and> Q (Inr a) bs \<and> R a (fst (and_then m f w)) cs))"
  proof (cases r)
    case (Inl e)
    then show ?thesis using as by (auto simp: and_then_def m)
  next
    case (Inr a)
    obtain r2 w2 where f: "f a w' = (r2, w2)" by force
    obtain bs where "w_trace w2 = w_trace w' @ bs" "R a r2 bs" using logsD [OF assms(2) f] by blast
    then show ?thesis using as Inr f by (auto simp: and_then_def m)
  qed
qed

lemma logs_bind:
  assumes "logs Q m" and "\<And>a. logs (R a) (f a)"
    and "\<And>e as. Q (Inl e) as \<Longrightarrow> T (Inl e) as"
    and "\<And>a as r bs. Q (Inr a) as \<Longrightarrow> R a r bs \<Longrightarrow> T r (as @ bs)"
  shows "logs T (and_then m f)"
  by (rule logs_mono [OF logs_and_then [OF assms(1,2)]]) (use assms(3,4) in blast)

lemma logs_with_err: "logs (\<lambda>r. Q (map_sum g id r)) m \<Longrightarrow> logs Q (with_err g m)"
  unfolding logs_def with_err_def by (simp add: split_beta)

lemma logs_propose [logs]: "logs (\<lambda>r as. as = [APropose c]) (propose env c)"
  by (rule logsI) simp

lemma logs_send [logs]: "logs (\<lambda>r as. as = [ASend n c]) (send_command env n c)"
  by (rule logsI) (simp add: send_command_def Let_def)

lemma logs_wait [logs]: "logs (\<lambda>r as. as = []) (wait_state env look)"
  by (rule logsI) (simp add: wait_state_def split: prod.splits)

lemma logs_reading [logs]: "logs (\<lambda>r as. as = []) (reading f)"
  by (rule logsI) (simp add: reading_def)

lemma logs_event [logs]: "logs (\<lambda>r as. r = Inr () \<and> as = [AEvent e d]) (quiet (send_json_event env e d))"
  by (rule logsI) (simp add: quiet_def send_json_event_def)

lemma logs_with [logs]: "logs (\<lambda>r as. as = xs) m \<Longrightarrow> logs (\<lambda>r as. as = xs) (with_err g m)"
  by (rule logs_with_err)


text \<open>A call that takes all actions of a list when it succeeds and only some of the first ones when it fails.\<close>

fun cut_off :: "('e, 'a) result \<Rightarrow> action list \<Rightarrow> action list \<Rightarrow> bool" where
  "cut_off (Inr _) full as = (as = full)"
| "cut_off (Inl _) full as = (\<exists>bs. bs \<noteq> [] \<and> full = as @ bs)"

lemma cut_Cons [simp]: "cut_off r (x # full) (y # as) \<longleftrightarrow> x = y \<and> cut_off r full as"
  by (cases r) auto

lemma cut_Nil [simp]: "cut_off r full [] \<longleftrightarrow> (if is_ok r then full = [] else full \<noteq> [])"
  by (cases r) auto


section \<open>A task on its own\<close>

text \<open>No other task acts and every proposal is accepted.\<close>

definition undisturbed :: "env \<Rightarrow> bool" where
  "undisturbed env \<longleftrightarrow> (\<forall>k. oc_others (env k) = [] \<and> oc_raft_error (env k) = None)"

lemma undisturbed_propose:
  assumes "undisturbed env"
  shows "propose env c w = (Inr (snd (apply_command (w_fsm w) c)),
    (tick env [APropose c] w)\<lparr> w_fsm := fst (apply_command (w_fsm w) c) \<rparr>)"
  using assms by (simp add: undisturbed_def propose_eq now_outcome_def)

lemma undisturbed_others: "undisturbed env \<Longrightarrow> oc_others (now_outcome env w) = []"
  by (simp add: undisturbed_def now_outcome_def)

end
