(* ===== verification/Plan.thy ===== *)
theory Plan
  imports Effects Scheduler Validate
begin

text \<open>
  What a deployment decides before it acts, \<^verbatim>\<open>crates/node/src/primary/deploy\<close>: the
  plan (\<^verbatim>\<open>diff.rs\<close>), the checks of secrets and capacities
  (\<^verbatim>\<open>validate.rs\<close>) and the values of the environment variables
  (\<^verbatim>\<open>resolve_env\<close> in \<^verbatim>\<open>mod.rs\<close>). The plan partitions the services of
  both configurations, and the checks are shown equivalent to what they stand for.
\<close>

section \<open>The plan\<close>

text \<open>The derived equality of service definitions: floats, then maps whatever their order, then lists.\<close>

definition hm_eq :: "('v \<Rightarrow> 'v \<Rightarrow> bool) \<Rightarrow> ('k, 'v) hash_map \<Rightarrow> ('k, 'v) hash_map \<Rightarrow> bool" where
  "hm_eq eq m1 m2 \<longleftrightarrow> length m1 = length m2 \<and>
    list_all (\<lambda>(k, v). case hm_get m2 k of None \<Rightarrow> False | Some v' \<Rightarrow> eq v v') m1"

definition service_def_eq :: "service_def \<Rightarrow> service_def \<Rightarrow> bool" where
  "service_def_eq a b \<longleftrightarrow>
    s_image a = s_image b \<and> s_port a = s_port b \<and> s_replicas a = s_replicas b \<and>
    f64_eq (r_cpu (s_resources a)) (r_cpu (s_resources b)) \<and>
    r_memory (s_resources a) = r_memory (s_resources b) \<and>
    hm_eq (=) (s_env a) (s_env b) \<and> s_command a = s_command b \<and> s_health a = s_health b \<and>
    s_routes a = s_routes b \<and> s_volumes a = s_volumes b"

record deploy_plan =
  dp_added :: "(string \<times> service_def) list"
  dp_removed :: "string list"
  dp_changed :: "(string \<times> service_def) list"
  dp_unchanged :: "string list"

fun diff_loop ::
  "(string, service_def) hash_map option \<Rightarrow> (string \<times> service_def) list \<Rightarrow> deploy_plan \<Rightarrow> deploy_plan" where
  "diff_loop old_services [] plan = plan"
| "diff_loop old_services ((name, new_def) # rest) plan =
    (case Option.bind old_services (\<lambda>s. hm_get s name) of
       None \<Rightarrow> diff_loop old_services rest (plan\<lparr> dp_added := dp_added plan @ [(name, new_def)] \<rparr>)
     | Some old_def \<Rightarrow>
        if \<not> service_def_eq old_def new_def
        then diff_loop old_services rest (plan\<lparr> dp_changed := dp_changed plan @ [(name, new_def)] \<rparr>)
        else diff_loop old_services rest (plan\<lparr> dp_unchanged := dp_unchanged plan @ [name] \<rparr>))"

definition diff_config :: "cluster_config option \<Rightarrow> cluster_config \<Rightarrow> deploy_plan" where
  "diff_config old new =
    (let old_services = map_option c_services old;
         plan = diff_loop old_services (c_services new)
           \<lparr> dp_added = [], dp_removed = [], dp_changed = [], dp_unchanged = [] \<rparr>
     in plan\<lparr> dp_removed := (case old_services of
          None \<Rightarrow> []
        | Some services \<Rightarrow> filter (\<lambda>name. \<not> hm_has (c_services new) name) (hm_keys services)) \<rparr>)"


section \<open>Checks before a deployment\<close>

fun missing_in_parts :: "string set \<Rightarrow> string \<Rightarrow> env_part list \<Rightarrow> string list" where
  "missing_in_parts known cx [] = []"
| "missing_in_parts known cx (Secret name # parts) =
    (if name \<notin> known then (cx @ ''/'' @ name) # missing_in_parts known cx parts
     else missing_in_parts known cx parts)"
| "missing_in_parts known cx (_ # parts) = missing_in_parts known cx parts"

definition collect_missing_secrets :: "(string, env_value) hash_map \<Rightarrow> string set \<Rightarrow> string \<Rightarrow> string list" where
  "collect_missing_secrets envs known cx =
    concat (map (\<lambda>v. case v of ELiteral _ \<Rightarrow> [] | Interpolated parts \<Rightarrow> missing_in_parts known cx parts)
      (hm_values envs))"

definition validate_secret_refs :: "cluster_config \<Rightarrow> string set \<Rightarrow> (deploy_error, unit) result" where
  "validate_secret_refs config known =
    (let missing = concat (map (\<lambda>(name, d). collect_missing_secrets (s_env d) known name) (c_services config)) @
           concat (map (\<lambda>(name, d). collect_missing_secrets (t_env d) known name) (c_tasks config))
     in if missing = [] then Inr ()
        else Inl (ValidationFailed (''unknown secrets: '' @ join_with '', '' missing)))"

definition oversized :: "f64 \<Rightarrow> u64 \<Rightarrow> resources \<Rightarrow> bool" where
  "oversized max_cpu max_mem r \<longleftrightarrow> f64_lt max_cpu (r_cpu r) \<or> r_memory r > max_mem"

definition validate_resource_capacity :: "cluster_config \<Rightarrow> node_resources list \<Rightarrow> (deploy_error, unit) result" where
  "validate_resource_capacity config nodes =
    (if nodes = [] then Inl (ValidationFailed ''no ready nodes in cluster'')
     else
       let max_cpu = fold (\<lambda>n acc. f64_max acc (nr_cpu_total n)) nodes (Fin 0);
           max_mem = fold (\<lambda>n acc. max acc (nr_memory_total n)) nodes 0;
           large = map fst (filter (\<lambda>(_, d). oversized max_cpu max_mem (s_resources d)) (c_services config)) @
             map fst (filter (\<lambda>(_, d). oversized max_cpu max_mem (t_resources d)) (c_tasks config))
       in if large = [] then Inr ()
          else Inl (ValidationFailed (''resources exceed largest node capacity: '' @ join_with '', '' large)))"


section \<open>Environment variables\<close>

type_synonym decryptor = "bytes \<Rightarrow> bytes \<Rightarrow> (string, bytes) result"

text \<open>The address of some allocation of a service.\<close>

definition service_address :: "fsm_state \<Rightarrow> string \<Rightarrow> socket_addr option" where
  "service_address s service =
    (case List.map_filter al_address (list_service_allocs s service) of [] \<Rightarrow> None | a # _ \<Rightarrow> Some a)"

definition resolve_part :: "decryptor \<Rightarrow> fsm_state \<Rightarrow> env_part \<Rightarrow> (deploy_error, string) result" where
  "resolve_part decrypt s part =
    (case part of
       PLiteral l \<Rightarrow> Inr l
     | ServiceAddress service \<Rightarrow>
        (case service_address s service of
           None \<Rightarrow> Inl (EnvResolution (''no address for service '' @ quoted service))
         | Some addr \<Rightarrow> Inr (show_socket_addr addr))
     | Secret name \<Rightarrow>
        (case get_secret s name of
           None \<Rightarrow> Inl (EnvResolution (''secret '' @ quoted name @ '' not found''))
         | Some secret \<Rightarrow>
            (case decrypt (es_encrypted_value secret) (es_nonce secret) of
               Inl e \<Rightarrow> Inl (EnvResolution e)
             | Inr plaintext \<Rightarrow>
                (case from_utf8 plaintext of
                   Inl e \<Rightarrow> Inl (EnvResolution (''secret '' @ quoted name @ '' not utf8: '' @ e))
                 | Inr val \<Rightarrow> Inr val))))"

fun resolve_parts :: "decryptor \<Rightarrow> fsm_state \<Rightarrow> env_part list \<Rightarrow> string \<Rightarrow> (deploy_error, string) result" where
  "resolve_parts decrypt s [] result = Inr result"
| "resolve_parts decrypt s (part # parts) result =
    res_bind (resolve_part decrypt s part) (\<lambda>t. resolve_parts decrypt s parts (result @ t))"

fun resolve_env_value :: "decryptor \<Rightarrow> fsm_state \<Rightarrow> env_value \<Rightarrow> (deploy_error, string) result" where
  "resolve_env_value decrypt s (ELiteral l) = Inr l"
| "resolve_env_value decrypt s (Interpolated parts) = resolve_parts decrypt s parts []"

fun resolve_env_loop ::
  "decryptor \<Rightarrow> fsm_state \<Rightarrow> (string \<times> env_value) list \<Rightarrow> (string, string) hash_map \<Rightarrow>
   (deploy_error, (string, string) hash_map) result" where
  "resolve_env_loop decrypt s [] resolved = Inr resolved"
| "resolve_env_loop decrypt s ((key, value) # rest) resolved =
    res_bind (resolve_env_value decrypt s value) (\<lambda>val. resolve_env_loop decrypt s rest (hm_insert key val resolved))"

definition resolve_env ::
  "decryptor \<Rightarrow> fsm_state \<Rightarrow> (string, env_value) hash_map \<Rightarrow> (deploy_error, (string, string) hash_map) result" where
  "resolve_env decrypt s envs = resolve_env_loop decrypt s envs []"


section \<open>The plan partitions the services\<close>

definition old_def :: "cluster_config option \<Rightarrow> string \<Rightarrow> service_def option" where
  "old_def old name = Option.bind old (\<lambda>c. hm_get (c_services c) name)"

lemma diff_loop_eq:
  "diff_loop old services plan = plan\<lparr>
     dp_added := dp_added plan @ filter (\<lambda>(n, d). Option.bind old (\<lambda>s. hm_get s n) = None) services,
     dp_changed := dp_changed plan @ filter (\<lambda>(n, d). \<exists>d'. Option.bind old (\<lambda>s. hm_get s n) = Some d' \<and>
       \<not> service_def_eq d' d) services,
     dp_unchanged := dp_unchanged plan @ map fst (filter (\<lambda>(n, d). \<exists>d'. Option.bind old (\<lambda>s. hm_get s n) = Some d' \<and>
       service_def_eq d' d) services) \<rparr>"
proof (induction old services plan rule: diff_loop.induct)
  case (2 old name d rest plan)
  then show ?case by (simp split: option.splits)
qed simp

lemma diff_config_eq:
  "dp_added (diff_config old new) = filter (\<lambda>(n, d). old_def old n = None) (c_services new)"
  "dp_changed (diff_config old new) =
    filter (\<lambda>(n, d). \<exists>d'. old_def old n = Some d' \<and> \<not> service_def_eq d' d) (c_services new)"
  "dp_unchanged (diff_config old new) =
    map fst (filter (\<lambda>(n, d). \<exists>d'. old_def old n = Some d' \<and> service_def_eq d' d) (c_services new))"
  "dp_removed (diff_config old new) =
    (case old of None \<Rightarrow> [] | Some c \<Rightarrow> filter (\<lambda>n. \<not> hm_has (c_services new) n) (hm_keys (c_services c)))"
  by (cases old; simp add: diff_config_def diff_loop_eq Let_def old_def_def)+


section \<open>What the checks stand for\<close>

fun secrets_in :: "env_value \<Rightarrow> string set" where
  "secrets_in (ELiteral _) = {}"
| "secrets_in (Interpolated parts) = {name. Secret name \<in> set parts}"

definition config_secrets :: "cluster_config \<Rightarrow> string set" where
  "config_secrets c = (\<Union>(_, d) \<in> set (c_services c). \<Union>(_, v) \<in> set (s_env d). secrets_in v) \<union>
    (\<Union>(_, d) \<in> set (c_tasks c). \<Union>(_, v) \<in> set (t_env d). secrets_in v)"

lemma missing_in_parts_Nil: "missing_in_parts known cx parts = [] \<longleftrightarrow> {name. Secret name \<in> set parts} \<subseteq> known"
  by (induction known cx parts rule: missing_in_parts.induct) auto

lemma collect_missing_Nil:
  "collect_missing_secrets envs known cx = [] \<longleftrightarrow> (\<Union>(_, v) \<in> set envs. secrets_in v) \<subseteq> known"
proof -
  have "(case v of ELiteral _ \<Rightarrow> [] | Interpolated parts \<Rightarrow> missing_in_parts known cx parts) = []
      \<longleftrightarrow> secrets_in v \<subseteq> known" for v
    by (cases v) (simp_all add: missing_in_parts_Nil)
  then show ?thesis by (fastforce simp: collect_missing_secrets_def)
qed

lemma missing_concat:
  "concat (map (\<lambda>(name, d). collect_missing_secrets (f d) known name) xs) = [] \<longleftrightarrow>
    (\<Union>(_, d) \<in> set xs. \<Union>(_, v) \<in> set (f d). secrets_in v) \<subseteq> known"
  by (simp add: case_prod_unfold collect_missing_Nil UN_subset_iff)

lemma fold_max_word_less:
  "fold (\<lambda>n acc. max acc (f n)) xs a < (m :: u64) \<longleftrightarrow> a < m \<and> (\<forall>x \<in> set xs. f x < m)"
  by (induction xs arbitrary: a) auto

lemma f64_lt_max: "a \<noteq> NaN \<Longrightarrow> c \<noteq> NaN \<Longrightarrow> f64_lt (f64_max a b) c \<longleftrightarrow> f64_lt a c \<and> \<not> f64_le c b"
  by (cases a; cases b; cases c) (auto simp: f64_lt_def f64_max_def)

lemma f64_max_not_NaN: "a \<noteq> NaN \<Longrightarrow> f64_max a b \<noteq> NaN"
  by (cases a; cases b) (auto simp: f64_max_def)

lemma fold_f64_max_lt:
  "a \<noteq> NaN \<Longrightarrow> c \<noteq> NaN \<Longrightarrow>
    f64_lt (fold (\<lambda>n acc. f64_max acc (f n)) xs a) c \<longleftrightarrow> f64_lt a c \<and> (\<forall>x \<in> set xs. \<not> f64_le c (f x))"
  by (induction xs arbitrary: a) (auto simp: f64_lt_max f64_max_not_NaN)


section \<open>Environment variables\<close>

lemma resolve_parts_eq:
  "resolve_parts decrypt s parts result = Inr t \<longleftrightarrow>
    (\<forall>p \<in> set parts. is_ok (resolve_part decrypt s p)) \<and>
    t = result @ concat (map (\<lambda>p. projr (resolve_part decrypt s p)) parts)"
proof (induction parts arbitrary: result)
  case (Cons p parts)
  then show ?case by (cases "resolve_part decrypt s p") auto
qed auto

lemma resolve_env_loop_get:
  assumes "resolve_env_loop decrypt s envs acc = Inr m" "hm_wf envs"
  shows "hm_get m k = (case hm_get envs k of None \<Rightarrow> hm_get acc k
    | Some v \<Rightarrow> (case resolve_env_value decrypt s v of Inl _ \<Rightarrow> None | Inr t \<Rightarrow> Some t))"
  using assms
proof (induction envs arbitrary: acc)
  case (Cons e envs)
  obtain key v where [simp]: "e = (key, v)" by force
  obtain t where t: "resolve_env_value decrypt s v = Inr t"
      "resolve_env_loop decrypt s envs (hm_insert key t acc) = Inr m"
    using Cons.prems(1) by (auto simp: res_bind_eq_Ok)
  have "hm_get envs key = None" "hm_wf envs"
    using Cons.prems(2) by (auto simp: map_of_eq_None_iff)
  with Cons.IH [OF t(2)] t(1) show ?case by (cases "k = key") (auto split: option.splits)
qed simp

lemma resolve_env_loop_ok:
  "is_ok (resolve_env_loop decrypt s envs acc) \<longleftrightarrow> (\<forall>(k, v) \<in> set envs. is_ok (resolve_env_value decrypt s v))"
proof (induction decrypt s envs acc rule: resolve_env_loop.induct)
  case (2 decrypt s key v rest acc)
  then show ?case by (cases "resolve_env_value decrypt s v") auto
qed simp


definition config_resources :: "cluster_config \<Rightarrow> resources set" where
  "config_resources c = (\<lambda>(_, d). s_resources d) ` set (c_services c) \<union> (\<lambda>(_, d). t_resources d) ` set (c_tasks c)"

lemma oversized_iff:
  assumes "nodes \<noteq> []" "r_cpu r \<noteq> NaN"
  shows "oversized (fold (\<lambda>n acc. f64_max acc (nr_cpu_total n)) nodes (Fin 0))
      (fold (\<lambda>n acc. max acc (nr_memory_total n)) nodes 0) r \<longleftrightarrow>
    \<not> ((f64_le (r_cpu r) (Fin 0) \<or> (\<exists>n \<in> set nodes. f64_le (r_cpu r) (nr_cpu_total n))) \<and>
       (\<exists>n \<in> set nodes. r_memory r \<le> nr_memory_total n))"
proof -
  have "f64_lt (Fin 0) (r_cpu r) \<longleftrightarrow> \<not> f64_le (r_cpu r) (Fin 0)"
    using assms(2) by (cases "r_cpu r") (auto simp: f64_lt_def)
  moreover have "0 < r_memory r \<and> (\<forall>n \<in> set nodes. nr_memory_total n < r_memory r) \<longleftrightarrow>
      \<not> (\<exists>n \<in> set nodes. r_memory r \<le> nr_memory_total n)"
  proof -
    have "0 < r_memory r" if "\<forall>n \<in> set nodes. nr_memory_total n < r_memory r"
    proof -
      obtain n where "n \<in> set nodes" using assms(1) by (cases nodes) auto
      then have "nr_memory_total n < r_memory r" using that by blast
      then show ?thesis by (rule le_less_trans [OF word_zero_le])
    qed
    then show ?thesis by (auto simp: not_le)
  qed
  ultimately show ?thesis
    using assms(2) unfolding oversized_def by (simp add: fold_f64_max_lt fold_max_word_less)
qed


section \<open>Properties\<close>

text \<open>
  (C25) The plan accounts for every service once: the added ones are new, the removed ones are gone
  from the configuration, and a service in both is changed or unchanged by whether its definition
  differs from the old one. Added and changed services carry their new definition.
\<close>

theorem plan_partition:
  fixes old :: "cluster_config option" and new :: cluster_config
  assumes "hm_wf (c_services new)"
  defines "p \<equiv> diff_config old new"
  shows "hm_get (dp_added p) name = (if old_def old name = None then hm_get (c_services new) name else None) \<and>
    (name \<in> set (dp_removed p) \<longleftrightarrow> old_def old name \<noteq> None \<and> hm_get (c_services new) name = None) \<and>
    hm_get (dp_changed p) name =
      (case (old_def old name, hm_get (c_services new) name) of
         (Some d', Some d) \<Rightarrow> if service_def_eq d' d then None else Some d | _ \<Rightarrow> None) \<and>
    (name \<in> set (dp_unchanged p) \<longleftrightarrow>
      (case (old_def old name, hm_get (c_services new) name) of
         (Some d', Some d) \<Rightarrow> service_def_eq d' d | _ \<Rightarrow> False))"
proof -
  have get: "hm_get (filter (\<lambda>(n, d). P n d) (c_services new)) name =
      (case hm_get (c_services new) name of None \<Rightarrow> None | Some d \<Rightarrow> if P name d then Some d else None)" for P
    using hm_get_retain [OF assms(1), of P name] by (simp add: hm_retain_def)
  have mem: "name \<in> fst ` set (filter (\<lambda>(n, d). P n d) (c_services new)) \<longleftrightarrow>
      (case hm_get (c_services new) name of None \<Rightarrow> False | Some d \<Rightarrow> P name d)" for P
  proof -
    have in_keys: "name \<in> fst ` set m \<longleftrightarrow> hm_get m name \<noteq> None" for m :: "(string, service_def) hash_map"
      by (simp add: map_of_eq_None_iff)
    show ?thesis unfolding in_keys get by (simp split: option.split)
  qed
  have "name \<in> set (dp_removed p) \<longleftrightarrow> old_def old name \<noteq> None \<and> hm_get (c_services new) name = None"
    by (cases old) (auto simp: p_def diff_config_eq(4) old_def_def hm_has_def map_of_eq_None_iff)
  then show ?thesis
    unfolding p_def diff_config_eq(1-3) get set_map mem by (auto split: option.splits)
qed


definition svc1 :: service_def where
  "svc1 = \<lparr> s_image = ''nginx'', s_port = 80, s_replicas = 2, s_resources = \<lparr> r_cpu = Fin 1, r_memory = 1024 \<rparr>,
     s_env = [], s_command = None, s_health = None, s_routes = [], s_volumes = [] \<rparr>"

definition config_of :: "(string \<times> service_def) list \<Rightarrow> cluster_config" where
  "config_of svcs = \<lparr> c_services = svcs, c_tasks = [] \<rparr>"

theorem plan_partition_witness:
  "''db'' \<in> set (dp_removed (diff_config (Some (config_of [(''db'', svc1), (''web'', svc1)])) (config_of [(''web'', svc1)]))) \<and>
   ''web'' \<in> set (dp_unchanged (diff_config (Some (config_of [(''db'', svc1), (''web'', svc1)])) (config_of [(''web'', svc1)])))"
proof -
  have "hm_wf (c_services (config_of [(''web'', svc1)]))" by (simp add: config_of_def)
  from plan_partition [OF this, of "Some (config_of [(''db'', svc1), (''web'', svc1)])" "''db''"]
    plan_partition [OF this, of "Some (config_of [(''db'', svc1), (''web'', svc1)])" "''web''"]
  show ?thesis
    by (simp add: config_of_def old_def_def svc1_def service_def_eq_def hm_eq_def f64_eq_def)
qed

text \<open>
  The check of secrets passes exactly when every secret that a service or a task refers to is
  stored.
\<close>

theorem secret_check_iff:
  "validate_secret_refs config known = Inr () \<longleftrightarrow> config_secrets config \<subseteq> known"
  unfolding validate_secret_refs_def config_secrets_def Let_def
  by (simp add: missing_concat del: concat_eq_Nil_conv)

text \<open>
  The check of capacities passes exactly when there is a ready node and, for every service and
  task, some node has the processors and some node has the memory that it asks for.
\<close>

theorem capacity_check_iff:
  assumes "\<forall>r \<in> config_resources config. r_cpu r \<noteq> NaN"
  shows "validate_resource_capacity config nodes = Inr () \<longleftrightarrow> nodes \<noteq> [] \<and>
    (\<forall>r \<in> config_resources config.
      (f64_le (r_cpu r) (Fin 0) \<or> (\<exists>n \<in> set nodes. f64_le (r_cpu r) (nr_cpu_total n))) \<and>
      (\<exists>n \<in> set nodes. r_memory r \<le> nr_memory_total n))"
proof (cases "nodes = []")
  case False
  let ?big = "oversized (fold (\<lambda>n acc. f64_max acc (nr_cpu_total n)) nodes (Fin 0))
    (fold (\<lambda>n acc. max acc (nr_memory_total n)) nodes 0)"
  have "validate_resource_capacity config nodes = Inr () \<longleftrightarrow> (\<forall>r \<in> config_resources config. \<not> ?big r)"
    using False by (auto simp: validate_resource_capacity_def config_resources_def Let_def filter_empty_conv)
  then show ?thesis using oversized_iff [OF False] assms False by auto
qed (simp add: validate_resource_capacity_def)

theorem capacity_check_iff_witness:
  "validate_resource_capacity (config_of [(''web'', svc1)]) [\<lparr> nr_cpu_total = Fin 2, nr_cpu_available = Fin 2,
     nr_memory_total = 4096, nr_memory_available = 4096 \<rparr>] = Inr ()"
  by (subst capacity_check_iff) (simp_all add: config_resources_def config_of_def svc1_def)

text \<open>
  The check of capacities is weaker than its description: it passes for a service that fits on
  no node, when one node has the processors and another one the memory.
\<close>

theorem capacity_check_passes_without_fit:
  "\<exists>config nodes need. need \<in> config_resources config \<and> validate_resource_capacity config nodes = Inr () \<and>
     \<not> (\<exists>n \<in> set nodes. f64_le (r_cpu need) (nr_cpu_total n) \<and> r_memory need \<le> nr_memory_total n)"
proof -
  let ?node = "\<lambda>c m. \<lparr> nr_cpu_total = Fin c, nr_cpu_available = Fin c, nr_memory_total = m, nr_memory_available = m \<rparr>"
  have "validate_resource_capacity (config_of [(''web'', svc1)]) [?node 1 512, ?node (1 / 2) 2048] = Inr ()"
    by (simp add: validate_resource_capacity_def config_of_def svc1_def oversized_def f64_max_def f64_lt_def)
  moreover have "\<not> (\<exists>n \<in> set [?node 1 512, ?node (1 / 2) 2048]. f64_le (r_cpu (s_resources svc1)) (nr_cpu_total n) \<and>
      r_memory (s_resources svc1) \<le> nr_memory_total n)"
    by (simp add: svc1_def)
  moreover have "s_resources svc1 \<in> config_resources (config_of [(''web'', svc1)])"
    by (simp add: config_resources_def config_of_def)
  ultimately show ?thesis by blast
qed

text \<open>
  Environment variables are resolved part by part: where resolution succeeds, every
  interpolated variable holds the concatenation of its resolved parts and every plain one its text,
  and no other variable is set; it fails exactly when some part cannot be resolved.
\<close>

theorem resolve_env_spec:
  assumes "hm_wf envs"
  shows "case resolve_env decrypt s envs of
      Inr m \<Rightarrow> (\<forall>k. hm_get m k = map_option (\<lambda>v. case v of ELiteral l \<Rightarrow> l
        | Interpolated parts \<Rightarrow> concat (map (\<lambda>p. projr (resolve_part decrypt s p)) parts)) (hm_get envs k))
    | Inl e \<Rightarrow> (\<exists>k parts p. hm_get envs k = Some (Interpolated parts) \<and> p \<in> set parts \<and> \<not> is_ok (resolve_part decrypt s p))"
proof (cases "resolve_env decrypt s envs")
  case (Inr m)
  have ok: "\<forall>(k, v) \<in> set envs. is_ok (resolve_env_value decrypt s v)"
    using resolve_env_loop_ok [of decrypt s envs "[]"] Inr by (simp add: resolve_env_def)
  have "hm_get m k = map_option (\<lambda>v. case v of ELiteral l \<Rightarrow> l
      | Interpolated parts \<Rightarrow> concat (map (\<lambda>p. projr (resolve_part decrypt s p)) parts)) (hm_get envs k)" for k
  proof (cases "hm_get envs k")
    case (Some v)
    then have "is_ok (resolve_env_value decrypt s v)" using ok by (auto dest: map_of_SomeD)
    then obtain t where t: "resolve_env_value decrypt s v = Inr t" unfolding is_ok_iff by blast
    have "hm_get m k = Some t"
      using resolve_env_loop_get [of decrypt s envs "[]" m k] Inr assms Some t by (simp add: resolve_env_def)
    moreover have "(case v of ELiteral l \<Rightarrow> l
        | Interpolated parts \<Rightarrow> concat (map (\<lambda>p. projr (resolve_part decrypt s p)) parts)) = t"
      using t by (cases v) (simp_all add: resolve_parts_eq)
    ultimately show ?thesis by (simp add: Some)
  qed (use resolve_env_loop_get [of decrypt s envs "[]" m k] Inr assms in \<open>simp add: resolve_env_def\<close>)
  then show ?thesis unfolding Inr sum.case by blast
next
  case (Inl e)
  then have "\<not> is_ok (resolve_env_loop decrypt s envs [])" by (simp add: resolve_env_def)
  then obtain k v where v: "(k, v) \<in> set envs" "\<not> is_ok (resolve_env_value decrypt s v)"
    unfolding resolve_env_loop_ok by blast
  then obtain parts where parts: "v = Interpolated parts" by (cases v) auto
  have "\<exists>p \<in> set parts. \<not> is_ok (resolve_part decrypt s p)"
  proof (rule ccontr)
    assume "\<not> ?thesis"
    then have "resolve_parts decrypt s parts [] = Inr (concat (map (\<lambda>p. projr (resolve_part decrypt s p)) parts))"
      by (simp add: resolve_parts_eq)
    with v(2) parts show False by simp
  qed
  moreover have "hm_get envs k = Some (Interpolated parts)" using iffD1 [OF hm_set_get [OF assms] v(1)] parts by simp
  ultimately show ?thesis unfolding Inl sum.case by blast
qed


definition env1 :: "(string, env_value) hash_map" where
  "env1 = [(''URL'', Interpolated [PLiteral ''key='', Secret ''k''])]"

definition state_k :: fsm_state where
  "state_k = fsm_default\<lparr> f_secrets := [(''k'', \<lparr> es_encrypted_value = [0x68, 0x69], es_nonce = [] \<rparr>)] \<rparr>"

theorem resolve_env_spec_witness:
  "\<exists>m. resolve_env (\<lambda>v n. Inr v) state_k env1 = Inr m \<and> hm_get m ''URL'' = Some ''key=hi''"
proof -
  have wf: "hm_wf env1" by (simp add: env1_def)
  have k: "resolve_part (\<lambda>v n. Inr v) state_k (Secret ''k'') = Inr ''hi''"
    by (simp add: resolve_part_def get_secret_def state_k_def from_utf8_def utf8_width_def char_of_def
      bit_iff_odd)
  then obtain m where m: "resolve_env (\<lambda>v n. Inr v) state_k env1 = Inr m"
    by (simp add: resolve_env_def env1_def resolve_part_def)
  with resolve_env_spec [OF wf, of "\<lambda>v n. Inr v" state_k] k show ?thesis
    by (auto simp: env1_def resolve_part_def)
qed


text \<open>
  Deploying the same file again can restart services: the routes of a service are a map in the
  file and a list in its definition, so the order in which the map is iterated decides whether the
  definition counts as changed.
\<close>

definition raw_routes :: "(string, raw_route_def) hash_map \<Rightarrow> raw_config" where
  "raw_routes routes = \<lparr> rc_service = [(''web'', \<lparr> rs_image = ''nginx'', rs_port = 80, rs_replicas = 1, rs_cpu = Fin 1,
     rs_memory = ''256M'', rs_env = [], rs_health = None, rs_route = routes, rs_volume = [], rs_command = None \<rparr>)],
     rc_task = [] \<rparr>"

definition route1 :: "string \<times> raw_route_def" where
  "route1 = (''a.example'', \<lparr> rr_path = ''/'', rr_websocket = False \<rparr>)"

definition route2 :: "string \<times> raw_route_def" where
  "route2 = (''b.example'', \<lparr> rr_path = ''/'', rr_websocket = False \<rparr>)"

lemmas route_order_simps = raw_routes_def route1_def route2_def resolve_config_def resolve_service_def
  parse_byte_size_def check_cpu_def check_port_def parse_env_map_def resolve_health_def resolve_routes_def
  finish_def check_service_refs_def Let_def

theorem redeploy_can_restart:
  "\<exists>psize pdur c c'. hm_get [route1, route2] = hm_get [route2, route1] \<and>
     resolve_config psize pdur (raw_routes [route1, route2]) = Inr c \<and>
     resolve_config psize pdur (raw_routes [route2, route1]) = Inr c' \<and>
     dp_changed (diff_config (Some c) c') \<noteq> []"
proof -
  have "hm_get [route1, route2] = hm_get [route2, route1]"
    by (rule ext) (simp add: route1_def route2_def)
  moreover obtain c c' where
    "resolve_config (\<lambda>_. Inr 1) (\<lambda>_. Inr 1) (raw_routes [route1, route2]) = Inr c"
    "resolve_config (\<lambda>_. Inr 1) (\<lambda>_. Inr 1) (raw_routes [route2, route1]) = Inr c'"
    "dp_changed (diff_config (Some c) c') \<noteq> []"
    by (simp add: route_order_simps diff_config_eq(2) old_def_def service_def_eq_def)
  ultimately show ?thesis by blast
qed

end
