(* ===== verification/Deploy.thy ===== *)
theory Deploy
  imports Plan
begin

text \<open>
  The coordinator of a deployment, \<^verbatim>\<open>crates/node/src/primary/deploy/mod.rs\<close>: it
  creates volumes, starts allocations, waits for their health and stops the old ones. Each async
  function is a function on worlds; a branch of the source is a branch here, and every await is an
  action at which other tasks may commit commands and the call may fail.
\<close>

section \<open>Waiting\<close>

record deploy_ctx =
  cx_volumes :: bool
  cx_started :: time
  cx_var :: "string \<Rightarrow> string option"
  cx_decrypt :: decryptor

definition look_status :: "alloc_id \<Rightarrow> fsm_state \<Rightarrow> (deploy_error, unit) result option" where
  "look_status alloc_id s =
    (case hm_get (f_allocs s) alloc_id of
       None \<Rightarrow> None
     | Some a \<Rightarrow>
        if is_active (al_status a) then Some (Inr ())
        else (case al_status a of
                Stopped _ \<Rightarrow> Some (Inr ())
              | Failed reason \<Rightarrow> Some (Inl (DNode (DeployFailed alloc_id reason)))
              | _ \<Rightarrow> None))"

definition wait_for_status :: "env \<Rightarrow> alloc_id \<Rightarrow> world \<Rightarrow> (deploy_error, unit) result \<times> world" where
  "wait_for_status env alloc_id w =
    (case wait_state env (look_status alloc_id) w of
       (Some r, w') \<Rightarrow> (r, w')
     | (None, w') \<Rightarrow> (Inl (HealthCheckTimeout alloc_id), w'))"

definition poll_for_address :: "env \<Rightarrow> alloc_id \<Rightarrow> world \<Rightarrow> socket_addr option \<times> world" where
  "poll_for_address env alloc_id w =
    wait_state env (\<lambda>s. Option.bind (hm_get (f_allocs s) alloc_id) al_address) w"

text \<open>The health check of the service if it has one, a TCP connection otherwise.\<close>

definition check_ready :: "deploy_ctx \<Rightarrow> env \<Rightarrow> service_def \<Rightarrow> world \<Rightarrow> bool \<times> world" where
  "check_ready cx env d w =
    (let oc = now_outcome env w
     in (case s_health d of
           Some hc \<Rightarrow> wait_healthy (oc_probe oc) hc (oc_time oc) (health_timeout (cx_var cx))
         | None \<Rightarrow> wait_tcp_ready (oc_probe oc) (tcp_ready_poll_interval (cx_var cx)) (oc_time oc)
             (health_timeout (cx_var cx)),
         tick env [] w))"


section \<open>One allocation\<close>

definition container_spec_for :: "alloc_id \<Rightarrow> service_def \<Rightarrow> (string, string) hash_map \<Rightarrow> container_spec" where
  "container_spec_for alloc_id d envs = \<lparr>
     cs_alloc_id = alloc_id, cs_kind = KService, cs_timeout = None, cs_command = s_command d,
     cs_image = s_image d, cs_env = envs, cs_port = Some (s_port d), cs_host_port = None,
     cs_cpu = r_cpu (s_resources d), cs_memory = r_memory (s_resources d),
     cs_volumes = map (\<lambda>v. \<lparr> cv_name = vd_name v, cv_path = vd_path v, cv_ephemeral = vd_ephemeral v \<rparr>)
       (s_volumes d) \<rparr>"

definition finish_healthy ::
  "deploy_ctx \<Rightarrow> env \<Rightarrow> string \<Rightarrow> alloc_id \<Rightarrow> world \<Rightarrow> (deploy_error, unit) result \<times> world" where
  "finish_healthy cx env name alloc_id =
    and_then (with_err DNode (propose env (AllocStatus alloc_id Healthy))) (\<lambda>_.
    quiet (\<lambda>w. send_json_event env ''progress'' [(''service'', JStr name), (''phase'', JStr ''healthy''),
      (''elapsed'', JNum (elapsed env (cx_started cx) w))] w))"

definition await_ready ::
  "deploy_ctx \<Rightarrow> env \<Rightarrow> string \<Rightarrow> service_def \<Rightarrow> alloc_id \<Rightarrow> world \<Rightarrow> (deploy_error, unit) result \<times> world" where
  "await_ready cx env name d alloc_id w =
    (case poll_for_address env alloc_id w of
       (None, w) \<Rightarrow> (Inl (HealthCheckTimeout name), w)
     | (Some addr, w) \<Rightarrow>
        (case check_ready cx env d w of
           (False, w) \<Rightarrow> (Inl (HealthCheckTimeout name), w)
         | (True, w) \<Rightarrow> finish_healthy cx env name alloc_id w))"

definition run_scheduled_alloc ::
  "deploy_ctx \<Rightarrow> env \<Rightarrow> string \<Rightarrow> service_def \<Rightarrow> alloc_id \<Rightarrow> node_id \<Rightarrow> world \<Rightarrow>
   (deploy_error, unit) result \<times> world" where
  "run_scheduled_alloc cx env name d alloc_id node_id =
    and_then (reading (\<lambda>s. resolve_env (cx_decrypt cx) s (s_env d))) (\<lambda>envs.
    and_then (with_err DNode (send_command env node_id (Run alloc_id (container_spec_for alloc_id d envs) None))) (\<lambda>_.
    and_then (quiet (send_json_event env ''progress'' [(''service'', JStr name), (''phase'', JStr ''starting'')])) (\<lambda>_.
    and_then (wait_for_status env alloc_id) (\<lambda>_.
    await_ready cx env name d alloc_id))))"

definition service_request :: "string \<Rightarrow> service_def \<Rightarrow> schedule_request" where
  "service_request name d = \<lparr> rq_need = s_resources d, rq_name = name, rq_kind = KService,
     rq_volume = (case s_volumes d of [] \<Rightarrow> None | v # _ \<Rightarrow> Some (vd_name v)) \<rparr>"

definition start_alloc ::
  "deploy_ctx \<Rightarrow> env \<Rightarrow> string \<Rightarrow> service_def \<Rightarrow> alloc_id \<Rightarrow> u32 \<Rightarrow> world \<Rightarrow>
   (deploy_error, unit) result \<times> world" where
  "start_alloc cx env name d alloc_id replica =
    and_then (reading (\<lambda>s. case schedule_on s (list_volumes s) (service_request name d) of
        None \<Rightarrow> Inl (SchedulingFailed name replica) | Some n \<Rightarrow> Inr n)) (\<lambda>node_id.
    and_then (quiet (send_json_event env ''progress''
        [(''service'', JStr name), (''phase'', JStr ''scheduled''), (''node'', JStr node_id)])) (\<lambda>_.
    and_then (reading (\<lambda>s. case raft_id_for s node_id of
        None \<Rightarrow> Inl (SchedulingFailed name replica) | Some i \<Rightarrow> Inr i)) (\<lambda>raft_node_id.
    and_then (with_err DNode (propose env (AllocScheduled alloc_id raft_node_id name KService None
        (alloc_resources_from (s_resources d))))) (\<lambda>_ w.
      case run_scheduled_alloc cx env name d alloc_id node_id w of
        (Inl e, w') \<Rightarrow>
          (Inl e, ignored (propose env (AllocStatus alloc_id (Failed (show_deploy_error e)))) w')
      | (Inr r, w') \<Rightarrow> (Inr r, w')))))"


section \<open>Volumes\<close>

definition gib10 :: byte_size where "gib10 = 10 * 1024 * 1024 * 1024"

definition attach_volume ::
  "deploy_ctx \<Rightarrow> env \<Rightarrow> u64 \<Rightarrow> string \<Rightarrow> world \<Rightarrow> (deploy_error, unit) result \<times> world" where
  "attach_volume cx env raft_node_id name =
    and_then (\<lambda>w. if cx_volumes cx
        then (case instance_id_for (w_fsm w) raft_node_id of
                Some i \<Rightarrow> with_err DStorage (driver_attach env name i) w
              | None \<Rightarrow> (Inr (), w))
        else (Inr (), w)) (\<lambda>_.
    and_then (with_err DNode (propose env (VolumeAttached name raft_node_id))) (\<lambda>_. quiet id))"

definition ensure_volume ::
  "deploy_ctx \<Rightarrow> env \<Rightarrow> u64 \<Rightarrow> volume_def \<Rightarrow> world \<Rightarrow> (deploy_error, unit) result \<times> world" where
  "ensure_volume cx env raft_node_id vol_def w =
    (let name = vd_name vol_def;
         vol_state = map_option v_state (hm_get (f_volumes (w_fsm w)) name);
         target_mill_id = map_option n_mill_id (hm_get (f_nodes (w_fsm w)) raft_node_id)
     in if vd_ephemeral vol_def then (Inr (), w)
        else case vol_state of
          None \<Rightarrow>
            if \<not> cx_volumes cx then (Inr (), w)
            else
              and_then (with_err DStorage (driver_create env name
                  (case vd_size vol_def of Some b \<Rightarrow> b | None \<Rightarrow> gib10))) (\<lambda>cloud_id.
              and_then (with_err DNode (propose env (VolumeCreated name cloud_id))) (\<lambda>_.
              attach_volume cx env raft_node_id name)) w
        | Some (VAttached node) \<Rightarrow>
            if Some node = target_mill_id then (Inr (), w)
            else
              and_then (if cx_volumes cx then with_err DStorage (driver_detach env name) else quiet id) (\<lambda>_.
              and_then (with_err DNode (propose env (VolumeDetached name))) (\<lambda>_.
              attach_volume cx env raft_node_id name)) w
        | Some VReady \<Rightarrow> attach_volume cx env raft_node_id name w)"

definition create_volumes_if_needed ::
  "deploy_ctx \<Rightarrow> env \<Rightarrow> service_def \<Rightarrow> u64 \<Rightarrow> world \<Rightarrow> (deploy_error, unit) result \<times> world" where
  "create_volumes_if_needed cx env d raft_node_id =
    for_each (ensure_volume cx env raft_node_id) (s_volumes d)"


section \<open>One service\<close>

definition first_ready :: "fsm_state \<Rightarrow> u64 option" where
  "first_ready s = map_option n_raft_id (List.find (\<lambda>n. n_status n = NReady) (hm_values (f_nodes s)))"

definition ready_node_for :: "string \<Rightarrow> fsm_state \<Rightarrow> (deploy_error, u64) result" where
  "ready_node_for name s =
    (case first_ready s of None \<Rightarrow> Inl (SchedulingFailed name 0) | Some i \<Rightarrow> Inr i)"

definition service_allocs :: "string \<Rightarrow> fsm_state \<Rightarrow> (alloc_id \<times> node_id) list" where
  "service_allocs name s = map (\<lambda>a. (al_id a, al_node a)) (list_service_allocs s name)"

definition stop_service :: "env \<Rightarrow> string \<Rightarrow> world \<Rightarrow> (deploy_error, unit) result \<times> world" where
  "stop_service env name w =
    and_then (for_each (\<lambda>(alloc_id, node_id). with_err DNode (send_command env node_id (Stop alloc_id)))
      (service_allocs name (w_fsm w))) (\<lambda>_.
    quiet (send_json_event env ''progress'' [(''service'', JStr name), (''phase'', JStr ''stopped'')])) w"

definition deploy_service ::
  "deploy_ctx \<Rightarrow> env \<Rightarrow> string \<Rightarrow> service_def \<Rightarrow> world \<Rightarrow> (deploy_error, unit) result \<times> world" where
  "deploy_service cx env name d =
    and_then (reading (ready_node_for name)) (\<lambda>raft_node_id.
    and_then (create_volumes_if_needed cx env d raft_node_id) (\<lambda>_.
    for_each (\<lambda>replica. start_alloc cx env name d (name @ ''-'' @ show_nat replica) (word_of_nat replica))
      [0..<unat (s_replicas d)]))"

fun stop_all :: "env \<Rightarrow> (alloc_id \<times> node_id) list \<Rightarrow> world \<Rightarrow> world" where
  "stop_all env [] w = w"
| "stop_all env ((alloc_id, node_id) # rest) w =
    stop_all env rest (ignored (send_command env node_id (Stop alloc_id)) w)"

fun start_replicas ::
  "deploy_ctx \<Rightarrow> env \<Rightarrow> string \<Rightarrow> service_def \<Rightarrow> nat list \<Rightarrow> (alloc_id \<times> node_id) list \<Rightarrow> world \<Rightarrow>
   (deploy_error, (alloc_id \<times> node_id) list) result \<times> world" where
  "start_replicas cx env name d [] new_allocs w = (Inr new_allocs, w)"
| "start_replicas cx env name d (replica # rest) new_allocs w =
    (case draw_suffix env w of (sfx, w) \<Rightarrow>
      let alloc_id = name @ ''-'' @ sfx
      in case start_alloc cx env name d alloc_id (word_of_nat replica) w of
           (Inr _, w) \<Rightarrow>
             (case hm_get (f_allocs (w_fsm w)) alloc_id of
                Some a \<Rightarrow> start_replicas cx env name d rest (new_allocs @ [(alloc_id, al_node a)]) w
              | None \<Rightarrow> start_replicas cx env name d rest new_allocs w)
         | (Inl e, w) \<Rightarrow> (Inl e, stop_all env new_allocs w))"

fun stop_old ::
  "env \<Rightarrow> (alloc_id \<times> node_id) list \<Rightarrow> node_error option \<Rightarrow> world \<Rightarrow> node_error option \<times> world" where
  "stop_old env [] stop_err w = (stop_err, w)"
| "stop_old env ((old_id, node_id) # rest) stop_err w =
    (case send_command env node_id (Stop old_id) w of
       (Inl e, w) \<Rightarrow> stop_old env rest (case stop_err of None \<Rightarrow> Some e | Some e' \<Rightarrow> Some e') w
     | (Inr _, w) \<Rightarrow> stop_old env rest stop_err w)"

definition retire_old ::
  "env \<Rightarrow> string \<Rightarrow> (alloc_id \<times> node_id) list \<Rightarrow> world \<Rightarrow> (deploy_error, unit) result \<times> world" where
  "retire_old env name old_allocs w =
    (case stop_old env old_allocs None w of (stop_err, w) \<Rightarrow>
      let w = send_json_event env ''progress'' [(''service'', JStr name), (''phase'', JStr ''stopped'')] w
      in case stop_err of Some e \<Rightarrow> (Inl (DNode e), w) | None \<Rightarrow> (Inr (), w))"

definition rolling_update ::
  "deploy_ctx \<Rightarrow> env \<Rightarrow> string \<Rightarrow> service_def \<Rightarrow> world \<Rightarrow> (deploy_error, unit) result \<times> world" where
  "rolling_update cx env name d =
    and_then (reading (ready_node_for name)) (\<lambda>raft_node_id.
    and_then (create_volumes_if_needed cx env d raft_node_id) (\<lambda>_.
    and_then (reading (\<lambda>s. Inr (service_allocs name s))) (\<lambda>old_allocs.
    and_then (start_replicas cx env name d [0..<unat (s_replicas d)] []) (\<lambda>_.
    retire_old env name old_allocs))))"


section \<open>The deployment\<close>

definition eager_pull :: "env \<Rightarrow> deploy_plan \<Rightarrow> world \<Rightarrow> world" where
  "eager_pull env plan w =
    (let images = remdups (map (\<lambda>(_, d). s_image d) (dp_added plan @ dp_changed plan));
         w = fold (\<lambda>image w. ignored (broadcast_command env (Pull image None)) w) images w
     in if images \<noteq> [] then send_json_event env ''progress'' [(''phase'', JStr ''pulling'')] w else w)"

text \<open>The loops over added and changed services: a failure is reported, and the loop goes on.\<close>

fun try_services ::
  "env \<Rightarrow> (string \<Rightarrow> service_def \<Rightarrow> world \<Rightarrow> (deploy_error, unit) result \<times> world) \<Rightarrow>
   (string \<times> service_def) list \<Rightarrow> bool \<Rightarrow> world \<Rightarrow> bool \<times> world" where
  "try_services env f [] has_failures w = (has_failures, w)"
| "try_services env f ((name, d) # rest) has_failures w =
    (case f name d w of
       (Inl e, w) \<Rightarrow> try_services env f rest True
         (send_json_event env ''failed'' [(''service'', JStr name), (''reason'', JStr (show_deploy_error e))] w)
     | (Inr _, w) \<Rightarrow> try_services env f rest has_failures w)"

definition ready_capacities :: "fsm_state \<Rightarrow> node_resources list" where
  "ready_capacities s = map n_resources (filter (\<lambda>n. n_status n = NReady) (list_nodes s))"

text \<open>Steps 3 to 5 and the end: the services, the rollback of the configuration, the last event.\<close>

definition roll_out ::
  "deploy_ctx \<Rightarrow> env \<Rightarrow> cluster_config option \<Rightarrow> deploy_plan \<Rightarrow> world \<Rightarrow> (deploy_error, unit) result \<times> world" where
  "roll_out cx env old_config plan =
    and_then (for_each (stop_service env) (dp_removed plan)) (\<lambda>_ w.
      case try_services env (deploy_service cx env) (dp_added plan) False w of (has_failures, w) \<Rightarrow>
      case try_services env (rolling_update cx env) (dp_changed plan) has_failures w of (has_failures, w) \<Rightarrow>
      let w = (case old_config of
                 Some old \<Rightarrow> if has_failures then ignored (propose env (Deploy old)) w else w
               | None \<Rightarrow> w)
      in (Inr (), send_json_event env ''done''
            [(''elapsed'', JNum (elapsed env (cx_started cx) w)), (''success'', JBool (\<not> has_failures))] w))"

definition run_deploy ::
  "deploy_ctx \<Rightarrow> env \<Rightarrow> cluster_config \<Rightarrow> world \<Rightarrow> (deploy_error, unit) result \<times> world" where
  "run_deploy cx env new_config w =
    (let old_config = f_config (w_fsm w);
         plan = diff_config old_config new_config
     in and_then (quiet (send_json_event env ''progress'' [(''phase'', JStr ''started'')])) (\<lambda>_.
        and_then (reading (\<lambda>s. validate_secret_refs new_config (set (list_secret_names s)))) (\<lambda>_.
        and_then (reading (\<lambda>s. validate_resource_capacity new_config (ready_capacities s))) (\<lambda>_.
        and_then (quiet (eager_pull env plan)) (\<lambda>_.
        and_then (with_err DNode (propose env (Deploy new_config))) (\<lambda>_.
        roll_out cx env old_config plan))))) w)"

definition run_restart ::
  "deploy_ctx \<Rightarrow> env \<Rightarrow> string \<Rightarrow> world \<Rightarrow> (deploy_error, unit) result \<times> world" where
  "run_restart cx env service_name =
    and_then (reading (\<lambda>s. case Option.bind (f_config s) (\<lambda>c. hm_get (c_services c) service_name) of
        None \<Rightarrow> Inl (DNode (ServiceNotFound service_name)) | Some d \<Rightarrow> Inr d)) (\<lambda>d.
    and_then (quiet (send_json_event env ''progress''
        [(''phase'', JStr ''started''), (''service'', JStr service_name)])) (\<lambda>_.
    and_then (rolling_update cx env service_name d) (\<lambda>_.
    quiet (\<lambda>w. send_json_event env ''done'' [(''elapsed'', JNum (elapsed env (cx_started cx) w))] w))))"


section \<open>The start of one allocation\<close>

lemma logs_wait_for_status [logs]: "logs (\<lambda>r as. as = []) (wait_for_status env i)"
  by (rule logsI) (use logsD [OF logs_wait] in \<open>auto simp: wait_for_status_def split: prod.splits option.splits; fastforce\<close>)

definition healthy_acts :: "string \<Rightarrow> alloc_id \<Rightarrow> f64 \<Rightarrow> action list" where
  "healthy_acts name i t = [APropose (AllocStatus i Healthy),
     AEvent ''progress'' [(''service'', JStr name), (''phase'', JStr ''healthy''), (''elapsed'', JNum t)]]"

definition scheduled_acts :: "string \<Rightarrow> service_def \<Rightarrow> alloc_id \<Rightarrow> node_id \<Rightarrow> u64 \<Rightarrow> action list" where
  "scheduled_acts name d i n k = [
     AEvent ''progress'' [(''service'', JStr name), (''phase'', JStr ''scheduled''), (''node'', JStr n)],
     APropose (AllocScheduled i k name KService None (alloc_resources_from (s_resources d)))]"

definition run_acts :: "string \<Rightarrow> service_def \<Rightarrow> alloc_id \<Rightarrow> node_id \<Rightarrow> (string, string) hash_map \<Rightarrow> action list" where
  "run_acts name d i n envs = [ASend n (Run i (container_spec_for i d envs) None),
     AEvent ''progress'' [(''service'', JStr name), (''phase'', JStr ''starting'')]]"

lemma logs_finish_healthy: "logs (\<lambda>r as. \<exists>t. cut_off r (healthy_acts name i t) as) (finish_healthy cx env name i)"
proof (rule logsI)
  fix w
  obtain r w1 where p: "propose env (AllocStatus i Healthy) w = (r, w1)" by force
  then have "w_trace w1 = w_trace w @ [APropose (AllocStatus i Healthy)]"
    using propose_trace [of env "AllocStatus i Healthy" w] by simp
  then show "\<exists>as. w_trace (snd (finish_healthy cx env name i w)) = w_trace w @ as \<and>
    (\<exists>t. cut_off (fst (finish_healthy cx env name i w)) (healthy_acts name i t) as)"
    by (cases r) (auto simp: finish_healthy_def and_then_def with_err_def quiet_def send_json_event_def
        healthy_acts_def p)
qed

lemma logs_await_ready: "logs (\<lambda>r as. \<exists>t. cut_off r (healthy_acts name i t) as) (await_ready cx env name d i)"
proof (rule logsI)
  fix w
  obtain a w1 where a: "poll_for_address env i w = (a, w1)" by force
  have t1: "w_trace w1 = w_trace w"
    using logsD [OF logs_wait a [unfolded poll_for_address_def]] by simp
  obtain b w2 where b: "check_ready cx env d w1 = (b, w2)" by force
  have t2: "w_trace w2 = w_trace w1" using b by (auto simp: check_ready_def Let_def)
  obtain r w3 where r: "finish_healthy cx env name i w2 = (r, w3)" by force
  obtain as t where t3: "w_trace w3 = w_trace w2 @ as" "cut_off r (healthy_acts name i t) as"
    using logsD [OF logs_finish_healthy r] by blast
  show "\<exists>as. w_trace (snd (await_ready cx env name d i w)) = w_trace w @ as \<and>
    (\<exists>t. cut_off (fst (await_ready cx env name d i w)) (healthy_acts name i t) as)"
  proof (cases "a = None \<or> \<not> b")
    case True
    then show ?thesis using t1 t2
      by (intro exI [of _ "[]"]) (auto simp: await_ready_def a b healthy_acts_def split: option.splits)
  next
    case False
    then show ?thesis using t1 t2 t3 by (intro exI [of _ as]) (auto simp: await_ready_def a b r)
  qed
qed

lemma logs_run_scheduled:
  "logs (\<lambda>r as. \<exists>envs t. cut_off r (run_acts name d i n envs @ healthy_acts name i t) as)
    (run_scheduled_alloc cx env name d i n)"
  unfolding run_scheduled_alloc_def
proof (rule logs_bind [OF logs_reading])
  fix envs
  let ?await = "\<lambda>_ :: unit. await_ready cx env name d i"
  let ?wait = "\<lambda>_ :: unit. and_then (wait_for_status env i) ?await"
  let ?event = "\<lambda>_ :: unit. and_then (quiet (send_json_event env ''progress''
    [(''service'', JStr name), (''phase'', JStr ''starting'')])) ?wait"
  have wait: "logs (\<lambda>r as. \<exists>t. cut_off r (healthy_acts name i t) as) (?wait ())"
    by (rule logs_bind [OF logs_wait_for_status logs_await_ready]) (auto simp: healthy_acts_def)
  have event: "logs (\<lambda>r as. \<exists>t. cut_off r (tl (run_acts name d i n envs) @ healthy_acts name i t) as) (?event ())"
    by (rule logs_bind [OF logs_event wait]) (auto simp: run_acts_def)
  show "logs (\<lambda>r as. \<exists>t. cut_off r (run_acts name d i n envs @ healthy_acts name i t) as)
    (and_then (with_err DNode (send_command env n (Run i (container_spec_for i d envs) None))) ?event)"
    by (rule logs_bind [OF logs_with [OF logs_send] event]) (auto simp: run_acts_def)
qed (auto simp: run_acts_def)

text \<open>The whole of a start; a failure after the allocation is in the state ends by marking it.\<close>

fun started :: "string \<Rightarrow> service_def \<Rightarrow> alloc_id \<Rightarrow> (deploy_error, unit) result \<Rightarrow> action list \<Rightarrow> bool" where
  "started name d i (Inr _) as \<longleftrightarrow> (\<exists>n k envs t.
     as = scheduled_acts name d i n k @ run_acts name d i n envs @ healthy_acts name i t)"
| "started name d i (Inl e) as \<longleftrightarrow> as = [] \<or> (\<exists>n k. as = take 1 (scheduled_acts name d i n k) \<or>
     as = scheduled_acts name d i n k \<or>
     (\<exists>bs envs t. cut_off (Inl e :: (deploy_error, unit) result) (run_acts name d i n envs @ healthy_acts name i t) bs \<and>
        as = scheduled_acts name d i n k @ bs @ [APropose (AllocStatus i (Failed (show_deploy_error e)))]))"

definition guarded_run where
  "guarded_run cx env name d i n w =
    (case run_scheduled_alloc cx env name d i n w of
        (Inl e, w') \<Rightarrow> (Inl e, ignored (propose env (AllocStatus i (Failed (show_deploy_error e)))) w')
      | (Inr r, w') \<Rightarrow> (Inr r, w'))"

lemma logs_guarded_run:
  "logs (\<lambda>r as. \<exists>envs t bs. cut_off r (run_acts name d i n envs @ healthy_acts name i t) bs \<and>
      as = bs @ (case r of Inr _ \<Rightarrow> [] | Inl e \<Rightarrow> [APropose (AllocStatus i (Failed (show_deploy_error e)))]))
    (guarded_run cx env name d i n)"
proof (rule logsI)
  fix w
  obtain r w1 where r: "run_scheduled_alloc cx env name d i n w = (r, w1)" by force
  obtain bs envs t where "w_trace w1 = w_trace w @ bs" "cut_off r (run_acts name d i n envs @ healthy_acts name i t) bs"
    using logsD [OF logs_run_scheduled r] by blast
  then show "\<exists>as. w_trace (snd (guarded_run cx env name d i n w)) = w_trace w @ as \<and>
    (\<exists>envs t bs. cut_off (fst (guarded_run cx env name d i n w)) (run_acts name d i n envs @ healthy_acts name i t) bs \<and>
      as = bs @ (case fst (guarded_run cx env name d i n w) of Inr _ \<Rightarrow> []
        | Inl e \<Rightarrow> [APropose (AllocStatus i (Failed (show_deploy_error e)))]))"
    by (cases r) (simp_all add: guarded_run_def r ignored_def, blast+)
qed

lemma started_run:
  assumes "cut_off r (run_acts name d i n envs @ healthy_acts name i t) bs"
  shows "started name d i r (scheduled_acts name d i n k @ bs @ (case r of Inr _ \<Rightarrow> []
    | Inl e \<Rightarrow> [APropose (AllocStatus i (Failed (show_deploy_error e)))]))"
proof (cases r)
  case (Inl e)
  then show ?thesis using assms unfolding Inl started.simps sum.case by blast
next
  case (Inr u)
  then show ?thesis using assms by auto
qed

lemma started_first: "\<not> is_ok r \<Longrightarrow> started name d i r [hd (scheduled_acts name d i n k)]"
  by (cases r) (auto simp: scheduled_acts_def)

lemma logs_start_alloc [logs]: "logs (started name d i) (start_alloc cx env name d i replica)"
  unfolding start_alloc_def guarded_run_def [symmetric]
proof (rule logs_bind [OF logs_reading])
  fix n
  let ?propose = "\<lambda>k. and_then (with_err DNode (propose env (AllocScheduled i k name KService None
      (alloc_resources_from (s_resources d))))) (\<lambda>_. guarded_run cx env name d i n)"
  let ?read = "\<lambda>_ :: unit. and_then (reading (\<lambda>s. case raft_id_for s n of
      None \<Rightarrow> Inl (SchedulingFailed name replica) | Some i \<Rightarrow> Inr i)) ?propose"
  let ?Q = "\<lambda>r as. as = [] \<and> \<not> is_ok r \<or> (\<exists>k. started name d i r (hd (scheduled_acts name d i n k) # as))"
  have p: "logs (\<lambda>r as. started name d i r (hd (scheduled_acts name d i n k) # as)) (?propose k)" for k
    by (rule logs_bind [OF logs_with [OF logs_propose] logs_guarded_run])
      (use started_run [of _ name d i n _ _ _ k] in \<open>auto simp: scheduled_acts_def\<close>)
  have r: "logs ?Q (?read ())"
    by (rule logs_bind [OF logs_reading p]) auto
  show "logs (started name d i) (and_then (quiet (send_json_event env ''progress''
      [(''service'', JStr name), (''phase'', JStr ''scheduled''), (''node'', JStr n)])) ?read)"
    by (rule logs_bind [OF logs_event r]) (use started_first [of _ name d i n 0] in \<open>auto simp: scheduled_acts_def\<close>)
qed simp_all



section \<open>The order of a rolling update\<close>

fun is_stop :: "action \<Rightarrow> bool" where
  "is_stop (ASend _ (Stop _)) = True"
| "is_stop _ = False"

fun is_healthy :: "action \<Rightarrow> bool" where
  "is_healthy (APropose (AllocStatus _ Healthy)) = True"
| "is_healthy _ = False"

fun schedules :: "string \<Rightarrow> action \<Rightarrow> alloc_id option" where
  "schedules name (APropose (AllocScheduled i _ name' KService None _)) = (if name' = name then Some i else None)"
| "schedules name _ = None"

definition stops :: "(alloc_id \<times> node_id) list \<Rightarrow> action list" where
  "stops xs = map (\<lambda>(i, n). ASend n (Stop i)) xs"

lemma cut_off_all: "cut_off r full as \<Longrightarrow> list_all P full \<Longrightarrow> list_all P as"
  by (cases r) auto

lemma started_no_stop: "started name d i r as \<Longrightarrow> list_all (Not \<circ> is_stop) as"
  by (cases r) (auto simp: scheduled_acts_def run_acts_def healthy_acts_def simp del: cut_off.simps
      dest!: cut_off_all [where P = "Not \<circ> is_stop"])

lemma started_ok:
  assumes "started name d i (Inr u) as"
  shows "length (filter is_healthy as) = 1" "Some i \<in> schedules name ` set as"
  using assms by (auto simp: scheduled_acts_def run_acts_def healthy_acts_def)

lemma logs_stop_all: "w_trace (stop_all env xs w) = w_trace w @ stops xs"
  by (induction env xs w rule: stop_all.induct) (simp_all add: ignored_def send_command_def Let_def stops_def)

lemma stop_old_trace: "w_trace (snd (stop_old env xs e w)) = w_trace w @ stops xs"
  by (induction env xs e w rule: stop_old.induct)
    (simp_all add: send_command_def Let_def stops_def split: sum.splits prod.splits)

text \<open>What the loop over the replicas did, given the allocations it had started before.\<close>

definition replaced :: "string \<Rightarrow> nat \<Rightarrow> alloc_id set \<Rightarrow> (deploy_error, (alloc_id \<times> node_id) list) result \<Rightarrow> action list \<Rightarrow> bool" where
  "replaced name k old r as \<longleftrightarrow> (\<exists>bs cs. as = bs @ stops cs \<and> list_all (Not \<circ> is_stop) bs \<and>
     fst ` set cs \<subseteq> old \<union> {i. Some i \<in> schedules name ` set bs} \<and>
     (is_ok r \<longrightarrow> cs = [] \<and> length (filter is_healthy bs) = k))"

lemma logs_start_replicas:
  "logs (replaced name (length rs) (fst ` set acc)) (start_replicas cx env name d rs acc)"
proof (rule logsI)
  fix w
  show "\<exists>as. w_trace (snd (start_replicas cx env name d rs acc w)) = w_trace w @ as \<and>
    replaced name (length rs) (fst ` set acc) (fst (start_replicas cx env name d rs acc w)) as"
  proof (induction rs arbitrary: acc w)
    case Nil
    show ?case by (auto simp: replaced_def stops_def)
  next
    case (Cons k rs)
    obtain sfx w1 where x: "draw_suffix env w = (sfx, w1)" by force
    have t1: "w_trace w1 = w_trace w" using x by (auto simp: draw_suffix_def Let_def)
    define i where "i = name @ CHR ''-'' # sfx"
    obtain r w2 where r: "start_alloc cx env name d i (word_of_nat k) w1 = (r, w2)" by force
    obtain as where as: "w_trace w2 = w_trace w1 @ as" "started name d i r as"
      using logsD [OF logs_start_alloc r] by blast
    note ns = started_no_stop [OF as(2)]
    show ?case
    proof (cases r)
      case (Inl e)
      then have eq: "start_replicas cx env name d (k # rs) acc w = (Inl e, stop_all env acc w2)"
        using r by (simp add: x Let_def i_def [symmetric])
      show ?thesis unfolding eq
        by (rule exI [of _ "as @ stops acc"])
          (auto simp: logs_stop_all as t1 replaced_def intro!: exI [of _ as] exI [of _ acc] ns)
    next
      case (Inr u)
      define acc' where "acc' = (case hm_get (f_allocs (w_fsm w2)) i of Some a \<Rightarrow> acc @ [(i, al_node a)] | None \<Rightarrow> acc)"
      have eq: "start_replicas cx env name d (k # rs) acc w = start_replicas cx env name d rs acc' w2"
        using r Inr by (simp add: x Let_def i_def [symmetric] acc'_def split: option.split)
      obtain as' bs cs where IH: "w_trace (snd (start_replicas cx env name d rs acc' w2)) = w_trace w2 @ as'"
        "as' = bs @ stops cs" "list_all (Not \<circ> is_stop) bs"
        "fst ` set cs \<subseteq> fst ` set acc' \<union> {i. Some i \<in> schedules name ` set bs}"
        "is_ok (fst (start_replicas cx env name d rs acc' w2)) \<longrightarrow> cs = [] \<and> length (filter is_healthy bs) = length rs"
        using Cons.IH [of acc' w2] unfolding replaced_def by blast
      have "fst ` set acc' \<subseteq> fst ` set acc \<union> {i. Some i \<in> schedules name ` set as}"
        using started_ok(2) [OF as(2) [unfolded Inr]] by (auto simp: acc'_def split: option.splits)
      then have "fst ` set cs \<subseteq> fst ` set acc \<union> {i. Some i \<in> schedules name ` set (as @ bs)}"
        using IH(4) unfolding set_append image_Un by blast
      moreover have "length (filter is_healthy as) = 1" by (rule started_ok(1) [OF as(2) [unfolded Inr]])
      ultimately have "replaced name (length (k # rs)) (fst ` set acc) (fst (start_replicas cx env name d rs acc' w2)) (as @ as')"
        unfolding replaced_def using IH(2,3,5) ns by (intro exI [of _ "as @ bs"] exI [of _ cs]) auto
      then show ?thesis unfolding eq by (intro exI [of _ "as @ as'"]) (simp add: IH(1) as t1)
    qed
  qed
qed

lemma no_stop_volumes: "does (Not \<circ> is_stop) (create_volumes_if_needed cx env d k)"
  unfolding create_volumes_if_needed_def
proof (rule does_for_each)
  fix v
  have quiet_id: "does P (quiet id)" for P by (rule does_quiet) simp
  have at: "does (Not \<circ> is_stop) (attach_volume cx env k n)" for n
    unfolding attach_volume_def
    by (intro does) (auto simp: does_def split: option.splits intro!: quiet_id
      does_with_err [OF does_attach, unfolded does_def, rule_format])
  show "does (Not \<circ> is_stop) (ensure_volume cx env k v)"
  proof (rule doesI)
    fix w
    show "evolves (Not \<circ> is_stop) w (snd (ensure_volume cx env k v w))"
      unfolding ensure_volume_def Let_def
      by (auto split: option.splits volume_state.splits intro!: doesD [OF _ prod.collapse [symmetric]] does at quiet_id)
  qed
qed


text \<open>Stops come late: for an allocation of this very update, or once enough replicas are healthy.\<close>

definition late :: "string \<Rightarrow> nat \<Rightarrow> action list \<Rightarrow> bool" where
  "late name k as \<longleftrightarrow> (\<forall>xs n i ys. as = xs @ ASend n (Stop i) # ys \<longrightarrow>
     Some i \<in> schedules name ` set xs \<or> k \<le> length (filter is_healthy xs))"

lemma stop_after:
  assumes "bs @ zs = xs @ a # ys" "list_all (Not \<circ> is_stop) bs" "is_stop a"
  obtains us where "xs = bs @ us" "zs = us @ a # ys"
proof -
  from assms(1) consider us where "bs = xs @ us" "us @ zs = a # ys" | us where "bs @ us = xs" "zs = us @ a # ys"
    unfolding append_eq_append_conv2 by blast
  then show thesis
  proof cases
    case (1 us)
    then show thesis
    proof (cases us)
      case Nil
      then show thesis using that [of "[]"] 1 by simp
    next
      case (Cons b us')
      then have "b = a" using 1(2) by simp
      then show thesis using Cons 1(1) assms(2,3) by simp
    qed
  qed (use that in blast)
qed

lemma late_no_stop: "list_all (Not \<circ> is_stop) as \<Longrightarrow> late name k as"
  unfolding late_def by (auto simp: list_all_iff)

lemma late_prefix:
  assumes "list_all (Not \<circ> is_stop) bs" "late name k as"
  shows "late name k (bs @ as)"
  unfolding late_def
proof (intro allI impI)
  fix xs n i ys
  assume "bs @ as = xs @ ASend n (Stop i) # ys"
  then obtain us where us: "xs = bs @ us" "as = us @ ASend n (Stop i) # ys"
    using assms(1) by (rule stop_after) simp
  have "Some i \<in> schedules name ` set us \<or> k \<le> length (filter is_healthy us)"
    using assms(2) us(2) unfolding late_def by blast
  then show "Some i \<in> schedules name ` set xs \<or> k \<le> length (filter is_healthy xs)"
    unfolding us(1) by auto
qed

lemma late_enough: "list_all (Not \<circ> is_stop) bs \<Longrightarrow> k \<le> length (filter is_healthy bs) \<Longrightarrow> late name k (bs @ as)"
  unfolding late_def by (clarify, erule stop_after) auto

lemma late_replaced:
  assumes "replaced name k {} r as"
  shows "late name k as"
proof -
  obtain bs cs where as: "as = bs @ stops cs" "list_all (Not \<circ> is_stop) bs"
    and cs: "fst ` set cs \<subseteq> {i. Some i \<in> schedules name ` set bs}"
    using assms unfolding replaced_def by auto
  show ?thesis unfolding late_def
  proof (intro allI impI)
    fix xs n i ys
    assume eq: "as = xs @ ASend n (Stop i) # ys"
    from eq [unfolded as(1)] as(2) obtain us where us: "xs = bs @ us" "stops cs = us @ ASend n (Stop i) # ys"
      by (rule stop_after) simp
    then have "ASend n (Stop i) \<in> set (stops cs)" by simp
    then have "i \<in> fst ` set cs" by (auto simp: stops_def intro: rev_image_eqI)
    then show "Some i \<in> schedules name ` set xs \<or> k \<le> length (filter is_healthy xs)"
      using cs us(1) by auto
  qed
qed

definition stopped_event :: "string \<Rightarrow> action" where
  "stopped_event name = AEvent ''progress'' [(''service'', JStr name), (''phase'', JStr ''stopped'')]"

lemma retire_old_trace:
  "retire_old env name old w = (r, w') \<Longrightarrow> w_trace w' = w_trace w @ stops old @ [stopped_event name]"
  using stop_old_trace [of env old None w]
  by (auto simp: retire_old_def Let_def send_json_event_def stopped_event_def split: prod.splits option.splits)

lemma rolling_update_trace:
  assumes "rolling_update cx env name d w = (r, w')"
  shows "\<exists>as. w_trace w' = w_trace w @ as \<and> late name (unat (s_replicas d)) as \<and>
    (is_ok r \<longrightarrow> (\<exists>bs cmds. as = bs @ stops (service_allocs name (apply_all cmds (w_fsm w))) @ [stopped_event name] \<and>
       list_all (Not \<circ> is_stop) bs \<and> unat (s_replicas d) \<le> length (filter is_healthy bs)))"
proof (cases "ready_node_for name (w_fsm w)")
  case (Inl e)
  then show ?thesis using assms late_no_stop [of "[]"]
    by (auto simp: rolling_update_def and_then_def reading_def)
next
  case (Inr k)
  obtain r1 w1 where v: "create_volumes_if_needed cx env d k w = (r1, w1)" by force
  have ev: "evolves (Not \<circ> is_stop) w w1" by (rule doesD [OF no_stop_volumes v])
  then obtain vs cmds where vs: "w_trace w1 = w_trace w @ vs" "list_all (Not \<circ> is_stop) vs"
    and cmds: "w_fsm w1 = apply_all cmds (w_fsm w)" unfolding evolves_def by blast
  show ?thesis
  proof (cases r1)
    case Inl1: (Inl e)
    then show ?thesis using assms Inr v vs
      by (auto simp: rolling_update_def and_then_def reading_def late_no_stop)
  next
    case Inr1: (Inr u)
    let ?old = "service_allocs name (w_fsm w1)"
    obtain r2 w2 where s: "start_replicas cx env name d [0..<unat (s_replicas d)] [] w1 = (r2, w2)" by force
    obtain as where as: "w_trace w2 = w_trace w1 @ as" "replaced name (unat (s_replicas d)) {} r2 as"
      using logsD [OF logs_start_replicas s] by auto
    have eq: "rolling_update cx env name d w =
        (case r2 of Inl e \<Rightarrow> (Inl e, w2) | Inr _ \<Rightarrow> retire_old env name ?old w2)"
      using Inr v Inr1 s by (auto simp: rolling_update_def and_then_def reading_def split: sum.split)
    show ?thesis
    proof (cases r2)
      case (Inl e)
      then show ?thesis using assms as vs eq late_prefix [OF vs(2) late_replaced [OF as(2)]] by auto
    next
      case (Inr new)
      then have st: "list_all (Not \<circ> is_stop) (vs @ as)" "unat (s_replicas d) \<le> length (filter is_healthy (vs @ as))"
        using as(2) vs(2) by (auto simp: replaced_def stops_def)
      have "w_trace w' = w_trace w2 @ stops ?old @ [stopped_event name]"
        using retire_old_trace [of env name ?old w2 r w'] assms eq Inr by simp
      then have tr: "w_trace w' = w_trace w @ (vs @ as) @ stops ?old @ [stopped_event name]" using as(1) vs(1) by simp
      show ?thesis
        by (intro exI conjI impI, rule tr, rule late_enough [OF st], rule arg_cong2 [where f = "(@)", OF refl])
          (simp_all add: cmds st [simplified])
    qed
  qed
qed


section \<open>A concrete run\<close>

definition svc_a :: service_def where
  "svc_a = svc1\<lparr> s_replicas := 1, s_resources := \<lparr> r_cpu = Fin 1, r_memory = 100 \<rparr> \<rparr>"

definition ctx1 :: deploy_ctx where
  "ctx1 = \<lparr> cx_volumes = True, cx_started = 0, cx_var = (\<lambda>_. None), cx_decrypt = (\<lambda>v n. Inr v) \<rparr>"

definition calm :: "command list list \<Rightarrow> env" where
  "calm batches k = \<lparr> oc_others = [], oc_raft_error = None, oc_committed = True,
     oc_router = router_register ''n1'' 0 router_new, oc_gone = (\<lambda>_. False), oc_storage_error = None,
     oc_cloud_id = ''vol'', oc_batches = batches, oc_probe = (\<lambda>_. (True, 0)), oc_time = 0, oc_nanos = 0, oc_seq = 0 \<rparr>"

definition state_a :: fsm_state where
  "state_a = fsm_default\<lparr> f_nodes := [(1, node1\<lparr> n_status := NReady \<rparr>)], f_allocs := [(''a'', alloc1 Running)] \<rparr>"

definition world_of :: "fsm_state \<Rightarrow> world" where
  "world_of s = \<lparr> w_fsm = s, w_clock = 0, w_trace = [] \<rparr>"

definition runs_a :: "command list list" where
  "runs_a = [[AllocRunning ''web-00'' (Some \<lparr> sa_ip = V4 0, sa_port = 0 \<rparr>) None]]"

lemma rand_suffix_0: "rand_suffix 0 0 = ''00''"
  by (simp add: rand_suffix_def show_hex.simps hex_digit_def)

lemma place_a: "schedule_on state_a (list_volumes state_a) (service_request ''web'' svc_a) = Some ''n1''"
  by (simp add: schedule_on_def schedule_def service_request_def svc_a_def svc1_def candidates_def state_a_def
      list_nodes_def node1_def node_available_resources_def alloc1_def list_allocs_def List.map_filter_def
      has_capacity_def min_by_def spread_def f64_sub_def sat_sub_def word_le_nat_alt)



lemma calm_simps:
  "draw_suffix (calm b) w = (''00'', tick (calm b) [] w)"
  "oc_others (now_outcome (calm b) w) = []"
  "send_command (calm b) ''n1'' c w = (Inr (), tick (calm b) [ASend ''n1'' c] w)"
  "propose (calm b) cmd w = (Inr (snd (apply_command (w_fsm w) cmd)),
     (tick (calm b) [APropose cmd] w)\<lparr> w_fsm := fst (apply_command (w_fsm w) cmd) \<rparr>)"
  by (simp_all add: draw_suffix_def now_outcome_def calm_def Let_def rand_suffix_0 tick_def send_command_def
      router_send_def router_register_def propose_eq)

lemma start_a:
  assumes "w_fsm w = state_a"
  shows "is_ok (fst (start_alloc ctx1 (calm runs_a) ''web'' svc_a ''web-00'' r w))"
proof -
  have r: "raft_id_for state_a ''n1'' = Some 1" by (simp add: raft_id_for_def state_a_def node1_def)
  have e: "resolve_env d st (s_env svc_a) = Inr []" for d st by (simp add: svc_a_def svc1_def resolve_env_def)
  have c: "check_ready ctx1 (calm b) svc_a w = (True, tick (calm b) [] w)" for b w
    by (simp add: check_ready_def svc_a_def svc1_def calm_def now_outcome_def Let_def wait_tcp_ready_def
      wait_tcp_ready_loop.simps)
  show ?thesis
    by (simp add: start_alloc_def and_then_def reading_def place_a quiet_def send_json_event_def calm_simps assms
      with_err_def run_scheduled_alloc_def r e)
      (simp add: c wait_for_status_def wait_state_def await_ready_def poll_for_address_def now_outcome_def 
     runs_a_def calm_def look_status_def apply_all_def mark_running_def state_a_def node1_def make_alloc_def tick_def,
      simp add: finish_healthy_def and_then_def calm_simps with_err_def quiet_def)
qed

lemma rolling_a: "is_ok (fst (rolling_update ctx1 (calm runs_a) ''web'' svc_a (world_of state_a)))"
proof -
  have s: "s_volumes svc_a = []" "unat (s_replicas svc_a) = 1" by (simp_all add: svc_a_def svc1_def)
  have n: "ready_node_for ''web'' state_a = Inr 1"
    by (simp add: ready_node_for_def first_ready_def state_a_def node1_def)
  have o: "service_allocs ''web'' state_a = [(''a'', ''n1'')]"
    by (simp add: service_allocs_def list_service_allocs_def state_a_def alloc1_def make_alloc_def)
  obtain u w2 where st: "start_alloc ctx1 (calm runs_a) ''web'' svc_a ''web-00'' 0 (tick (calm runs_a) [] (world_of state_a)) = (Inr u, w2)"
    using start_a [of "tick (calm runs_a) [] (world_of state_a)" 0]
    by (cases "start_alloc ctx1 (calm runs_a) ''web'' svc_a ''web-00'' 0 (tick (calm runs_a) [] (world_of state_a))")
      (auto simp: calm_simps world_of_def is_ok_iff)
  have "w_fsm (world_of state_a) = state_a" by (simp add: world_of_def)
  then show ?thesis
    using st by (simp add: rolling_update_def and_then_def reading_def n create_volumes_if_needed_def s o
      calm_simps Let_def retire_old_def split: option.splits)
qed




section \<open>The state after a failed start\<close>

lemma and_then_Inl:
  "and_then m f w = (Inl e, w') \<longleftrightarrow> m w = (Inl e, w') \<or> (\<exists>a w1. m w = (Inr a, w1) \<and> f a w1 = (Inl e, w'))"
  by (auto simp: and_then_def split: prod.splits sum.splits)

lemma guarded_run_Inl:
  "guarded_run cx env name d i n w = (Inl e, w') \<Longrightarrow>
    \<exists>w1. w' = snd (propose env (AllocStatus i (Failed (show_deploy_error e))) w1)"
  by (auto simp: guarded_run_def ignored_def split: prod.splits sum.splits)

lemma with_err_propose_trace: "with_err g (propose env c) w = (r, w') \<Longrightarrow> w_trace w' = w_trace w @ [APropose c]"
  by (cases "propose env c w") (use propose_trace [of env c w] in \<open>auto simp: with_err_def\<close>)

lemma start_alloc_fails:
  assumes "start_alloc cx env name d i replica w = (Inl e, w')"
  shows "(\<exists>as. w_trace w' = w_trace w @ as \<and> (\<forall>n c. ASend n c \<notin> set as)) \<or>
    (\<exists>w1. w' = snd (propose env (AllocStatus i (Failed (show_deploy_error e))) w1))"
  using assms [unfolded start_alloc_def guarded_run_def [symmetric] and_then_Inl]
  by (elim disjE exE conjE)
    (auto simp: reading_def quiet_def send_json_event_def dest: with_err_propose_trace guarded_run_Inl)

lemma propose_status_effect:
  assumes "w' = snd (propose env (AllocStatus i st) w1)" "oc_raft_error (env (w_clock w' - 1)) = None"
  shows "hm_get (f_allocs (w_fsm w')) i = None \<or> map_option al_status (hm_get (f_allocs (w_fsm w')) i) = Some st"
proof -
  have "oc_raft_error (now_outcome env w1) = None" using assms by (simp add: now_outcome_def)
  then have "w_fsm w' = fst (apply_command (w_fsm (tick env [APropose (AllocStatus i st)] w1)) (AllocStatus i st))"
    by (simp add: assms(1) propose_eq)
  then show ?thesis by (auto split: option.splits)
qed


text \<open>A start that never sees its container run.\<close>

lemma start_b:
  "start_alloc ctx1 (calm []) ''web'' svc_a ''web-00'' 0 (world_of state_a) =
    (Inl (HealthCheckTimeout ''web-00''), snd (start_alloc ctx1 (calm []) ''web'' svc_a ''web-00'' 0 (world_of state_a)))"
proof -
  have r: "raft_id_for state_a ''n1'' = Some 1" by (simp add: raft_id_for_def state_a_def node1_def)
  have e: "resolve_env d st (s_env svc_a) = Inr []" for d st by (simp add: svc_a_def svc1_def resolve_env_def)
  have w: "w_fsm (world_of state_a) = state_a" by (simp add: world_of_def)
  have "fst (start_alloc ctx1 (calm []) ''web'' svc_a ''web-00'' 0 (world_of state_a)) = Inl (HealthCheckTimeout ''web-00'')"
    by (simp add: start_alloc_def and_then_def reading_def place_a quiet_def send_json_event_def calm_simps w
      with_err_def run_scheduled_alloc_def r e)
     (simp add: wait_for_status_def wait_state_def now_outcome_def calm_def look_status_def state_a_def node1_def
        make_alloc_def)
  then show ?thesis by (metis prod.collapse)
qed



section \<open>The events of a deployment\<close>

text \<open>The work on one service reports progress and nothing else.\<close>

fun progress :: "action \<Rightarrow> bool" where
  "progress (AEvent e _) = (e = ''progress'')"
| "progress _ = True"

fun is_event :: "string \<Rightarrow> action \<Rightarrow> bool" where
  "is_event e (AEvent e' _) = (e = e')"
| "is_event e _ = False"

lemma progress_event: "is_event e a \<Longrightarrow> progress a \<Longrightarrow> e = ''progress''"
  by (cases a) auto

lemma evolves_call: "does P m \<Longrightarrow> evolves P w (snd (m w))"
  by (simp add: does_def)

lemma does_id [does]: "does P (quiet id)"
  by (rule does_quiet) simp

lemma does_wait_for_status [does]: "does P (wait_for_status env i)"
  unfolding does_def
  using does_wait [unfolded does_def, of P env "look_status i"]
  by (auto simp: wait_for_status_def split: prod.splits option.splits) (metis snd_conv)+

lemma does_check_ready [does]: "does P (check_ready cx env d)"
  by (rule doesI) (simp add: check_ready_def Let_def evolves_tick)

lemma does_finish_healthy [does]: "does progress (finish_healthy cx env name i)"
  unfolding finish_healthy_def by (intro does evolves_event) simp_all

lemma does_await_ready [does]: "does progress (await_ready cx env name d i)"
proof (rule doesI)
  fix w
  obtain a w1 where a: "poll_for_address env i w = (a, w1)" by force
  have e1: "evolves progress w w1" by (rule doesD [OF does_wait a [unfolded poll_for_address_def]])
  obtain b w2 where b: "check_ready cx env d w1 = (b, w2)" by force
  have e2: "evolves progress w1 w2" by (rule doesD [OF does_check_ready b])
  have "evolves progress w2 (snd (finish_healthy cx env name i w2))" by (rule evolves_call) (rule does)
  then show "evolves progress w (snd (await_ready cx env name d i w))"
    using e1 e2 by (auto simp: await_ready_def a b split: option.split bool.split intro: evolves_trans)
qed

lemma does_guarded_run [does]: "does progress (guarded_run cx env name d i n)"
proof (rule doesI)
  fix w
  have "does progress (run_scheduled_alloc cx env name d i n)"
    unfolding run_scheduled_alloc_def by (intro does evolves_event) simp_all
  then have "evolves progress w (snd (run_scheduled_alloc cx env name d i n w))" by (rule evolves_call)
  moreover have "evolves progress w1 (ignored (propose env c) w1)" for w1 c by (intro evolves_ignored does) simp
  ultimately show "evolves progress w (snd (guarded_run cx env name d i n w))"
    unfolding guarded_run_def by (auto split: prod.split sum.split intro: evolves_trans)
qed

lemma does_start_alloc [does]: "does progress (start_alloc cx env name d i replica)"
  unfolding start_alloc_def guarded_run_def [symmetric] by (intro does evolves_event) simp_all

lemma does_attach_volume [does]: "does progress (attach_volume cx env k n)"
proof -
  have "does progress (\<lambda>w. if cx_volumes cx then (case instance_id_for (w_fsm w) k of
      Some i \<Rightarrow> with_err DStorage (driver_attach env n i) w | None \<Rightarrow> (Inr (), w)) else (Inr (), w))"
    by (rule doesI) (auto split: option.split intro!: evolves_call does)
  then show ?thesis unfolding attach_volume_def by (intro does) simp_all
qed

lemma does_ensure_volume [does]: "does progress (ensure_volume cx env k v)"
  by (rule doesI) (auto simp: ensure_volume_def Let_def split: option.split volume_state.split intro!: evolves_call does)

lemma does_create_volumes [does]: "does progress (create_volumes_if_needed cx env d k)"
  unfolding create_volumes_if_needed_def by (intro does)

lemma evolves_stop_all: "evolves progress w (stop_all env xs w)"
proof (induction env xs w rule: stop_all.induct)
  case (2 env i n rest w)
  have "evolves progress w (ignored (send_command env n (Stop i)) w)" by (intro evolves_ignored does) simp
  then show ?case using 2 by (auto intro: evolves_trans)
qed simp

lemma does_start_replicas [does]: "does progress (start_replicas cx env name d rs acc)"
proof (rule doesI)
  fix w
  show "evolves progress w (snd (start_replicas cx env name d rs acc w))"
  proof (induction rs arbitrary: acc w)
    case (Cons k rs)
    obtain sfx w1 where x: "draw_suffix env w = (sfx, w1)" by force
    have e1: "evolves progress w w1" by (rule doesD [OF does_draw x])
    obtain r w2 where r: "start_alloc cx env name d (name @ ''-'' @ sfx) (word_of_nat k) w1 = (r, w2)" by force
    have "evolves progress w w2" by (rule evolves_trans [OF e1 doesD [OF does_start_alloc r]])
    then show ?case using Cons.IH evolves_stop_all r
      by (auto simp: x Let_def split: sum.split option.split intro: evolves_trans)
  qed simp
qed

lemma does_stop_old: "evolves progress w (snd (stop_old env xs e w))"
proof (induction env xs e w rule: stop_old.induct)
  case (2 env i n rest e w)
  obtain r w1 where r: "send_command env n (Stop i) w = (r, w1)" by force
  have "evolves progress w w1" by (rule doesD [OF does_send r]) simp
  then show ?case using 2 r by (auto split: sum.split intro: evolves_trans)
qed simp

lemma does_retire_old [does]: "does progress (retire_old env name old)"
proof (rule doesI)
  fix w
  obtain e w1 where o: "stop_old env old None w = (e, w1)" by force
  have "evolves progress w w1" using does_stop_old [of w env old None] o by simp
  then show "evolves progress w (snd (retire_old env name old w))"
    by (auto simp: retire_old_def o Let_def split: option.split intro!: evolves_event intro: evolves_trans)
qed

lemma does_rolling_update [does]: "does progress (rolling_update cx env name d)"
  unfolding rolling_update_def by (intro does)

lemma does_deploy_service [does]: "does progress (deploy_service cx env name d)"
  unfolding deploy_service_def by (intro does)

lemma does_stop_service [does]: "does progress (stop_service env name)"
proof (rule doesI)
  fix w :: world
  have "does progress (for_each (\<lambda>(i, n). with_err DNode (send_command env n (Stop i))) xs)" for xs
    by (rule does_for_each) (auto split: prod.split intro!: does)
  then have "does progress (and_then
      (for_each (\<lambda>(i, n). with_err DNode (send_command env n (Stop i))) (service_allocs name (w_fsm w)))
      (\<lambda>_. quiet (send_json_event env ''progress'' [(''service'', JStr name), (''phase'', JStr ''stopped'')])))"
    by (intro does_and_then does_quiet evolves_event) simp_all
  then show "evolves progress w (snd (stop_service env name w))" unfolding stop_service_def by (rule evolves_call)
qed

lemma evolves_pulls: "evolves progress w (fold (\<lambda>image w. ignored (broadcast_command env (Pull image None)) w) images w)"
proof (induction images arbitrary: w)
  case (Cons i images)
  have "evolves progress w (ignored (broadcast_command env (Pull i None)) w)" by (intro evolves_ignored does) simp
  then show ?case using Cons by (auto intro: evolves_trans)
qed simp

lemma evolves_eager_pull: "evolves progress w (eager_pull env plan w)"
  by (simp add: eager_pull_def Let_def evolves_pulls evolves_trans [OF evolves_pulls evolves_event])

text \<open>The two loops: they report a failure with an event, and only then.\<close>

lemma try_services_trace:
  assumes "\<And>name d. does progress (f name d)" "try_services env f svcs b w = (b', w')"
  shows "\<exists>as. w_trace w' = w_trace w @ as \<and> (b' \<longleftrightarrow> b \<or> list_ex (is_event ''failed'') as) \<and>
    \<not> list_ex (is_event ''done'') as"
  using assms(2)
proof (induction svcs arbitrary: b w)
  case (Cons x svcs)
  obtain name d where x: "x = (name, d)" by force
  obtain r w1 where r: "f name d w = (r, w1)" by force
  obtain as where as: "w_trace w1 = w_trace w @ as" "list_all progress as"
    using doesD [OF assms(1) r] unfolding evolves_def by blast
  then have none: "\<not> list_ex (is_event ''failed'') as" "\<not> list_ex (is_event ''done'') as"
    by (auto simp: list_ex_iff list_all_iff dest!: progress_event)
  show ?case
  proof (cases r)
    case (Inl e)
    let ?w = "send_json_event env ''failed'' [(''service'', JStr name), (''reason'', JStr (show_deploy_error e))] w1"
    have "try_services env f svcs True ?w = (b', w')" using Cons.prems by (simp add: x r Inl)
    from Cons.IH [OF this] show ?thesis using as none
      by (auto simp: send_json_event_def)
  next
    case (Inr u)
    then have "try_services env f svcs b w1 = (b', w')" using Cons.prems by (simp add: x r)
    from Cons.IH [OF this] show ?thesis using as none by auto
  qed
qed auto

lemma no_event: "list_all progress as \<Longrightarrow> e \<noteq> ''progress'' \<Longrightarrow> \<not> list_ex (is_event e) as"
  by (auto simp: list_ex_iff list_all_iff dest!: progress_event)

definition rollback :: "cluster_config option \<Rightarrow> bool \<Rightarrow> action list" where
  "rollback old ok = (case old of Some c \<Rightarrow> if ok then [] else [APropose (Deploy c)] | None \<Rightarrow> [])"

definition done_event :: "f64 \<Rightarrow> bool \<Rightarrow> action" where
  "done_event t ok = AEvent ''done'' [(''elapsed'', JNum t), (''success'', JBool ok)]"

fun rolled_out :: "cluster_config option \<Rightarrow> (deploy_error, unit) result \<Rightarrow> action list \<Rightarrow> bool" where
  "rolled_out old (Inl e) as \<longleftrightarrow> \<not> list_ex (is_event ''done'') as"
| "rolled_out old (Inr _) as \<longleftrightarrow> (\<exists>bs t ok. as = bs @ rollback old ok @ [done_event t ok] \<and>
     \<not> list_ex (is_event ''done'') bs \<and> (ok \<longleftrightarrow> \<not> list_ex (is_event ''failed'') bs))"

lemma rolled_out_Cons:
  assumes "\<not> is_event ''done'' a" "\<not> is_event ''failed'' a" "rolled_out old r as"
  shows "rolled_out old r (a # as)"
proof (cases r)
  case (Inr u)
  then obtain bs t ok where "as = bs @ rollback old ok @ [done_event t ok]"
    "\<not> list_ex (is_event ''done'') bs" "ok \<longleftrightarrow> \<not> list_ex (is_event ''failed'') bs" using assms(3) by auto
  then show ?thesis unfolding Inr rolled_out.simps using assms(1,2)
    by (intro exI [of _ "a # bs"] exI [of _ t] exI [of _ ok]) auto
qed (use assms in auto)

lemma rolled_out_progress: "list_all progress bs \<Longrightarrow> rolled_out old r as \<Longrightarrow> rolled_out old r (bs @ as)"
  by (induction bs) (auto intro!: rolled_out_Cons dest!: progress_event)

definition finish_roll_out where
  "finish_roll_out cx env old_config plan w =
     (case try_services env (deploy_service cx env) (dp_added plan) False w of (has_failures, w) \<Rightarrow>
      case try_services env (rolling_update cx env) (dp_changed plan) has_failures w of (has_failures, w) \<Rightarrow>
      let w = (case old_config of
                 Some old \<Rightarrow> if has_failures then ignored (propose env (Deploy old)) w else w
               | None \<Rightarrow> w)
      in (Inr (), send_json_event env ''done''
            [(''elapsed'', JNum (elapsed env (cx_started cx) w)), (''success'', JBool (\<not> has_failures))] w))"

lemma logs_finish_roll_out: "logs (rolled_out old) (finish_roll_out cx env old plan)"
proof (rule logsI)
  fix w
  obtain b1 w1 where t1: "try_services env (deploy_service cx env) (dp_added plan) False w = (b1, w1)" by force
  obtain as1 where as1: "w_trace w1 = w_trace w @ as1" "b1 \<longleftrightarrow> list_ex (is_event ''failed'') as1" "\<not> list_ex (is_event ''done'') as1"
    using try_services_trace [OF does_deploy_service t1] by auto
  obtain b2 w2 where t2: "try_services env (rolling_update cx env) (dp_changed plan) b1 w1 = (b2, w2)" by force
  obtain as2 where as2: "w_trace w2 = w_trace w1 @ as2" "b2 \<longleftrightarrow> b1 \<or> list_ex (is_event ''failed'') as2" "\<not> list_ex (is_event ''done'') as2"
    using try_services_trace [OF does_rolling_update t2] by auto
  define w3 where "w3 = (case old of Some c \<Rightarrow> if b2 then ignored (propose env (Deploy c)) w2 else w2 | None \<Rightarrow> w2)"
  have t3: "w_trace w3 = w_trace w2 @ rollback old (\<not> b2)"
    by (simp add: w3_def rollback_def ignored_def split: option.split)
  have eq: "finish_roll_out cx env old plan w =
      (Inr (), send_json_event env ''done'' [(''elapsed'', JNum (elapsed env (cx_started cx) w3)), (''success'', JBool (\<not> b2))] w3)"
    unfolding finish_roll_out_def by (simp add: t1 t2 w3_def Let_def)
  show "\<exists>as. w_trace (snd (finish_roll_out cx env old plan w)) = w_trace w @ as \<and>
    rolled_out old (fst (finish_roll_out cx env old plan w)) as"
    unfolding eq
  proof (intro exI conjI)
    show "w_trace (snd (Inr (), send_json_event env ''done''
        [(''elapsed'', JNum (elapsed env (cx_started cx) w3)), (''success'', JBool (\<not> b2))] w3)) =
      w_trace w @ (as1 @ as2) @ rollback old (\<not> b2) @ [done_event (elapsed env (cx_started cx) w3) (\<not> b2)]"
      by (simp add: send_json_event_def t3 as1(1) as2(1) done_event_def)
    show "rolled_out old (fst (Inr (), send_json_event env ''done''
        [(''elapsed'', JNum (elapsed env (cx_started cx) w3)), (''success'', JBool (\<not> b2))] w3))
      ((as1 @ as2) @ rollback old (\<not> b2) @ [done_event (elapsed env (cx_started cx) w3) (\<not> b2)])"
      unfolding fst_conv rolled_out.simps using as1(2,3) as2(2,3)
      by (intro exI [of _ "as1 @ as2"] exI [of _ "elapsed env (cx_started cx) w3"] exI [of _ "\<not> b2"]) auto
  qed
qed

lemma logs_roll_out: "logs (rolled_out old) (roll_out cx env old plan)"
  unfolding roll_out_def finish_roll_out_def [symmetric]
  by (rule logs_bind [OF logs_does [OF does_for_each [OF does_stop_service]] logs_finish_roll_out])
    (auto simp: no_event intro: rolled_out_progress)

lemma logs_run_deploy:
  "logs (\<lambda>r as. \<exists>bs. as = AEvent ''progress'' [(''phase'', JStr ''started'')] # bs \<and> rolled_out (f_config (w_fsm w)) r bs)
    (\<lambda>w'. let old_config = f_config (w_fsm w);
         plan = diff_config old_config new_config
     in and_then (quiet (send_json_event env ''progress'' [(''phase'', JStr ''started'')])) (\<lambda>_.
        and_then (reading (\<lambda>s. validate_secret_refs new_config (set (list_secret_names s)))) (\<lambda>_.
        and_then (reading (\<lambda>s. validate_resource_capacity new_config (ready_capacities s))) (\<lambda>_.
        and_then (quiet (eager_pull env plan)) (\<lambda>_.
        and_then (with_err DNode (propose env (Deploy new_config))) (\<lambda>_.
        roll_out cx env old_config plan))))) w')"
proof -
  let ?old = "f_config (w_fsm w)"
  let ?plan = "diff_config ?old new_config"
  have p: "logs (rolled_out ?old) (and_then (with_err DNode (propose env (Deploy new_config))) (\<lambda>_. roll_out cx env ?old ?plan))"
    by (rule logs_bind [OF logs_with [OF logs_propose] logs_roll_out]) (auto intro: rolled_out_Cons)
  have e: "logs (rolled_out ?old) (and_then (quiet (eager_pull env ?plan)) (\<lambda>_.
      and_then (with_err DNode (propose env (Deploy new_config))) (\<lambda>_. roll_out cx env ?old ?plan)))"
    by (rule logs_bind [OF logs_does [OF does_quiet [OF evolves_eager_pull]] p]) (auto simp: no_event intro: rolled_out_progress)
  show ?thesis unfolding Let_def
    by (rule logs_bind [OF logs_event logs_bind [OF logs_reading logs_bind [OF logs_reading e]]]) auto
qed



definition state_c :: fsm_state where
  "state_c = state_a\<lparr> f_config := Some (config_of [(''web'', svc_a)]) \<rparr>"

lemma deploy_c: "is_ok (fst (run_deploy ctx1 (calm []) (config_of []) (world_of state_c)))"
proof -
  have plan: "dp_added (diff_config (f_config state_c) (config_of [])) = []"
    "dp_changed (diff_config (f_config state_c) (config_of [])) = []"
    "dp_removed (diff_config (f_config state_c) (config_of [])) = [''web'']"
    by (simp_all add: diff_config_def state_c_def config_of_def Let_def hm_has_def)
  have "caps \<noteq> [] \<Longrightarrow> validate_resource_capacity (config_of []) caps = Inr ()" for caps
    by (simp add: validate_resource_capacity_def config_of_def)
  moreover have "ready_capacities state_c \<noteq> []"
    by (simp add: ready_capacities_def list_nodes_def state_c_def state_a_def)
  ultimately have v: "validate_resource_capacity (config_of []) (ready_capacities state_c) = Inr ()" by blast
  have m: "validate_secret_refs (config_of []) names = Inr ()" for names
    by (simp add: validate_secret_refs_def config_of_def)
  have o: "service_allocs ''web'' (state_c\<lparr> f_config := c \<rparr>) = [(''a'', ''n1'')]" for c
    by (simp add: service_allocs_def list_service_allocs_def state_c_def state_a_def alloc1_def make_alloc_def)
  have w: "w_fsm (world_of state_c) = state_c" by (simp add: world_of_def)
  show ?thesis
    by (simp add: run_deploy_def Let_def and_then_def quiet_def send_json_event_def reading_def w calm_simps m v
      eager_pull_def plan with_err_def roll_out_def stop_service_def o)
qed



section \<open>Volumes follow the first ready node\<close>

text \<open>Nothing fails: no other task acts, and Raft and the cloud accept every call.\<close>

definition no_failures :: "env \<Rightarrow> bool" where
  "no_failures env \<longleftrightarrow> undisturbed env \<and> (\<forall>k. oc_storage_error (env k) = None)"

definition attached_to :: "string \<Rightarrow> node_id \<Rightarrow> fsm_state \<Rightarrow> bool" where
  "attached_to v m s \<longleftrightarrow> map_option v_state (hm_get (f_volumes s) v) = Some (VAttached m)"

text \<open>A call that only moves the volume \<open>v\<close>.\<close>

definition touches_only :: "string \<Rightarrow> world \<Rightarrow> world \<Rightarrow> bool" where
  "touches_only v w w' \<longleftrightarrow> f_nodes (w_fsm w') = f_nodes (w_fsm w) \<and>
    (\<forall>u. u \<noteq> v \<longrightarrow> hm_get (f_volumes (w_fsm w')) u = hm_get (f_volumes (w_fsm w)) u)"

lemma attach_volume_ok:
  assumes "no_failures env" "hm_get (f_nodes (w_fsm w)) k = Some n" "hm_get (f_volumes (w_fsm w)) v = Some vol"
  shows "\<exists>w'. attach_volume cx env k v w = (Inr (), w') \<and> attached_to v (n_mill_id n) (w_fsm w') \<and> touches_only v w w'"
proof -
  have u: "undisturbed env" and o: "oc_storage_error (now_outcome env w) = None" for w
    using assms(1) by (simp_all add: no_failures_def now_outcome_def)
  have "\<exists>w1. (if cx_volumes cx then (case instance_id_for (w_fsm w) k of
      Some i \<Rightarrow> with_err DStorage (driver_attach env v i) w | None \<Rightarrow> (Inr (), w)) else (Inr (), w)) = (Inr (), w1) \<and> w_fsm w1 = w_fsm w"
    by (auto simp: with_err_def driver_attach_def Let_def o undisturbed_others [OF u] split: option.split)
  then show ?thesis
    using assms(2,3)
    by (auto simp: attach_volume_def and_then_def with_err_def undisturbed_propose [OF u] quiet_def attached_to_def
        touches_only_def)
qed

lemma ensure_volume_ok:
  assumes "no_failures env" "cx_volumes cx" "hm_get (f_nodes (w_fsm w)) k = Some n"
  shows "\<exists>w'. ensure_volume cx env k v w = (Inr (), w') \<and> touches_only (vd_name v) w w' \<and>
    (\<not> vd_ephemeral v \<or> attached_to (vd_name v) (n_mill_id n) (w_fsm w) \<longrightarrow> attached_to (vd_name v) (n_mill_id n) (w_fsm w'))"
proof (cases "vd_ephemeral v")
  case True
  then show ?thesis by (simp add: ensure_volume_def touches_only_def)
next
  case False
  have u: "undisturbed env" and o: "oc_storage_error (now_outcome env w) = None" for w
    using assms(1) by (simp_all add: no_failures_def now_outcome_def)
  show ?thesis
  proof (cases "hm_get (f_volumes (w_fsm w)) (vd_name v)")
    case None
    let ?w = "snd (propose env (VolumeCreated (vd_name v) (oc_cloud_id (now_outcome env w)))
        (tick env [ACreate (vd_name v) (case vd_size v of Some b \<Rightarrow> b | None \<Rightarrow> gib10)] w))"
    have "hm_get (f_nodes (w_fsm ?w)) k = Some n" "\<exists>vol. hm_get (f_volumes (w_fsm ?w)) (vd_name v) = Some vol"
      and t: "touches_only (vd_name v) w ?w"
      using assms(3) by (simp_all add: undisturbed_propose [OF u] undisturbed_others [OF u] touches_only_def)
    then obtain w' where "attach_volume cx env k (vd_name v) ?w = (Inr (), w')"
      "attached_to (vd_name v) (n_mill_id n) (w_fsm w')" "touches_only (vd_name v) ?w w'"
      using attach_volume_ok [OF assms(1)] by blast
    then show ?thesis using False None assms(2) t
      by (simp add: ensure_volume_def Let_def and_then_def with_err_def driver_create_def o
          undisturbed_propose [OF u] touches_only_def)
  next
    case (Some vol)
    show ?thesis
    proof (cases "v_state vol")
      case VReady
      then show ?thesis using False Some attach_volume_ok [OF assms(1,3) Some, of cx]
        by (auto simp: ensure_volume_def Let_def)
    next
      case (VAttached m)
      let ?w = "snd (propose env (VolumeDetached (vd_name v)) (tick env [ADetach (vd_name v)] w))"
      have "hm_get (f_nodes (w_fsm ?w)) k = Some n" "\<exists>vol. hm_get (f_volumes (w_fsm ?w)) (vd_name v) = Some vol"
        and t: "touches_only (vd_name v) w ?w"
        using assms(3) Some by (simp_all add: undisturbed_propose [OF u] undisturbed_others [OF u] touches_only_def)
      then obtain w' where "attach_volume cx env k (vd_name v) ?w = (Inr (), w')"
        "attached_to (vd_name v) (n_mill_id n) (w_fsm w')" "touches_only (vd_name v) ?w w'"
        using attach_volume_ok [OF assms(1)] by blast
      then show ?thesis using False Some VAttached assms(2,3) t
        by (cases "m = n_mill_id n")
          (simp_all add: ensure_volume_def Let_def and_then_def with_err_def driver_detach_def o attached_to_def
            undisturbed_propose [OF u] undisturbed_others [OF u] touches_only_def)
    qed
  qed
qed

lemma create_volumes_ok:
  assumes "no_failures env" "cx_volumes cx" "hm_get (f_nodes (w_fsm w)) k = Some n"
  shows "\<exists>w'. for_each (ensure_volume cx env k) vols w = (Inr (), w') \<and> f_nodes (w_fsm w') = f_nodes (w_fsm w) \<and>
    (\<forall>v \<in> set vols. \<not> vd_ephemeral v \<longrightarrow> attached_to (vd_name v) (n_mill_id n) (w_fsm w')) \<and>
    (\<forall>u. attached_to u (n_mill_id n) (w_fsm w) \<longrightarrow> attached_to u (n_mill_id n) (w_fsm w'))"
  using assms(3)
proof (induction vols arbitrary: w)
  case (Cons v vols)
  obtain w1 where w1: "ensure_volume cx env k v w = (Inr (), w1)" "touches_only (vd_name v) w w1"
    "\<not> vd_ephemeral v \<longrightarrow> attached_to (vd_name v) (n_mill_id n) (w_fsm w1)"
    and w14: "attached_to (vd_name v) (n_mill_id n) (w_fsm w) \<longrightarrow> attached_to (vd_name v) (n_mill_id n) (w_fsm w1)"
    using ensure_volume_ok [OF assms(1,2) Cons.prems] by blast
  have keep: "attached_to u (n_mill_id n) (w_fsm w1)" if "attached_to u (n_mill_id n) (w_fsm w)" for u
    using w1(2) w14 that by (cases "u = vd_name v") (simp_all add: attached_to_def touches_only_def)
  have "hm_get (f_nodes (w_fsm w1)) k = Some n" using w1(2) Cons.prems by (simp add: touches_only_def)
  from Cons.IH [OF this] obtain w2 where "for_each (ensure_volume cx env k) vols w1 = (Inr (), w2)"
    "f_nodes (w_fsm w2) = f_nodes (w_fsm w1)"
    "\<forall>v \<in> set vols. \<not> vd_ephemeral v \<longrightarrow> attached_to (vd_name v) (n_mill_id n) (w_fsm w2)"
    "\<forall>u. attached_to u (n_mill_id n) (w_fsm w1) \<longrightarrow> attached_to u (n_mill_id n) (w_fsm w2)" by blast
  then show ?case using w1 keep by (simp add: touches_only_def)
qed simp


text \<open>A volume that a running allocation of node \<open>n2\<close> holds moves to node \<open>n1\<close>.\<close>

definition svc_v :: service_def where
  "svc_v = svc_a\<lparr> s_volumes := [\<lparr> vd_name = ''data'', vd_path = ''/data'', vd_size = None, vd_ephemeral = False \<rparr>] \<rparr>"

definition state_v :: fsm_state where
  "state_v = state_a\<lparr> f_volumes := [(''data'', \<lparr> v_cloud_id = ''vol'', v_state = VAttached ''n2'' \<rparr>)] \<rparr>"


end
