(* ===== verification/Report.thy ===== *)
theory Report
  imports Deploy
begin

text \<open>
  The report processor, \<^verbatim>\<open>crates/node/src/primary/report.rs\<close>, with the metrics it
  keeps and the tracker of heartbeats of \<^verbatim>\<open>watchdog.rs\<close>. Counters have 64 bits and wrap.
\<close>

section \<open>Heartbeats\<close>

type_synonym heartbeat_tracker = "(u64, time) hash_map"

definition tracker_new :: heartbeat_tracker where "tracker_new = []"

definition tracker_record :: "u64 \<Rightarrow> time \<Rightarrow> heartbeat_tracker \<Rightarrow> heartbeat_tracker" where
  "tracker_record raft_id now t = hm_insert raft_id now t"

definition last_seen :: "heartbeat_tracker \<Rightarrow> u64 \<Rightarrow> time option" where
  "last_seen t raft_id = hm_get t raft_id"

definition tracker_remove :: "u64 \<Rightarrow> heartbeat_tracker \<Rightarrow> heartbeat_tracker" where
  "tracker_remove raft_id t = hm_remove raft_id t"


section \<open>Durations of tasks\<close>

definition task_duration_buckets :: "f64 list" where
  "task_duration_buckets = [Fin 1, Fin 5, Fin 30, Fin 60, Fin 300, Fin 600, Fin 1800, Fin 3600, PInf]"

record duration_histogram =
  dh_count :: u64
  dh_sum_seconds :: f64
  dh_buckets :: "u64 list"

definition histogram_new :: duration_histogram where
  "histogram_new = \<lparr> dh_count = 0, dh_sum_seconds = Fin 0, dh_buckets = replicate 9 0 \<rparr>"

text \<open>The loop over the bounds stops at the first one that is not smaller.\<close>

fun bump_first :: "f64 \<Rightarrow> f64 list \<Rightarrow> u64 list \<Rightarrow> u64 list" where
  "bump_first secs (bound # bounds) (c # cs) =
    (if f64_le secs bound then (c + 1) # cs else c # bump_first secs bounds cs)"
| "bump_first secs _ cs = cs"

definition histogram_record :: "duration \<Rightarrow> duration_histogram \<Rightarrow> duration_histogram" where
  "histogram_record dur h =
    (let secs = as_secs_f64 dur
     in h\<lparr> dh_count := dh_count h + 1, dh_sum_seconds := f64_add (dh_sum_seconds h) secs,
           dh_buckets := bump_first secs task_duration_buckets (dh_buckets h) \<rparr>)"

fun cumulate :: "u64 \<Rightarrow> f64 list \<Rightarrow> u64 list \<Rightarrow> (f64 \<times> u64) list" where
  "cumulate cumulative (bound # bounds) (c # cs) =
    (bound, cumulative + c) # cumulate (cumulative + c) bounds cs"
| "cumulate cumulative _ _ = []"

record histogram_snapshot =
  hs_name :: string
  hs_count :: u64
  hs_sum_seconds :: f64
  hs_buckets :: "(f64 \<times> u64) list"


section \<open>Metrics\<close>

record node_metrics_snapshot =
  nm_resources :: node_resources
  nm_container_stats :: "container_stats list"

record live_metrics =
  lm_node_metrics :: "(node_id, node_metrics_snapshot) hash_map"
  lm_restart_counts :: "(string, u64) hash_map"
  lm_task_spawn_counts :: "(string, u64) hash_map"
  lm_task_durations :: "(string, duration_histogram) hash_map"

definition live_metrics_new :: live_metrics where
  "live_metrics_new = \<lparr> lm_node_metrics = [], lm_restart_counts = [], lm_task_spawn_counts = [],
     lm_task_durations = [] \<rparr>"

definition metrics_update :: "node_id \<Rightarrow> node_resources \<Rightarrow> container_stats list \<Rightarrow> live_metrics \<Rightarrow> live_metrics" where
  "metrics_update node_id resources stats m =
    m\<lparr> lm_node_metrics := hm_insert node_id \<lparr> nm_resources = resources, nm_container_stats = stats \<rparr>
         (lm_node_metrics m) \<rparr>"

definition snapshot_all :: "live_metrics \<Rightarrow> (node_id, node_metrics_snapshot) hash_map" where
  "snapshot_all m = lm_node_metrics m"

text \<open>\<^verbatim>\<open>*entry(name).or_insert(0) += 1\<close>\<close>

definition bump_count :: "string \<Rightarrow> (string, u64) hash_map \<Rightarrow> (string, u64) hash_map" where
  "bump_count name m = hm_insert name ((case hm_get m name of None \<Rightarrow> 0 | Some c \<Rightarrow> c) + 1) m"

definition record_restart :: "string \<Rightarrow> live_metrics \<Rightarrow> live_metrics" where
  "record_restart name m = m\<lparr> lm_restart_counts := bump_count name (lm_restart_counts m) \<rparr>"

definition record_task_spawn :: "string \<Rightarrow> live_metrics \<Rightarrow> live_metrics" where
  "record_task_spawn name m = m\<lparr> lm_task_spawn_counts := bump_count name (lm_task_spawn_counts m) \<rparr>"

definition record_task_duration :: "string \<Rightarrow> duration \<Rightarrow> live_metrics \<Rightarrow> live_metrics" where
  "record_task_duration name dur m =
    m\<lparr> lm_task_durations := hm_insert name
         (histogram_record dur (case hm_get (lm_task_durations m) name of None \<Rightarrow> histogram_new | Some h \<Rightarrow> h))
         (lm_task_durations m) \<rparr>"

definition task_duration_snapshots :: "live_metrics \<Rightarrow> histogram_snapshot list" where
  "task_duration_snapshots m = map (\<lambda>(name, h).
     \<lparr> hs_name = name, hs_count = dh_count h, hs_sum_seconds = dh_sum_seconds h,
       hs_buckets = cumulate 0 task_duration_buckets (dh_buckets h) \<rparr>) (lm_task_durations m)"


section \<open>Reports\<close>

text \<open>
  What the processor holds besides the state. A subscriber is the channel of a client; the lines
  that were accepted by a channel are kept with it.
\<close>

record report_state =
  rp_tracker :: heartbeat_tracker
  rp_metrics :: live_metrics
  rp_subscribers :: "(alloc_id, nat list) hash_map"
  rp_delivered :: "(nat \<times> log_line list) list"

definition started_address ::
  "fsm_state \<Rightarrow> alloc_id \<Rightarrow> u16 option \<Rightarrow> socket_addr option \<Rightarrow> socket_addr option" where
  "started_address s alloc_id host_port address =
    (case address of
       Some a \<Rightarrow> Some a
     | None \<Rightarrow> Option.bind host_port (\<lambda>port.
         Option.bind (map_option al_node (hm_get (f_allocs s) alloc_id)) (\<lambda>mill_id.
         map_option (\<lambda>n. \<lparr> sa_ip = sa_ip (n_address n), sa_port = port \<rparr>)
           (List.find (\<lambda>n. n_mill_id n = mill_id) (hm_values (f_nodes s))))))"

definition finished_task :: "time \<Rightarrow> fsm_state \<Rightarrow> alloc_id \<Rightarrow> (string \<times> duration) option" where
  "finished_task now s alloc_id =
    Option.bind (hm_get (f_allocs s) alloc_id) (\<lambda>a.
      if al_kind a = KTask
      then Option.bind (al_started_at a) (\<lambda>started.
             if started \<le> now then Some (al_name a, now - started) else None)
      else None)"

definition deliver_lines ::
  "(nat \<Rightarrow> bool) \<Rightarrow> (nat \<Rightarrow> bool) \<Rightarrow> alloc_id \<Rightarrow> log_line list \<Rightarrow> report_state \<Rightarrow> report_state" where
  "deliver_lines is_closed has_room alloc_id lines rp =
    (case hm_get (rp_subscribers rp) alloc_id of
       None \<Rightarrow> rp
     | Some subs \<Rightarrow>
        (let subs = filter (\<lambda>tx. \<not> is_closed tx) subs
         in rp\<lparr> rp_subscribers := hm_insert alloc_id subs (rp_subscribers rp),
                rp_delivered := rp_delivered rp @ map (\<lambda>tx. (tx, lines)) (filter has_room subs) \<rparr>))"

text \<open>The command of a report, if it has one, and what the processor notes down before.\<close>

definition translate_report ::
  "(nat \<Rightarrow> bool) \<Rightarrow> (nat \<Rightarrow> bool) \<Rightarrow> time \<Rightarrow> fsm_state \<Rightarrow> node_report \<Rightarrow> report_state \<Rightarrow>
   command option \<times> report_state" where
  "translate_report is_closed has_room now s report rp =
    (case report of
       RunStarted alloc_id host_port address \<Rightarrow>
         (Some (AllocRunning alloc_id (started_address s alloc_id host_port address) (Some now)), rp)
     | RunFailed alloc_id reason \<Rightarrow> (Some (AllocStatus alloc_id (Failed reason)), rp)
     | RStopped alloc_id code \<Rightarrow>
         (Some (AllocStatus alloc_id (Stopped code)),
          case finished_task now s alloc_id of
            Some (name, dur) \<Rightarrow> rp\<lparr> rp_metrics := record_task_duration name dur (rp_metrics rp) \<rparr>
          | None \<Rightarrow> rp)
     | StatusUpdate alloc_id status \<Rightarrow> (Some (AllocStatus alloc_id status), rp)
     | Heartbeat hb \<Rightarrow>
        (case List.find (\<lambda>(_, n). n_mill_id n = hb_node_id hb) (f_nodes s) of
           Some (i, _) \<Rightarrow>
             (Some (NodeHeartbeat i (hb_alloc_statuses hb)),
              rp\<lparr> rp_tracker := tracker_record i now (rp_tracker rp),
                  rp_metrics := metrics_update (hb_node_id hb) (hb_resources hb) (hb_stats hb) (rp_metrics rp) \<rparr>)
         | None \<Rightarrow> (None, rp))
     | LogLines alloc_id lines \<Rightarrow> (None, deliver_lines is_closed has_room alloc_id lines rp)
     | PullComplete img \<Rightarrow> (None, rp)
     | PullFailed img reason \<Rightarrow> (None, rp))"

definition process_report ::
  "(nat \<Rightarrow> bool) \<Rightarrow> (nat \<Rightarrow> bool) \<Rightarrow> env \<Rightarrow> node_report \<Rightarrow> report_state \<Rightarrow> world \<Rightarrow>
   (node_error, unit) result \<times> report_state \<times> world" where
  "process_report is_closed has_room env report rp w =
    (case translate_report is_closed has_room (oc_time (now_outcome env w)) (w_fsm w) report rp of
       (None, rp') \<Rightarrow> (Inr (), rp', w)
     | (Some cmd, rp') \<Rightarrow>
        (case propose env cmd w of
           (Inl e, w') \<Rightarrow> (Inl e, rp', w')
         | (Inr _, w') \<Rightarrow> (Inr (), rp', w')))"

text \<open>The loop of the background task; a failed proposal is logged and dropped.\<close>

fun spawn_report_processor ::
  "(nat \<Rightarrow> bool) \<Rightarrow> (nat \<Rightarrow> bool) \<Rightarrow> env \<Rightarrow> node_report list \<Rightarrow> report_state \<Rightarrow> world \<Rightarrow> report_state \<times> world" where
  "spawn_report_processor is_closed has_room env [] rp w = (rp, w)"
| "spawn_report_processor is_closed has_room env (report # reports) rp w =
    (case process_report is_closed has_room env report rp w of
       (_, rp', w') \<Rightarrow> spawn_report_processor is_closed has_room env reports rp' w')"


section \<open>The histograms\<close>

lemma cumulate_shift: "cumulate (c + k) bs cs = map (\<lambda>(b, n). (b, n + k)) (cumulate c bs cs)"
  by (induction c bs cs rule: cumulate.induct) (simp_all add: add.commute add.left_commute add.assoc)

lemma cumulate_bounds: "(b, n) \<in> set (cumulate c bs cs) \<Longrightarrow> b \<in> set bs"
  by (induction c bs cs rule: cumulate.induct) auto

lemma cumulate_bump:
  assumes "sorted_wrt f64_le bs" "length cs = length bs"
  shows "cumulate c bs (bump_first x bs cs) =
    map (\<lambda>(b, n). (b, n + (if f64_le x b then 1 else 0))) (cumulate c bs cs)"
  using assms
proof (induction x bs cs arbitrary: c rule: bump_first.induct)
  case (1 x b bs n cs)
  show ?case
  proof (cases "f64_le x b")
    case True
    have "f64_le x b'" if "(b', k) \<in> set (cumulate (c + n) bs cs)" for b' k
      using True 1(2) cumulate_bounds [OF that] f64_le_trans by fastforce
    then have "map (\<lambda>(b, n). (b, n + 1)) (cumulate (c + n) bs cs) =
        map (\<lambda>(b, n). (b, n + (if f64_le x b then 1 else 0))) (cumulate (c + n) bs cs)" by auto
    moreover have "cumulate (c + (n + 1)) bs cs = map (\<lambda>(b, n). (b, n + 1)) (cumulate (c + n) bs cs)"
      using cumulate_shift [of "c + n" 1 bs cs] by (simp add: add.assoc)
    ultimately show ?thesis using True by (simp add: add.assoc)
  next
    case False
    then show ?thesis using 1 by simp
  qed
qed auto

lemma length_bump_first [simp]: "length (bump_first x bs cs) = length cs"
  by (induction x bs cs rule: bump_first.induct) auto

lemma sorted_buckets: "sorted_wrt f64_le task_duration_buckets" "length task_duration_buckets = 9"
  by (simp_all add: task_duration_buckets_def)

definition histogram_of :: "duration list \<Rightarrow> duration_histogram" where
  "histogram_of ds = fold histogram_record ds histogram_new"

lemma histogram_snoc: "histogram_of (ds @ [d]) = histogram_record d (histogram_of ds)"
  by (simp add: histogram_of_def)

lemma histogram_count: "dh_count (histogram_of ds) = word_of_nat (length ds)"
  by (induction ds rule: rev_induct)
    (simp_all add: histogram_snoc histogram_record_def Let_def, simp add: histogram_of_def histogram_new_def)

lemma histogram_length: "length (dh_buckets (histogram_of ds)) = 9"
  by (induction ds rule: rev_induct)
    (simp_all add: histogram_snoc histogram_record_def Let_def, simp add: histogram_of_def histogram_new_def)

lemma histogram_buckets:
  "cumulate 0 task_duration_buckets (dh_buckets (histogram_of ds)) =
    map (\<lambda>b. (b, word_of_nat (length (filter (\<lambda>d. f64_le (as_secs_f64 d) b) ds)))) task_duration_buckets"
proof (induction ds rule: rev_induct)
  case Nil
  show ?case by (simp add: histogram_of_def histogram_new_def task_duration_buckets_def numeral_eq_Suc)
next
  case (snoc d ds)
  have "dh_buckets (histogram_of (ds @ [d])) = bump_first (as_secs_f64 d) task_duration_buckets (dh_buckets (histogram_of ds))"
    by (simp add: histogram_snoc histogram_record_def Let_def)
  then show ?case using snoc cumulate_bump [OF sorted_buckets(1), of "dh_buckets (histogram_of ds)" 0 "as_secs_f64 d"]
    by (simp add: sorted_buckets histogram_length)
qed

text \<open>The histogram of each task after any sequence of recorded durations.\<close>

definition durations_of :: "string \<Rightarrow> (string \<times> duration) list \<Rightarrow> duration list" where
  "durations_of name xs = map snd (filter (\<lambda>(n, _). n = name) xs)"

lemma durations_get:
  "hm_get (lm_task_durations (fold (\<lambda>(n, d). record_task_duration n d) xs live_metrics_new)) name =
    (if durations_of name xs = [] then None else Some (histogram_of (durations_of name xs)))"
proof (induction xs rule: rev_induct)
  case Nil
  show ?case by (simp add: durations_of_def live_metrics_new_def)
next
  case (snoc x xs)
  obtain n d where x: "x = (n, d)" by force
  show ?case using snoc
    by (auto simp: x record_task_duration_def durations_of_def histogram_snoc)
      (simp add: histogram_of_def)
qed

lemma snapshots_get:
  "map_of (map (\<lambda>s. (hs_name s, s)) (task_duration_snapshots m)) name =
    map_option (\<lambda>h. \<lparr> hs_name = name, hs_count = dh_count h, hs_sum_seconds = dh_sum_seconds h,
       hs_buckets = cumulate 0 task_duration_buckets (dh_buckets h) \<rparr>) (hm_get (lm_task_durations m) name)"
proof -
  have "map_of (map (\<lambda>s. (hs_name s, s)) (map (\<lambda>(name, h).
      \<lparr> hs_name = name, hs_count = dh_count h, hs_sum_seconds = dh_sum_seconds h,
        hs_buckets = cumulate 0 task_duration_buckets (dh_buckets h) \<rparr>) l)) name =
    map_option (\<lambda>h. \<lparr> hs_name = name, hs_count = dh_count h, hs_sum_seconds = dh_sum_seconds h,
       hs_buckets = cumulate 0 task_duration_buckets (dh_buckets h) \<rparr>) (map_of l name)" for l
    by (induction l) auto
  then show ?thesis by (simp add: task_duration_snapshots_def)
qed

lemma histogram_sum: "dh_sum_seconds (histogram_of ds) = fold (\<lambda>d acc. f64_add acc (as_secs_f64 d)) ds (Fin 0)"
  by (induction ds rule: rev_induct)
    (simp_all add: histogram_snoc histogram_record_def Let_def, simp add: histogram_of_def histogram_new_def)

text \<open>
  The duration metrics count what was recorded: after any sequence of recorded durations, a
  task has a snapshot exactly when one was recorded for it. Its count is the number of its
  durations, its sum their floating-point sum in order, and the bucket of a bound counts the
  durations that are at most the bound, although a record touches a single bucket.
\<close>

theorem histogram_counts:
  "map_of (map (\<lambda>s. (hs_name s, s))
      (task_duration_snapshots (fold (\<lambda>(n, d). record_task_duration n d) xs live_metrics_new))) name =
    (let ds = durations_of name xs
     in if ds = [] then None
        else Some \<lparr> hs_name = name, hs_count = word_of_nat (length ds),
               hs_sum_seconds = fold (\<lambda>d acc. f64_add acc (as_secs_f64 d)) ds (Fin 0),
               hs_buckets = map (\<lambda>b. (b, word_of_nat (length (filter (\<lambda>d. f64_le (as_secs_f64 d) b) ds))))
                 task_duration_buckets \<rparr>)"
  by (simp add: snapshots_get durations_get Let_def histogram_count histogram_sum histogram_buckets)

end
