(* ===== verification/Ops.thy ===== *)
theory Ops
  imports Report Validate
begin

text \<open>
  Tasks and nodes, \<^verbatim>\<open>crates/node/src/primary/tasks.rs\<close> and
  \<^verbatim>\<open>crates/node/src/primary/nodes.rs\<close>: spawning and killing a task, draining and removing
  a node.
\<close>

section \<open>Tasks\<close>

record spawn_task_request =
  st_task :: "string option"
  st_image :: "string option"
  st_cpu :: f64
  st_memory :: string
  st_env :: "(string, string) hash_map"
  st_timeout :: "string option"

record spawn_task_response =
  sr_id :: string
  sr_node :: string
  sr_status :: string
  sr_address :: "string option"

text \<open>The definition to run: name, image, resources, environment, timeout and command.\<close>

record task_plan =
  tp_name :: string
  tp_image :: string
  tp_resources :: resources
  tp_env :: "(string, env_value) hash_map"
  tp_timeout :: "duration option"
  tp_command :: "string list option"

definition resolve_task_request ::
  "size_parser \<Rightarrow> env \<Rightarrow> spawn_task_request \<Rightarrow> world \<Rightarrow> (deploy_error, task_plan) result \<times> world" where
  "resolve_task_request psize env request w =
    (case (st_task request, st_image request) of
       (Some template, None) \<Rightarrow>
         (case Option.bind (f_config (w_fsm w)) (\<lambda>c. hm_get (c_tasks c) template) of
            None \<Rightarrow> (Inl (DNode (ServiceNotFound template)), w)
          | Some d \<Rightarrow>
             (Inr \<lparr> tp_name = template, tp_image = t_image d, tp_resources = t_resources d, tp_env = t_env d,
                tp_timeout = (if t_timeout d = 0 then None else Some (t_timeout d)), tp_command = t_command d \<rparr>, w))
     | (None, Some img) \<Rightarrow>
         (case psize (st_memory request) of
            Inl e \<Rightarrow> (Inl (EnvResolution (''invalid memory: '' @ e)), w)
          | Inr memory \<Rightarrow>
             (case draw_suffix env w of (sfx, w') \<Rightarrow>
               (Inr \<lparr> tp_name = ''task-'' @ sfx, tp_image = img,
                  tp_resources = \<lparr> r_cpu = st_cpu request, r_memory = memory \<rparr>,
                  tp_env = map (\<lambda>(k, v). (k, ELiteral v)) (st_env request),
                  tp_timeout = None, tp_command = None \<rparr>, w')))
     | _ \<Rightarrow> (Inl (DNode (BadRequest (''must specify exactly one of 'task' or 'image'' @ [CHR 0x27]))), w))"

text \<open>The request wins over the template.\<close>

definition effective_timeout ::
  "duration_parser \<Rightarrow> spawn_task_request \<Rightarrow> task_plan \<Rightarrow> (deploy_error, duration option) result" where
  "effective_timeout pdur request plan =
    (case st_timeout request of
       Some s \<Rightarrow> (case pdur s of Inl e \<Rightarrow> Inl (EnvResolution (''invalid timeout: '' @ e)) | Inr d \<Rightarrow> Inr (Some d))
     | None \<Rightarrow> Inr (tp_timeout plan))"

definition override_env :: "(string, string) hash_map \<Rightarrow> (string, env_value) hash_map \<Rightarrow> (string, env_value) hash_map" where
  "override_env req env_defs = fold (\<lambda>(k, v) m. hm_insert k (ELiteral v) m) req env_defs"

definition task_request :: "task_plan \<Rightarrow> schedule_request" where
  "task_request plan = \<lparr> rq_need = tp_resources plan, rq_name = tp_name plan, rq_kind = KTask, rq_volume = None \<rparr>"

definition task_spec :: "alloc_id \<Rightarrow> task_plan \<Rightarrow> duration option \<Rightarrow> (string, string) hash_map \<Rightarrow> container_spec" where
  "task_spec alloc_id plan timeout envs = \<lparr>
     cs_alloc_id = alloc_id, cs_kind = KTask, cs_timeout = timeout, cs_command = tp_command plan,
     cs_image = tp_image plan, cs_env = envs, cs_port = None, cs_host_port = None,
     cs_cpu = r_cpu (tp_resources plan), cs_memory = r_memory (tp_resources plan), cs_volumes = [] \<rparr>"

text \<open>
  A spawn returns the answer and, for the background timer, the delay after which
  \<^verbatim>\<open>kill_task\<close> runs. The metrics are a lock that is held for one update.
\<close>

definition launch_task ::
  "decryptor \<Rightarrow> env \<Rightarrow> task_plan \<Rightarrow> duration option \<Rightarrow> (string, env_value) hash_map \<Rightarrow> alloc_id \<Rightarrow> node_id \<Rightarrow>
   world \<Rightarrow> (deploy_error, spawn_task_response) result \<times> world" where
  "launch_task decrypt env plan timeout env_defs alloc_id node_id =
    and_then (reading (\<lambda>s. resolve_env decrypt s env_defs)) (\<lambda>envs.
    and_then (with_err DNode (send_command env node_id (Run alloc_id (task_spec alloc_id plan timeout envs) None))) (\<lambda>_.
    and_then (wait_for_status env alloc_id) (\<lambda>_.
    reading (\<lambda>s. Inr \<lparr> sr_id = alloc_id, sr_node = node_id, sr_status = ''running'',
      sr_address = Option.bind (hm_get (f_allocs s) alloc_id) (\<lambda>a. map_option show_socket_addr (al_address a)) \<rparr>))))"

definition place_task ::
  "env \<Rightarrow> task_plan \<Rightarrow> alloc_id \<Rightarrow> world \<Rightarrow> (deploy_error, node_id) result \<times> world" where
  "place_task env plan alloc_id =
    and_then (reading (\<lambda>s. case schedule_on s [] (task_request plan) of
        None \<Rightarrow> Inl (SchedulingFailed (tp_name plan) 0) | Some n \<Rightarrow> Inr n)) (\<lambda>node_id.
    and_then (reading (\<lambda>s. case raft_id_for s node_id of
        None \<Rightarrow> Inl (SchedulingFailed (tp_name plan) 0) | Some i \<Rightarrow> Inr i)) (\<lambda>raft_node_id.
    and_then (with_err DNode (propose env (AllocScheduled alloc_id raft_node_id (tp_name plan) KTask None
        (alloc_resources_from (tp_resources plan))))) (\<lambda>_ w. (Inr node_id, w))))"

definition spawn_task ::
  "size_parser \<Rightarrow> duration_parser \<Rightarrow> decryptor \<Rightarrow> env \<Rightarrow> spawn_task_request \<Rightarrow> live_metrics \<Rightarrow> world \<Rightarrow>
   (deploy_error, spawn_task_response \<times> duration option) result \<times> live_metrics \<times> world" where
  "spawn_task psize pdur decrypt env request metrics w =
    (case resolve_task_request psize env request w of
       (Inl e, w) \<Rightarrow> (Inl e, metrics, w)
     | (Inr plan, w) \<Rightarrow>
        (case effective_timeout pdur request plan of
           Inl e \<Rightarrow> (Inl e, metrics, w)
         | Inr timeout \<Rightarrow>
            (case draw_suffix env w of (sfx, w) \<Rightarrow>
              let env_defs = override_env (st_env request) (tp_env plan);
                  alloc_id = tp_name plan @ ''-'' @ sfx
              in case place_task env plan alloc_id w of
                   (Inl e, w) \<Rightarrow> (Inl e, metrics, w)
                 | (Inr node_id, w) \<Rightarrow>
                    let metrics = record_task_spawn (tp_name plan) metrics
                    in case launch_task decrypt env plan timeout env_defs alloc_id node_id w of
                         (Inl e, w) \<Rightarrow> (Inl e, metrics, w)
                       | (Inr resp, w) \<Rightarrow> (Inr (resp, timeout), metrics, w))))"

definition kill_task :: "env \<Rightarrow> string \<Rightarrow> world \<Rightarrow> (deploy_error, unit) result \<times> world" where
  "kill_task env alloc_id w =
    (case map_option (\<lambda>a. (al_kind a = KTask, al_node a)) (hm_get (f_allocs (w_fsm w)) alloc_id) of
       Some (True, node_id) \<Rightarrow> with_err DNode (send_command env node_id (Stop alloc_id)) w
     | Some (False, _) \<Rightarrow> (Inl (DNode (NotATask alloc_id)), w)
     | None \<Rightarrow> (Inl (DNode (AllocNotFound alloc_id)), w))"


section \<open>Nodes\<close>

definition propose_checked :: "env \<Rightarrow> command \<Rightarrow> world \<Rightarrow> (node_error, unit) result \<times> world" where
  "propose_checked env c =
    and_then (propose env c) (\<lambda>resp w. (case resp of RError e \<Rightarrow> Inl (RaftRejected e) | ROk \<Rightarrow> Inr (), w))"

definition mill_id_of :: "fsm_state \<Rightarrow> u64 \<Rightarrow> node_id" where
  "mill_id_of s node_id = (case hm_get (f_nodes s) node_id of Some n \<Rightarrow> n_mill_id n | None \<Rightarrow> [])"

definition attached_volumes :: "fsm_state \<Rightarrow> node_id \<Rightarrow> string list" where
  "attached_volumes s mill_id = map fst (filter (\<lambda>(_, vol). v_state vol = VAttached mill_id) (list_volumes s))"

text \<open>Step 1b: errors of the driver and of the proposal are dropped.\<close>

fun detach_all :: "deploy_ctx \<Rightarrow> env \<Rightarrow> string list \<Rightarrow> world \<Rightarrow> world" where
  "detach_all cx env [] w = w"
| "detach_all cx env (vol_name # rest) w =
    (let w = (if cx_volumes cx then ignored (driver_detach env vol_name) w else w)
     in detach_all cx env rest (ignored (propose env (VolumeDetached vol_name)) w))"

definition node_allocs :: "fsm_state \<Rightarrow> u64 \<Rightarrow> (alloc_id \<times> string \<times> alloc_kind) list \<times> node_id" where
  "node_allocs s node_id =
    (case hm_get (f_nodes s) node_id of
       None \<Rightarrow> ([], [])
     | Some node \<Rightarrow>
        (map (\<lambda>a. (al_id a, al_name a, al_kind a))
           (filter (\<lambda>a. al_node a = n_mill_id node \<and> \<not> is_terminal (al_status a)) (hm_values (f_allocs s))),
         n_mill_id node))"

definition stop_drained :: "env \<Rightarrow> node_id \<Rightarrow> alloc_id \<Rightarrow> string \<Rightarrow> world \<Rightarrow> world" where
  "stop_drained env mill_id alloc_id name w =
    send_json_event env ''progress'' [(''service'', JStr name), (''phase'', JStr ''stopped'')]
      (ignored (send_command env mill_id (Stop alloc_id)) w)"

text \<open>One allocation of the node: a service with a definition moves first.\<close>

definition drain_alloc ::
  "deploy_ctx \<Rightarrow> env \<Rightarrow> node_id \<Rightarrow> alloc_id \<times> string \<times> alloc_kind \<Rightarrow> world \<Rightarrow> world" where
  "drain_alloc cx env mill_id x w =
    (case x of (alloc_id, name, kind) \<Rightarrow>
      case (if kind = KService then Option.bind (f_config (w_fsm w)) (\<lambda>c. hm_get (c_services c) name) else None) of
        None \<Rightarrow> stop_drained env mill_id alloc_id name w
      | Some d \<Rightarrow>
         (case draw_suffix env w of (sfx, w) \<Rightarrow>
          case start_alloc cx env name d (name @ ''-'' @ sfx) 0 w of
            (Inr _, w) \<Rightarrow> stop_drained env mill_id alloc_id name
              (send_json_event env ''progress'' [(''service'', JStr name), (''phase'', JStr ''migrated'')] w)
          | (Inl e, w) \<Rightarrow>
              send_json_event env ''failed'' [(''service'', JStr name), (''reason'', JStr (show_deploy_error e))] w))"

definition drain_node :: "deploy_ctx \<Rightarrow> env \<Rightarrow> u64 \<Rightarrow> world \<Rightarrow> (deploy_error, unit) result \<times> world" where
  "drain_node cx env node_id =
    and_then (with_err DNode (propose_checked env (NodeDrain node_id))) (\<lambda>_.
    and_then (quiet (send_json_event env ''progress'' [(''phase'', JStr ''started'')])) (\<lambda>_.
    and_then (quiet (\<lambda>w. detach_all cx env (attached_volumes (w_fsm w) (mill_id_of (w_fsm w) node_id)) w)) (\<lambda>_.
    and_then (quiet (\<lambda>w. case node_allocs (w_fsm w) node_id of (allocs, mill_id) \<Rightarrow>
      fold (drain_alloc cx env mill_id) allocs w)) (\<lambda>_.
    quiet (\<lambda>w. send_json_event env ''done'' [(''elapsed'', JNum (elapsed env (cx_started cx) w))] w)))))"

definition remove_node :: "env \<Rightarrow> u64 \<Rightarrow> world \<Rightarrow> (node_error, unit) result \<times> world" where
  "remove_node env node_id = propose_checked env (NodeRemove node_id)"


section \<open>What a drain does\<close>

definition migrated_event :: "string \<Rightarrow> action" where
  "migrated_event name = AEvent ''progress'' [(''service'', JStr name), (''phase'', JStr ''migrated'')]"

fun attaches :: "action \<Rightarrow> bool" where
  "attaches (AAttach _ _) = True"
| "attaches (APropose (VolumeAttached _ _)) = True"
| "attaches _ = False"

text \<open>
  A stop in the trace: right after the replacement was found healthy, or for an allocation that
  does not move.
\<close>

definition moved :: "(alloc_id \<Rightarrow> string \<Rightarrow> bool \<Rightarrow> bool) \<Rightarrow> action list \<Rightarrow> bool" where
  "moved G as \<longleftrightarrow> (\<forall>xs m i ys. as = xs @ ASend m (Stop i) # ys \<longrightarrow>
     (\<exists>name. G i name False \<or> G i name True \<and> (\<exists>bs j t. xs = bs @ healthy_acts name j t @ [migrated_event name])))"

lemma moved_no_stop: "list_all (Not \<circ> is_stop) as \<Longrightarrow> moved G as"
  unfolding moved_def by (auto simp: list_all_iff)

lemma moved_append:
  assumes "moved G as" "moved G bs"
  shows "moved G (as @ bs)"
  unfolding moved_def
proof (intro allI impI)
  fix xs m i ys
  assume eq: "as @ bs = xs @ ASend m (Stop i) # ys"
  then consider us where "as = xs @ us" "us @ bs = ASend m (Stop i) # ys" "us \<noteq> []"
    | us where "xs = as @ us" "bs = us @ ASend m (Stop i) # ys"
    unfolding append_eq_append_conv2 by (metis append_Nil append_Nil2)
  then show "\<exists>name. G i name False \<or> G i name True \<and> (\<exists>bs j t. xs = bs @ healthy_acts name j t @ [migrated_event name])"
  proof cases
    case (1 us)
    then obtain us' where "as = xs @ ASend m (Stop i) # us'" by (cases us) auto
    then show ?thesis using assms(1) unfolding moved_def by blast
  next
    case (2 us)
    then obtain name where "G i name False \<or> G i name True \<and> (\<exists>bs j t. us = bs @ healthy_acts name j t @ [migrated_event name])"
      using assms(2) unfolding moved_def by blast
    then show ?thesis unfolding 2(1) by (metis append.assoc)
  qed
qed

lemma started_no_attach: "started name d i r as \<Longrightarrow> list_all (Not \<circ> attaches) as"
  by (cases r) (auto simp: scheduled_acts_def run_acts_def healthy_acts_def simp del: cut_off.simps
      dest!: cut_off_all [where P = "Not \<circ> attaches"])

lemma stop_drained_trace:
  "w_trace (stop_drained env m i name w) = w_trace w @ [ASend m (Stop i), stopped_event name]"
  by (simp add: stop_drained_def send_json_event_def ignored_def send_command_def Let_def stopped_event_def)

lemma moved_stop: "G i name False \<Longrightarrow> moved G [ASend m (Stop i), stopped_event name]"
  unfolding moved_def stopped_event_def by (auto simp: Cons_eq_append_conv)

lemma moved_migrate:
  assumes "list_all (Not \<circ> is_stop) (bs @ healthy_acts name j t @ [migrated_event name])" "G i name True"
  shows "moved G (bs @ healthy_acts name j t @ migrated_event name # [ASend m (Stop i), stopped_event name])"
  unfolding moved_def
proof (intro allI impI)
  fix xs m' i' ys
  let ?bs = "bs @ healthy_acts name j t @ [migrated_event name]"
  assume "bs @ healthy_acts name j t @ migrated_event name # [ASend m (Stop i), stopped_event name] = xs @ ASend m' (Stop i') # ys"
  then have "?bs @ [ASend m (Stop i), stopped_event name] = xs @ ASend m' (Stop i') # ys" by simp
  then obtain us where us: "xs = ?bs @ us" "[ASend m (Stop i), stopped_event name] = us @ ASend m' (Stop i') # ys"
    using assms(1) by (rule stop_after) simp
  then have "us = [] \<and> i' = i" by (cases us) (auto simp: Cons_eq_append_conv stopped_event_def)
  then show "\<exists>name. G i' name False \<or> G i' name True \<and> (\<exists>bs j t. xs = bs @ healthy_acts name j t @ [migrated_event name])"
    using us(1) assms(2) by auto
qed

lemma drain_alloc_trace:
  assumes "x = (i, name, kind)"
    and "kind = KService \<and> Option.bind (f_config (w_fsm w)) (\<lambda>c. hm_get (c_services c) name) \<noteq> None \<Longrightarrow> G i name True"
    and "\<not> (kind = KService \<and> Option.bind (f_config (w_fsm w)) (\<lambda>c. hm_get (c_services c) name) \<noteq> None) \<Longrightarrow> G i name False"
  shows "\<exists>as. w_trace (drain_alloc cx env m x w) = w_trace w @ as \<and> moved G as \<and> list_all (Not \<circ> attaches) as"
proof (cases "if kind = KService then Option.bind (f_config (w_fsm w)) (\<lambda>c. hm_get (c_services c) name) else None")
  case None
  then have "G i name False" using assms(3) by (auto split: if_splits)
  then show ?thesis using None moved_stop
    by (intro exI [of _ "[ASend m (Stop i), stopped_event name]"])
      (simp add: drain_alloc_def assms(1) stop_drained_trace stopped_event_def)
next
  case (Some d)
  then have G: "G i name True" using assms(2) by (auto split: if_splits)
  obtain sfx w1 where x: "draw_suffix env w = (sfx, w1)" by force
  have t1: "w_trace w1 = w_trace w" using x by (auto simp: draw_suffix_def Let_def)
  obtain r w2 where r: "start_alloc cx env name d (name @ ''-'' @ sfx) 0 w1 = (r, w2)" by force
  obtain as where as: "w_trace w2 = w_trace w1 @ as" "started name d (name @ ''-'' @ sfx) r as"
    using logsD [OF logs_start_alloc r] by blast
  note na = started_no_attach [OF as(2)] and ns = started_no_stop [OF as(2)]
  show ?thesis
  proof (cases r)
    case (Inl e)
    let ?f = "AEvent ''failed'' [(''service'', JStr name), (''reason'', JStr (show_deploy_error e))]"
    show ?thesis
      by (intro exI [of _ "as @ [?f]"])
        (use Some x r Inl na ns in \<open>simp add: drain_alloc_def assms(1) send_json_event_def as(1) t1 moved_no_stop\<close>)
  next
    case (Inr u)
    then obtain n k envs t where eq: "as = scheduled_acts name d (name @ ''-'' @ sfx) n k @
        run_acts name d (name @ ''-'' @ sfx) n envs @ healthy_acts name (name @ ''-'' @ sfx) t"
      using as(2) by auto
    let ?as = "as @ migrated_event name # [ASend m (Stop i), stopped_event name]"
    have "moved G ?as"
      using moved_migrate [of "scheduled_acts name d (name @ ''-'' @ sfx) n k @ run_acts name d (name @ ''-'' @ sfx) n envs"
          name "name @ ''-'' @ sfx" t G i m] G ns unfolding eq by (simp add: migrated_event_def)
    then show ?thesis
      by (intro exI [of _ ?as])
        (use Some x r Inr na in \<open>simp add: drain_alloc_def assms(1) send_json_event_def as(1) t1 stop_drained_trace
          migrated_event_def stopped_event_def\<close>)
  qed
qed


lemma evolves_any: "evolves P w w' \<Longrightarrow> evolves (\<lambda>_. True) w w'"
  by (erule evolves_mono) simp

lemma evolves_drain_alloc: "evolves (\<lambda>_. True) w (drain_alloc cx env m x w)"
proof -
  obtain i name kind where x: "x = (i, name, kind)" by (cases x)
  have st: "evolves (\<lambda>_. True) w (stop_drained env m i name w)" for w
    unfolding stop_drained_def by (rule evolves_trans [OF evolves_ignored evolves_event]) (intro does, simp_all)
  obtain sfx w1 where d: "draw_suffix env w = (sfx, w1)" by force
  have e1: "evolves (\<lambda>_. True) w w1" by (rule doesD [OF does_draw d])
  have ev: "evolves (\<lambda>_. True) w (send_json_event env e dd w)" for w e dd by (rule evolves_event) simp
  have "evolves (\<lambda>_. True) w w2" if "start_alloc cx env name d (name @ ''-'' @ sfx) 0 w1 = (r, w2)" for d r w2
    by (rule evolves_trans [OF e1 evolves_any [OF doesD [OF does_start_alloc that]]])
  note e2 = evolves_trans [OF this ev] evolves_trans [OF this evolves_trans [OF ev st]]
  show ?thesis using st e2 by (auto simp: drain_alloc_def x d split: option.split prod.split sum.split)
qed

text \<open>The service may have lost its definition by the time its turn comes.\<close>

definition undefined_after :: "fsm_state \<Rightarrow> string \<Rightarrow> bool" where
  "undefined_after s name \<longleftrightarrow>
    (\<exists>cmds. Option.bind (f_config (apply_all cmds s)) (\<lambda>c. hm_get (c_services c) name) = None)"

lemma drain_loop_trace:
  assumes "\<forall>(i, name, kind) \<in> set xs. kind = KService \<longrightarrow> G i name True"
    and "\<forall>(i, name, kind) \<in> set xs. kind = KService \<longrightarrow> undefined_after s name \<longrightarrow> G i name False"
    and "\<forall>(i, name, kind) \<in> set xs. kind = KTask \<longrightarrow> G i name False"
    and "w_fsm w = apply_all cmds s"
  shows "\<exists>as. w_trace (fold (drain_alloc cx env m) xs w) = w_trace w @ as \<and> moved G as \<and> list_all (Not \<circ> attaches) as"
  using assms
proof (induction xs arbitrary: w cmds)
  case Nil
  then show ?case by (auto simp: moved_no_stop)
next
  case (Cons x xs)
  obtain i name kind where x: "x = (i, name, kind)" by (cases x)
  have "undefined_after s name" if "Option.bind (f_config (w_fsm w)) (\<lambda>c. hm_get (c_services c) name) = None"
    using that Cons.prems(4) unfolding undefined_after_def by metis
  then have "G i name True" if "kind = KService \<and> Option.bind (f_config (w_fsm w)) (\<lambda>c. hm_get (c_services c) name) \<noteq> None"
    using that Cons.prems(1) by (simp add: x)
  moreover have "G i name False" if "\<not> (kind = KService \<and> Option.bind (f_config (w_fsm w)) (\<lambda>c. hm_get (c_services c) name) \<noteq> None)"
    using that Cons.prems(2-4) unfolding undefined_after_def by (cases kind) (auto simp: x)
  ultimately obtain as where as: "w_trace (drain_alloc cx env m x w) = w_trace w @ as" "moved G as" "list_all (Not \<circ> attaches) as"
    using drain_alloc_trace [OF x, of w G cx env m] by blast
  obtain cmds' where "w_fsm (drain_alloc cx env m x w) = apply_all cmds' s"
    using evolves_drain_alloc [of w cx env m x] Cons.prems(4) unfolding evolves_def by (metis apply_all_append)
  then obtain bs where "w_trace (fold (drain_alloc cx env m) xs (drain_alloc cx env m x w)) = w_trace (drain_alloc cx env m x w) @ bs"
    "moved G bs" "list_all (Not \<circ> attaches) bs"
    using Cons.IH [of "drain_alloc cx env m x w" cmds'] Cons.prems(1-3) by (meson list.set_intros(2))
  then show ?case using as moved_append by (intro exI [of _ "as @ bs"]) (simp add: comp_def)
qed


definition calm_act :: "action \<Rightarrow> bool" where
  "calm_act a \<longleftrightarrow> \<not> is_stop a \<and> \<not> attaches a"

lemma evolves_detach_all: "evolves calm_act w (detach_all cx env vols w)"
proof (induction vols arbitrary: w)
  case (Cons v vols)
  let ?w = "if cx_volumes cx then ignored (driver_detach env v) w else w"
  have "evolves calm_act w ?w" by (auto simp: calm_act_def intro!: evolves_ignored does)
  moreover have "evolves calm_act ?w (ignored (propose env (VolumeDetached v)) ?w)"
    by (intro evolves_ignored does) (simp add: calm_act_def)
  ultimately show ?case using Cons [of "ignored (propose env (VolumeDetached v)) ?w"]
    by (auto simp: Let_def intro: evolves_trans)
qed simp

lemma logs_propose_checked [logs]: "logs (\<lambda>r as. as = [APropose c]) (propose_checked env c)"
  unfolding propose_checked_def
  by (rule logs_bind [OF logs_propose, where R = "\<lambda>_ _ as. as = []"]) (auto intro: logsI)

lemma does_propose_checked [does]: "P (APropose c) \<Longrightarrow> does P (propose_checked env c)"
  unfolding propose_checked_def by (intro does) (auto simp: does_def)

definition drained :: "fsm_state \<Rightarrow> u64 \<Rightarrow> alloc_id \<Rightarrow> string \<Rightarrow> bool \<Rightarrow> bool" where
  "drained s k i name b \<longleftrightarrow> (\<exists>kind. (i, name, kind) \<in> set (fst (node_allocs s k)) \<and>
     (if b then kind = KService else kind = KTask \<or> undefined_after s name))"

lemma drain_rest_trace:
  "\<exists>as. w_trace (case node_allocs (w_fsm w) k of (allocs, mill_id) \<Rightarrow> fold (drain_alloc cx env mill_id) allocs w) =
    w_trace w @ as \<and> moved (drained (w_fsm w) k) as \<and> list_all (Not \<circ> attaches) as"
proof -
  obtain allocs m where n: "node_allocs (w_fsm w) k = (allocs, m)" by force
  show ?thesis unfolding n prod.case
    by (rule drain_loop_trace [where s = "w_fsm w" and cmds = "[]"]) (auto simp: drained_def n)
qed

lemma drain_node_trace:
  assumes "drain_node cx env k w = (r, w')"
  shows "\<exists>as cmds. w_trace w' = w_trace w @ as \<and> moved (drained (apply_all cmds (w_fsm w)) k) as \<and>
    list_all (Not \<circ> attaches) as"
proof -
  obtain r1 w1 where p: "with_err DNode (propose_checked env (NodeDrain k)) w = (r1, w1)" by force
  have "does calm_act (with_err DNode (propose_checked env (NodeDrain k)))" by (intro does) (simp add: calm_act_def)
  then have e1: "evolves calm_act w w1" using p by (rule doesD)
  show ?thesis
  proof (cases r1)
    case (Inl e)
    then have "w' = w1" using assms p by (auto simp: drain_node_def and_then_def)
    moreover obtain as where "w_trace w1 = w_trace w @ as" "list_all calm_act as" using e1 unfolding evolves_def by blast
    ultimately show ?thesis
      by (intro exI [of _ as] exI [of _ "[]"]) (auto simp: list_all_iff calm_act_def intro!: moved_no_stop)
  next
    case (Inr u)
    define w2 where "w2 = send_json_event env ''progress'' [(''phase'', JStr ''started'')] w1"
    define w3 where "w3 = detach_all cx env (attached_volumes (w_fsm w2) (mill_id_of (w_fsm w2) k)) w2"
    define w4 where "w4 = (case node_allocs (w_fsm w3) k of (allocs, m) \<Rightarrow> fold (drain_alloc cx env m) allocs w3)"
    have w': "w' = send_json_event env ''done'' [(''elapsed'', JNum (elapsed env (cx_started cx) w4))] w4"
      using assms p Inr by (auto simp: drain_node_def and_then_def quiet_def w2_def w3_def w4_def)
    have "evolves calm_act w w3" unfolding w3_def w2_def
      by (rule evolves_trans [OF evolves_trans [OF e1 evolves_event] evolves_detach_all]) (simp add: calm_act_def)
    then obtain as cmds where as: "w_trace w3 = w_trace w @ as" "list_all calm_act as" "w_fsm w3 = apply_all cmds (w_fsm w)"
      unfolding evolves_def by blast
    obtain bs where bs: "w_trace w4 = w_trace w3 @ bs" "moved (drained (w_fsm w3) k) bs" "list_all (Not \<circ> attaches) bs"
      using drain_rest_trace unfolding w4_def by blast
    let ?done = "AEvent ''done'' [(''elapsed'', JNum (elapsed env (cx_started cx) w4))]"
    have "moved G as" "moved G [?done]" for G using as(2) by (auto simp: list_all_iff calm_act_def intro!: moved_no_stop)
    then have "moved (drained (w_fsm w3) k) (as @ bs @ [?done])" using bs(2) moved_append by blast
    moreover have "list_all (Not \<circ> attaches) (as @ bs @ [?done])" using as(2) bs(3) by (auto simp: list_all_iff calm_act_def)
    ultimately show ?thesis using as(1,3) bs(1)
      by (intro exI [of _ "as @ bs @ [?done]"] exI [of _ cmds]) (simp add: w' send_json_event_def)
  qed
qed



lemma drain_a: "ASend ''n1'' (Stop ''a'') \<in> set (w_trace (snd (drain_node ctx1 (calm []) 1 (world_of state_a))))"
proof -
  let ?s = "fst (apply_command state_a (NodeDrain 1))"
  have w: "w_fsm (world_of state_a) = state_a" by (simp add: world_of_def)
  have r: "snd (apply_command state_a (NodeDrain 1)) = ROk" by (simp add: state_a_def)
  have v: "attached_volumes ?s m = []" for m
    by (simp add: attached_volumes_def list_volumes_def state_a_def fsm_default_def)
  have n: "node_allocs ?s 1 = ([(''a'', ''web'', KService)], ''n1'')"
    by (simp add: node_allocs_def state_a_def node1_def alloc1_def make_alloc_def)
  have c: "f_config ?s = None" by (simp add: state_a_def fsm_default_def)
  show ?thesis
    using r v n c
    by (simp add: drain_node_def and_then_def with_err_def propose_checked_def calm_simps w quiet_def send_json_event_def
      drain_alloc_def stop_drained_trace del: apply_command.simps)
qed



section \<open>A spawn that fails\<close>

lemma place_task_ok:
  assumes "undisturbed env" "fsm_inv (w_fsm w)" "place_task env plan i w = (r, w')"
  shows "(\<not> is_ok r \<and> w' = w) \<or> (is_ok r \<and>
    (\<exists>k. w_trace w' = w_trace w @ [APropose (AllocScheduled i k (tp_name plan) KTask None (alloc_resources_from (tp_resources plan)))]) \<and>
    map_option al_status (hm_get (f_allocs (w_fsm w')) i) = Some Pulling)"
proof -
  show ?thesis using assms(3)
    by (auto simp: place_task_def and_then_def reading_def with_err_def undisturbed_propose [OF assms(1)] make_alloc_def
        split: option.splits dest: raft_id_for_node [OF assms(2)])
qed

lemma launch_task_alone:
  assumes "undisturbed env" "\<And>k. oc_batches (env k) = []" "launch_task decrypt env plan timeout defs i n w = (r, w')"
    and "map_option al_status (hm_get (f_allocs (w_fsm w)) i) = Some Pulling"
  shows "\<not> is_ok r \<and> w_fsm w' = w_fsm w \<and> (\<exists>as. w_trace w' = w_trace w @ as \<and> (\<forall>c. APropose c \<notin> set as))"
proof -
  have w: "wait_for_status env i v = (Inl (HealthCheckTimeout i), tick env [] v)" if "w_fsm v = w_fsm w" for v
    using assms(4) by (auto simp: wait_for_status_def wait_state_def now_outcome_def assms(2) look_status_def that)
  obtain rs w1 where s: "\<And>envs. send_command env n (Run i (task_spec i plan timeout envs) None) w =
      (rs, tick env [ASend n (Run i (task_spec i plan timeout envs) None)] w)"
    by (simp add: send_command_def Let_def)
  have f: "w_fsm (tick env as v) = w_fsm v" for as v by (simp add: undisturbed_others [OF assms(1)])
  show ?thesis using assms(3)
    by (cases "resolve_env decrypt (w_fsm w) defs"; cases rs)
      (auto simp: launch_task_def and_then_def reading_def with_err_def s w f undisturbed_others [OF assms(1)] simp del: tick_simps(3))
qed


lemma resolve_task_request_trace:
  "undisturbed env \<Longrightarrow> resolve_task_request psize env request w = (r, w') \<Longrightarrow>
    w_trace w' = w_trace w \<and> w_fsm w' = w_fsm w"
  by (auto simp: resolve_task_request_def draw_suffix_def Let_def undisturbed_others split: option.splits sum.splits)

text \<open>
  A spawn whose container never comes up leaves its record behind: with no other task acting
  and no report from the node, the call returns an error, yet an allocation that it recorded is still
  pulling afterwards, so its resources stay taken. The start of a service marks such an
  allocation as failed instead.
\<close>

theorem failed_spawn_leaves_alloc:
  assumes "undisturbed env" "\<forall>k. oc_batches (env k) = []" "fsm_inv (w_fsm w)"
    and "spawn_task psize pdur decrypt env request metrics w = (r, metrics', w')"
    and "w_trace w' = w_trace w @ as" "APropose (AllocScheduled i k name kind addr res) \<in> set as"
  shows "\<not> is_ok r \<and> map_option al_status (hm_get (f_allocs (w_fsm w')) i) = Some Pulling"
proof -
  obtain rp w1 where p: "resolve_task_request psize env request w = (rp, w1)" by force
  have t1: "w_trace w1 = w_trace w" "w_fsm w1 = w_fsm w"
    using resolve_task_request_trace [OF assms(1) p] by simp_all
  show ?thesis
  proof (cases "\<exists>plan timeout. rp = Inr plan \<and> effective_timeout pdur request plan = Inr timeout")
    case False
    then have "w' = w1" using assms(4) p by (auto simp: spawn_task_def split: sum.splits)
    then show ?thesis using assms(5,6) t1 by simp
  next
    case True
    then obtain plan timeout where pl: "rp = Inr plan" "effective_timeout pdur request plan = Inr timeout" by blast
    obtain sfx w2 where d: "draw_suffix env w1 = (sfx, w2)" by force
    have t2: "w_trace w2 = w_trace w" "w_fsm w2 = w_fsm w"
      using d t1 by (auto simp: draw_suffix_def Let_def undisturbed_others [OF assms(1)])
    let ?i = "tp_name plan @ ''-'' @ sfx"
    let ?defs = "override_env (st_env request) (tp_env plan)"
    obtain rn w3 where n: "place_task env plan ?i w2 = (rn, w3)" by force
    have inv: "fsm_inv (w_fsm w2)" using assms(3) t2 by simp
    show ?thesis
    proof (cases rn)
      case (Inl e)
      then have "w' = w3" "w3 = w2"
        using assms(4) p pl d n place_task_ok [OF assms(1) inv n] by (auto simp: spawn_task_def Let_def)
      then show ?thesis using assms(5,6) t2 by simp
    next
      case (Inr node)
      then obtain k' where pt: "w_trace w3 = w_trace w2 @
          [APropose (AllocScheduled ?i k' (tp_name plan) KTask None (alloc_resources_from (tp_resources plan)))]"
        and st: "map_option al_status (hm_get (f_allocs (w_fsm w3)) ?i) = Some Pulling"
        using place_task_ok [OF assms(1) inv n] by auto
      obtain rl w4 where l: "launch_task decrypt env plan timeout ?defs ?i node w3 = (rl, w4)" by force
      have la: "\<not> is_ok rl" "w_fsm w4 = w_fsm w3" "\<exists>as. w_trace w4 = w_trace w3 @ as \<and> (\<forall>c. APropose c \<notin> set as)"
        using launch_task_alone [OF assms(1) _ l st] assms(2) by auto
      have r: "w' = w4" "\<not> is_ok r"
        using assms(4) p pl d n Inr l la(1) by (auto simp: spawn_task_def Let_def split: sum.splits)
      then have "i = ?i" using la(3) pt t2(1) assms(5,6) by auto
      then show ?thesis using r st la(2) by simp
    qed
  qed
qed

definition job1 :: spawn_task_request where
  "job1 = \<lparr> st_task = None, st_image = Some ''job'', st_cpu = Fin 1, st_memory = ''100'', st_env = [], st_timeout = None \<rparr>"

definition psize1 :: size_parser where
  "psize1 v = Inr 100"

lemma place_job: "schedule_on state_a [] (task_request plan) = Some ''n1''" if "tp_resources plan = \<lparr> r_cpu = Fin 1, r_memory = 100 \<rparr>"
  using that by (simp add: schedule_on_def schedule_def task_request_def candidates_def state_a_def
      list_nodes_def node1_def node_available_resources_def alloc1_def list_allocs_def List.map_filter_def
      has_capacity_def min_by_def spread_def f64_sub_def sat_sub_def word_le_nat_alt)

theorem failed_spawn_leaves_alloc_witness:
  "map_option al_status (hm_get (f_allocs (w_fsm (snd (snd (spawn_task psize1 (\<lambda>_. Inl []) (\<lambda>v n. Inr v) (calm []) job1
     live_metrics_new (world_of state_a)))))) ''task-00-00'') = Some Pulling"
proof -
  let ?r = "spawn_task psize1 (\<lambda>_. Inl []) (\<lambda>v n. Inr v) (calm []) job1 live_metrics_new (world_of state_a)"
  have u: "undisturbed (calm [])" "\<forall>k. oc_batches (calm [] k) = []" by (simp_all add: undisturbed_def calm_def)
  have i: "fsm_inv (w_fsm (world_of state_a))"
    by (simp add: fsm_inv_def keyed_by_id_def state_a_def world_of_def node1_def alloc1_def make_alloc_def fsm_default_def)
  have w: "w_fsm (world_of state_a) = state_a" "w_trace (world_of state_a) = []" by (simp_all add: world_of_def)
  have k: "raft_id_for state_a ''n1'' = Some 1" by (simp add: raft_id_for_def state_a_def node1_def)
  have "APropose (AllocScheduled ''task-00-00'' 1 ''task-00'' KTask None (alloc_resources_from \<lparr> r_cpu = Fin 1, r_memory = 100 \<rparr>))
      \<in> set (w_trace (snd (snd ?r)))"
    by (simp add: spawn_task_def resolve_task_request_def job1_def psize1_def calm_simps effective_timeout_def Let_def
        place_task_def and_then_def reading_def w place_job k with_err_def)
      (simp add: launch_task_def and_then_def reading_def with_err_def resolve_env_def override_env_def calm_simps
        wait_for_status_def wait_state_def now_outcome_def calm_def look_status_def state_a_def node1_def make_alloc_def w)
  from failed_spawn_leaves_alloc [OF u i _ _ this, of psize1 "\<lambda>_. Inl []" "\<lambda>v n. Inr v" job1 live_metrics_new]
  show ?thesis by (cases ?r) (simp add: w)
qed

end
