(* ===== verification/Watchdog.thy ===== *)
theory Watchdog
  imports Ops
begin

text \<open>
  The watchdog, \<^verbatim>\<open>crates/node/src/primary/watchdog.rs\<close>: it declares silent nodes down
  and fails their allocations, brings the tunnels of recovered nodes back and restarts services
  that lack replicas. The tracker of heartbeats is shared with the report processor, which may
  record heartbeats while the watchdog waits for a proposal; the parameter \<open>beats\<close> gives them
  for each clock value.
\<close>

section \<open>State\<close>

record restart_state =
  rs_attempts :: nat
  rs_last_attempt_at :: time

record watchdog =
  wd_discovered :: "(u64, time) hash_map"
  wd_backoff :: "(string, restart_state) hash_map"
  wd_prev :: "(u64, node_status) hash_map"
  wd_tracker :: heartbeat_tracker
  wd_metrics :: live_metrics

definition watchdog_new :: "heartbeat_tracker \<Rightarrow> live_metrics \<Rightarrow> watchdog" where
  "watchdog_new tracker metrics =
    \<lparr> wd_discovered = [], wd_backoff = [], wd_prev = [], wd_tracker = tracker, wd_metrics = metrics \<rparr>"

type_synonym beats = "nat \<Rightarrow> (u64 \<times> time) list"

text \<open>A call that waits: others act on the state and record heartbeats.\<close>

definition hear :: "beats \<Rightarrow> world \<Rightarrow> heartbeat_tracker \<Rightarrow> heartbeat_tracker" where
  "hear beats w tracker = fold (\<lambda>(i, t). tracker_record i t) (beats (w_clock w)) tracker"


section \<open>Silent nodes\<close>

definition node_entries :: "fsm_state \<Rightarrow> (u64 \<times> node_id \<times> node_status) list" where
  "node_entries s = map (\<lambda>n. (n_raft_id n, n_mill_id n, n_status n)) (hm_values (f_nodes s))"

definition discover :: "time \<Rightarrow> u64 \<Rightarrow> (u64, time) hash_map \<Rightarrow> (u64, time) hash_map" where
  "discover now raft_id m = (if hm_has m raft_id then m else hm_insert raft_id now m)"

text \<open>New nodes get a first time; what is known of nodes that are gone is dropped.\<close>

definition track_nodes :: "time \<Rightarrow> u64 list \<Rightarrow> watchdog \<Rightarrow> watchdog" where
  "track_nodes now ids wd =
    (let seen = fold (discover now) ids (wd_discovered wd);
         gone = filter (\<lambda>i. i \<notin> set ids) (map fst seen)
     in wd\<lparr> wd_discovered := filter (\<lambda>(i, _). i \<in> set ids) seen,
            wd_tracker := fold tracker_remove gone (wd_tracker wd) \<rparr>)"

definition effective_seen :: "time \<Rightarrow> watchdog \<Rightarrow> u64 \<Rightarrow> time" where
  "effective_seen now wd raft_id =
    (case last_seen (wd_tracker wd) raft_id of
       Some t \<Rightarrow> t
     | None \<Rightarrow> (case hm_get (wd_discovered wd) raft_id of Some t \<Rightarrow> t | None \<Rightarrow> now))"

definition failing_allocs :: "fsm_state \<Rightarrow> node_id \<Rightarrow> (alloc_id \<times> alloc_kind \<times> string) list" where
  "failing_allocs s mill_id = map (\<lambda>a. (al_id a, al_kind a, al_name a))
     (filter (\<lambda>a. al_node a = mill_id \<and> \<not> is_terminal (al_status a)) (hm_values (f_allocs s)))"

fun fail_allocs ::
  "beats \<Rightarrow> env \<Rightarrow> (alloc_id \<times> alloc_kind \<times> string) list \<Rightarrow> watchdog \<Rightarrow> world \<Rightarrow> watchdog \<times> world" where
  "fail_allocs beats env [] wd w = (wd, w)"
| "fail_allocs beats env ((alloc_id, kind, name) # rest) wd w =
    (let wd' = wd\<lparr> wd_tracker := hear beats w (wd_tracker wd) \<rparr>;
         w' = ignored (propose env (AllocStatus alloc_id (Failed ''node down''))) w;
         wd' = (if kind = KService then wd'\<lparr> wd_backoff := hm_remove name (wd_backoff wd') \<rparr> else wd')
     in fail_allocs beats env rest wd' w')"

definition mark_node_allocs_failed :: "beats \<Rightarrow> env \<Rightarrow> node_id \<Rightarrow> watchdog \<Rightarrow> world \<Rightarrow> watchdog \<times> world" where
  "mark_node_allocs_failed beats env mill_id wd w = fail_allocs beats env (failing_allocs (w_fsm w) mill_id) wd w"

text \<open>The tunnel of a node that was declared down; the error of the call is only logged.\<close>

definition remove_tunnel :: "beats \<Rightarrow> env \<Rightarrow> bool \<Rightarrow> string option \<Rightarrow> watchdog \<Rightarrow> world \<Rightarrow> watchdog \<times> world" where
  "remove_tunnel beats env wireguard wg_pubkey wd w =
    (case wg_pubkey of
       Some pubkey \<Rightarrow>
         if wireguard then (wd\<lparr> wd_tracker := hear beats w (wd_tracker wd) \<rparr>, tick env [ARemovePeer pubkey] w) else (wd, w)
     | None \<Rightarrow> (wd, w))"

definition declare_down ::
  "beats \<Rightarrow> env \<Rightarrow> bool \<Rightarrow> u64 \<Rightarrow> node_id \<Rightarrow> watchdog \<Rightarrow> world \<Rightarrow> watchdog \<times> world" where
  "declare_down beats env wireguard raft_id mill_id wd w =
    (let wg_pubkey = Option.bind (hm_get (f_nodes (w_fsm w)) raft_id) n_wireguard_pubkey;
         wd = wd\<lparr> wd_tracker := hear beats w (wd_tracker wd) \<rparr>
     in case propose env (NodeDown raft_id) w of
          (Inl _, w) \<Rightarrow> (wd, w)
        | (Inr _, w) \<Rightarrow>
           (case remove_tunnel beats env wireguard wg_pubkey wd w of
              (wd, w) \<Rightarrow> mark_node_allocs_failed beats env mill_id wd w))"

fun check_nodes ::
  "beats \<Rightarrow> env \<Rightarrow> duration \<Rightarrow> bool \<Rightarrow> time \<Rightarrow> (u64 \<times> node_id \<times> node_status) list \<Rightarrow> watchdog \<Rightarrow> world \<Rightarrow>
   watchdog \<times> world" where
  "check_nodes beats env timeout wireguard now [] wd w = (wd, w)"
| "check_nodes beats env timeout wireguard now ((raft_id, mill_id, status) # rest) wd w =
    (if status \<noteq> NReady then check_nodes beats env timeout wireguard now rest wd w
     else if now - effective_seen now wd raft_id < timeout then check_nodes beats env timeout wireguard now rest wd w
     else case declare_down beats env wireguard raft_id mill_id wd w of
            (wd, w) \<Rightarrow> check_nodes beats env timeout wireguard now rest wd w)"

definition check_heartbeats ::
  "beats \<Rightarrow> env \<Rightarrow> (string \<Rightarrow> string option) \<Rightarrow> bool \<Rightarrow> watchdog \<Rightarrow> world \<Rightarrow> watchdog \<times> world" where
  "check_heartbeats beats env var wireguard wd w =
    (let now = oc_time (now_outcome env w);
         nodes = node_entries (w_fsm w)
     in check_nodes beats env (heartbeat_timeout var) wireguard now nodes (track_nodes now (map fst nodes) wd) w)"


section \<open>Tunnels of recovered nodes\<close>

definition snapshot_statuses :: "fsm_state \<Rightarrow> (u64, node_status) hash_map" where
  "snapshot_statuses s = fold (\<lambda>n m. hm_insert (n_raft_id n) (n_status n) m) (hm_values (f_nodes s)) []"

definition recovered_peers :: "(u64, node_status) hash_map \<Rightarrow> fsm_state \<Rightarrow> (node_id \<times> string) list" where
  "recovered_peers prev s = List.map_filter (\<lambda>n.
     if hm_get prev (n_raft_id n) = Some NDown \<and> n_status n = NReady
     then map_option (\<lambda>pubkey. (n_mill_id n, pubkey)) (n_wireguard_pubkey n) else None) (hm_values (f_nodes s))"

fun add_peers :: "beats \<Rightarrow> env \<Rightarrow> (node_id \<times> string) list \<Rightarrow> watchdog \<Rightarrow> world \<Rightarrow> watchdog \<times> world" where
  "add_peers beats env [] wd w = (wd, w)"
| "add_peers beats env ((n, k) # rest) wd w =
    add_peers beats env rest (wd\<lparr> wd_tracker := hear beats w (wd_tracker wd) \<rparr>) (tick env [AAddPeer n k] w)"

definition reconcile_wireguard_peers :: "beats \<Rightarrow> env \<Rightarrow> bool \<Rightarrow> watchdog \<Rightarrow> world \<Rightarrow> watchdog \<times> world" where
  "reconcile_wireguard_peers beats env wireguard wd w =
    (if \<not> wireguard then (wd\<lparr> wd_prev := snapshot_statuses (w_fsm w) \<rparr>, w)
     else case add_peers beats env (recovered_peers (wd_prev wd) (w_fsm w)) wd w of
            (wd, w) \<Rightarrow> (wd\<lparr> wd_prev := snapshot_statuses (w_fsm w) \<rparr>, w))"


section \<open>Restarts of services\<close>

definition count_allocs :: "(alloc_status \<Rightarrow> bool) \<Rightarrow> fsm_state \<Rightarrow> string \<Rightarrow> u32" where
  "count_allocs p s name = word_of_nat (length (filter (\<lambda>a. p (al_status a)) (list_service_allocs s name)))"

definition backoff_delay :: "restart_state \<Rightarrow> duration" where
  "backoff_delay st = restart_backoff ! min (rs_attempts st) (length restart_backoff - 1)"

text \<open>
  The decision for one service: the backoff table after it, the metrics and how many replicas are
  started. Nothing waits here; every start is a task of its own that runs \<^verbatim>\<open>start_alloc\<close>.
\<close>

definition check_service ::
  "time \<Rightarrow> fsm_state \<Rightarrow> string \<Rightarrow> service_def \<Rightarrow> (string, restart_state) hash_map \<Rightarrow> live_metrics \<Rightarrow>
   u32 \<times> (string, restart_state) hash_map \<times> live_metrics" where
  "check_service now s name d backoff metrics =
    (let active = count_allocs is_active s name;
         non_terminal = count_allocs (\<lambda>st. \<not> is_terminal st) s name
     in if active \<ge> s_replicas d then (0, hm_remove name backoff, metrics)
        else if non_terminal \<ge> s_replicas d then (0, backoff, metrics)
        else case hm_get backoff name of
               None \<Rightarrow> (0, hm_insert name \<lparr> rs_attempts = 0, rs_last_attempt_at = now \<rparr> backoff, metrics)
             | Some st \<Rightarrow>
                if now - rs_last_attempt_at st < backoff_delay st then (0, backoff, metrics)
                else (s_replicas d - active,
                      hm_insert name \<lparr> rs_attempts = rs_attempts st + 1, rs_last_attempt_at = now \<rparr> backoff,
                      record_restart name metrics))"

fun check_services ::
  "time \<Rightarrow> fsm_state \<Rightarrow> (string \<times> service_def) list \<Rightarrow> (string, restart_state) hash_map \<Rightarrow> live_metrics \<Rightarrow>
   (string \<times> service_def) list \<times> (string, restart_state) hash_map \<times> live_metrics" where
  "check_services now s [] backoff metrics = ([], backoff, metrics)"
| "check_services now s ((name, d) # rest) backoff metrics =
    (case check_service now s name d backoff metrics of (needed, backoff, metrics) \<Rightarrow>
     case check_services now s rest backoff metrics of (starts, backoff, metrics) \<Rightarrow>
       (replicate (unat needed) (name, d) @ starts, backoff, metrics))"

definition config_services :: "fsm_state \<Rightarrow> (string \<times> service_def) list" where
  "config_services s = (case f_config s of Some c \<Rightarrow> c_services c | None \<Rightarrow> [])"

definition check_service_restarts ::
  "time \<Rightarrow> fsm_state \<Rightarrow> watchdog \<Rightarrow> (string \<times> service_def) list \<times> watchdog" where
  "check_service_restarts now s wd =
    (let services = config_services s;
         backoff = filter (\<lambda>(name, _). name \<in> set (map fst services)) (wd_backoff wd)
     in case check_services now s services backoff (wd_metrics wd) of
          (starts, backoff, metrics) \<Rightarrow> (starts, wd\<lparr> wd_backoff := backoff, wd_metrics := metrics \<rparr>))"

text \<open>The body of a spawned restart.\<close>

definition restart_replica :: "deploy_ctx \<Rightarrow> env \<Rightarrow> string \<Rightarrow> service_def \<Rightarrow> world \<Rightarrow> world" where
  "restart_replica cx env name d w =
    (case draw_suffix env w of (sfx, w) \<Rightarrow> ignored (start_alloc cx env name d (name @ ''-'' @ sfx) 0) w)"


section \<open>A tick\<close>

definition watchdog_tick ::
  "beats \<Rightarrow> env \<Rightarrow> (string \<Rightarrow> string option) \<Rightarrow> bool \<Rightarrow> watchdog \<Rightarrow> world \<Rightarrow>
   (string \<times> service_def) list \<times> watchdog \<times> world" where
  "watchdog_tick beats env var wireguard wd w =
    (case check_heartbeats beats env var wireguard wd w of (wd, w) \<Rightarrow>
     case reconcile_wireguard_peers beats env wireguard wd w of (wd, w) \<Rightarrow>
     case check_service_restarts (oc_time (now_outcome env w)) (w_fsm w) wd of (starts, wd) \<Rightarrow> (starts, wd, w))"


section \<open>Silent nodes are declared down, and no others\<close>

lemma fold_discover_get:
  "hm_get (fold (discover now) ids m) i =
    (case hm_get m i of Some t \<Rightarrow> Some t | None \<Rightarrow> if i \<in> set ids then Some now else None)"
  by (induction ids arbitrary: m) (auto simp: discover_def hm_has_def split: option.splits)

lemma fold_tracker_remove: "hm_get (fold tracker_remove ids t) i = (if i \<in> set ids then None else hm_get t i)"
  by (induction ids arbitrary: t) (auto simp: tracker_remove_def)

lemma map_of_filter_key: "map_of (filter (\<lambda>(k, _). P k) xs) i = (if P i then map_of xs i else None)"
  by (induction xs) auto

lemma track_nodes_get:
  "i \<in> set ids \<Longrightarrow> last_seen (wd_tracker (track_nodes now ids wd)) i = last_seen (wd_tracker wd) i"
  "i \<in> set ids \<Longrightarrow> hm_get (wd_discovered (track_nodes now ids wd)) i =
     (case hm_get (wd_discovered wd) i of Some t \<Rightarrow> Some t | None \<Rightarrow> Some now)"
  by (simp_all add: track_nodes_def Let_def last_seen_def fold_tracker_remove map_of_filter_key fold_discover_get
      split: option.split)

text \<open>What the loop hears is later than its start, so it only spares nodes.\<close>

definition later :: "time \<Rightarrow> beats \<Rightarrow> bool" where
  "later now beats \<longleftrightarrow> (\<forall>k i t. (i, t) \<in> set (beats k) \<longrightarrow> now \<le> t)"

definition spared :: "time \<Rightarrow> watchdog \<Rightarrow> watchdog \<Rightarrow> bool" where
  "spared now wd wd' \<longleftrightarrow> wd_discovered wd' = wd_discovered wd \<and>
    (\<forall>i. last_seen (wd_tracker wd') i = last_seen (wd_tracker wd) i \<or>
         (\<exists>t. last_seen (wd_tracker wd') i = Some t \<and> now \<le> t))"

lemma spared_refl [simp]: "spared now wd wd"
  by (simp add: spared_def)

lemma spared_trans: "spared now wd wd' \<Longrightarrow> spared now wd' wd'' \<Longrightarrow> spared now wd wd''"
  unfolding spared_def by metis

lemma fold_record_get:
  "\<forall>(j, t) \<in> set xs. now \<le> t \<Longrightarrow>
    last_seen (fold (\<lambda>(i, t). tracker_record i t) xs tr) i = last_seen tr i \<or>
    (\<exists>t. last_seen (fold (\<lambda>(i, t). tracker_record i t) xs tr) i = Some t \<and> now \<le> t)"
proof (induction xs arbitrary: tr)
  case (Cons x xs)
  obtain j t where x: "x = (j, t)" by force
  show ?case using Cons.IH [of "tracker_record j t tr"] Cons.prems
    by (auto simp: x tracker_record_def last_seen_def split: if_splits)
qed simp

lemma spared_hear:
  assumes "later now beats"
  shows "spared now wd (wd\<lparr> wd_tracker := hear beats w (wd_tracker wd) \<rparr>)"
proof -
  have "\<forall>(j, t) \<in> set (beats (w_clock w)). now \<le> t" using assms by (auto simp: later_def)
  from fold_record_get [OF this, of "wd_tracker wd"] show ?thesis by (simp add: spared_def hear_def)
qed

lemma spared_backoff: "spared now wd wd' \<Longrightarrow> spared now wd (wd'\<lparr> wd_backoff := b \<rparr>)"
  by (simp add: spared_def)

definition downs :: "action \<Rightarrow> u64 option" where
  "downs a = (case a of APropose (NodeDown k) \<Rightarrow> Some k | _ \<Rightarrow> None)"

lemma fail_allocs_run:
  assumes "later now beats" "fail_allocs beats env xs wd w = (wd', w')"
  shows "spared now wd wd' \<and> evolves (\<lambda>a. downs a = None) w w'"
  using assms
proof (induction beats env xs wd w rule: fail_allocs.induct)
  case (2 beats env i kind name rest wd w)
  let ?wd = "wd\<lparr> wd_tracker := hear beats w (wd_tracker wd) \<rparr>"
  let ?wd2 = "if kind = KService then ?wd\<lparr> wd_backoff := hm_remove name (wd_backoff ?wd) \<rparr> else ?wd"
  let ?w = "ignored (propose env (AllocStatus i (Failed ''node down''))) w"
  have "spared now wd ?wd2" using spared_hear [OF 2(2)] spared_backoff by auto
  moreover have "evolves (\<lambda>a. downs a = None) w ?w" by (intro evolves_ignored does) (simp add: downs_def)
  moreover have "spared now ?wd2 wd' \<and> evolves (\<lambda>a. downs a = None) ?w w'"
    using 2(1) [OF refl refl refl 2(2)] 2(3) by (simp add: Let_def)
  ultimately show ?case using spared_trans evolves_trans by blast
qed simp

lemma declare_down_run:
  assumes "later now beats" "declare_down beats env wg k m wd w = (wd', w')"
  shows "spared now wd wd' \<and> evolves (\<lambda>a. downs a \<in> {None, Some k}) w w'"
proof -
  let ?P = "\<lambda>a. downs a \<in> {None, Some k}"
  let ?wd = "wd\<lparr> wd_tracker := hear beats w (wd_tracker wd) \<rparr>"
  let ?key = "Option.bind (hm_get (f_nodes (w_fsm w)) k) n_wireguard_pubkey"
  obtain r w1 where p: "propose env (NodeDown k) w = (r, w1)" by force
  have e1: "evolves ?P w w1" by (rule doesD [OF does_propose p]) (simp add: downs_def)
  have s1: "spared now wd ?wd" by (rule spared_hear [OF assms(1)])
  obtain wd2 w2 where t: "remove_tunnel beats env wg ?key ?wd w1 = (wd2, w2)" by force
  have e2: "spared now ?wd wd2 \<and> evolves ?P w1 w2"
    using t spared_hear [OF assms(1), of ?wd w1] evolves_tick [of ?P _ w1 env]
    by (auto simp: remove_tunnel_def downs_def split: option.splits if_splits)
  obtain wd3 w3 where f: "mark_node_allocs_failed beats env m wd2 w2 = (wd3, w3)" by force
  have e3: "spared now wd2 wd3 \<and> evolves ?P w2 w3"
    using fail_allocs_run [OF assms(1) f [unfolded mark_node_allocs_failed_def]] by (auto elim: evolves_mono)
  show ?thesis
  proof (cases r)
    case (Inl e)
    then show ?thesis using assms(2) p e1 s1 by (simp add: declare_down_def Let_def)
  next
    case (Inr u)
    then have "(wd', w') = (wd3, w3)" using assms(2) p t f by (simp add: declare_down_def Let_def)
    then show ?thesis using e1 e2 e3 s1 by (blast intro: spared_trans evolves_trans)
  qed
qed

lemma check_nodes_run:
  assumes "later now beats" "check_nodes beats env timeout wg now nodes wd w = (wd', w')"
  shows "\<exists>as. w_trace w' = w_trace w @ as \<and> (\<forall>k. Some k \<in> downs ` set as \<longrightarrow>
    (\<exists>m wd1. (k, m, NReady) \<in> set nodes \<and> spared now wd wd1 \<and> timeout \<le> now - effective_seen now wd1 k))"
  using assms
proof (induction beats env timeout wg now nodes wd w rule: check_nodes.induct)
  case (2 beats env timeout wg now k m status rest wd w)
  show ?case
  proof (cases "status \<noteq> NReady \<or> now - effective_seen now wd k < timeout")
    case True
    then show ?thesis using 2 by (cases "status = NReady") fastforce+
  next
    case False
    obtain wd1 w1 where d: "declare_down beats env wg k m wd w = (wd1, w1)" by force
    have dr: "spared now wd wd1" "evolves (\<lambda>a. downs a \<in> {None, Some k}) w w1"
      using declare_down_run [OF 2(4) d] by auto
    then obtain as where as: "w_trace w1 = w_trace w @ as" "list_all (\<lambda>a. downs a \<in> {None, Some k}) as"
      unfolding evolves_def by blast
    have "check_nodes beats env timeout wg now rest wd1 w1 = (wd', w')" using 2(5) False d by simp
    then obtain bs where bs: "w_trace w' = w_trace w1 @ bs" "\<forall>k. Some k \<in> downs ` set bs \<longrightarrow>
        (\<exists>m wd2. (k, m, NReady) \<in> set rest \<and> spared now wd1 wd2 \<and> timeout \<le> now - effective_seen now wd2 k)"
      using 2(3) [OF _ _ d [symmetric] 2(4)] False by auto
    have "\<exists>m wd2. (j, m, NReady) \<in> set ((k, m, status) # rest) \<and> spared now wd wd2 \<and> timeout \<le> now - effective_seen now wd2 j"
      if "Some j \<in> downs ` set (as @ bs)" for j
    proof (cases "Some j \<in> downs ` set bs")
      case True
      then show ?thesis using bs(2) spared_trans [OF dr(1)] by (meson list.set_intros(2))
    next
      case nb: False
      then have "j = k" using that as(2) by (auto simp: list_all_iff)
      then show ?thesis using False spared_refl by (intro exI [of _ m] exI [of _ wd]) auto
    qed
    then show ?thesis using as(1) bs(1) by (intro exI [of _ "as @ bs"]) auto
  qed
qed simp

lemma later_effective:
  assumes "spared now wd wd1" "timeout \<le> now - effective_seen now wd1 k" "0 < timeout"
  shows "timeout \<le> now - effective_seen now wd k"
proof -
  consider "last_seen (wd_tracker wd1) k = last_seen (wd_tracker wd) k" | t where "last_seen (wd_tracker wd1) k = Some t" "now \<le> t"
    using assms(1) unfolding spared_def by blast
  then show ?thesis
  proof cases
    case 1
    moreover have "wd_discovered wd1 = wd_discovered wd" using assms(1) by (simp add: spared_def)
    ultimately have "effective_seen now wd1 k = effective_seen now wd k" by (simp add: effective_seen_def split: option.split)
    then show ?thesis using assms(2) by simp
  next
    case (2 t)
    then show ?thesis using assms(2,3) by (simp add: effective_seen_def)
  qed
qed

text \<open>
  (C8) The watchdog declares a node down only for silence: the node was ready, and its last
  heartbeat - or, if it never sent one, the tick that first saw it - is at least the heartbeat
  timeout ago. Heartbeats that arrive while the watchdog waits are later than its start, and they
  only spare nodes.
\<close>

theorem node_down_only_when_silent:
  assumes "later (oc_time (now_outcome env w)) beats" "0 < heartbeat_timeout var"
    and "check_heartbeats beats env var wg wd w = (wd', w')"
    and "w_trace w' = w_trace w @ as" "APropose (NodeDown k) \<in> set as"
  shows "(\<exists>n \<in> set (hm_values (f_nodes (w_fsm w))). n_raft_id n = k \<and> n_status n = NReady) \<and>
    (\<exists>t. (last_seen (wd_tracker wd) k = Some t \<or>
          last_seen (wd_tracker wd) k = None \<and> hm_get (wd_discovered wd) k = Some t) \<and>
         t + heartbeat_timeout var \<le> oc_time (now_outcome env w))"
proof -
  let ?now = "oc_time (now_outcome env w)"
  let ?ids = "map fst (node_entries (w_fsm w))"
  let ?wd = "track_nodes ?now ?ids wd"
  have "check_nodes beats env (heartbeat_timeout var) wg ?now (node_entries (w_fsm w)) ?wd w = (wd', w')"
    using assms(3) by (simp add: check_heartbeats_def Let_def)
  from check_nodes_run [OF assms(1) this] assms(4,5)
  obtain m wd1 where k: "(k, m, NReady) \<in> set (node_entries (w_fsm w))"
    and sp: "spared ?now ?wd wd1" "heartbeat_timeout var \<le> ?now - effective_seen ?now wd1 k"
    by (force simp: downs_def)
  have "heartbeat_timeout var \<le> ?now - effective_seen ?now ?wd k" by (rule later_effective [OF sp assms(2)])
  moreover have "k \<in> set ?ids" using k by force
  ultimately have "\<exists>t. (last_seen (wd_tracker wd) k = Some t \<or>
          last_seen (wd_tracker wd) k = None \<and> hm_get (wd_discovered wd) k = Some t) \<and>
         t + heartbeat_timeout var \<le> ?now"
    using assms(2) by (auto simp: effective_seen_def track_nodes_get split: option.splits)
  moreover have "\<exists>n \<in> set (hm_values (f_nodes (w_fsm w))). n_raft_id n = k \<and> n_status n = NReady"
    using k by (auto simp: node_entries_def)
  ultimately show ?thesis by blast
qed


definition silent_env :: env where
  "silent_env k = (calm [] k)\<lparr> oc_time := 20 * 10 ^ 9 \<rparr>"

lemma heartbeat_timeout_default: "heartbeat_timeout (\<lambda>_. None) = 15 * 10 ^ 9"
  by (simp add: heartbeat_timeout_def read_ms_def read_u64_def)

lemma silent_trace:
  "APropose (NodeDown 1) \<in> set (w_trace (snd (check_heartbeats (\<lambda>_. []) silent_env (\<lambda>_. None) False
     (watchdog_new [(1, 0)] live_metrics_new) (world_of state_a))))"
proof -
  have n: "node_entries state_a = [(1, ''n1'', NReady)]" by (simp add: node_entries_def state_a_def node1_def)
  have t: "oc_time (now_outcome silent_env w) = 20 * 10 ^ 9" for w by (simp add: now_outcome_def silent_env_def)
  have r: "oc_raft_error (now_outcome silent_env w) = None" for w by (simp add: now_outcome_def silent_env_def calm_def)
  have keep: "x \<in> set (w_trace w) \<Longrightarrow> x \<in> set (w_trace (snd (mark_node_allocs_failed b e m wd w)))"
    if "b = (\<lambda>_. [])" for x b e m wd w
  proof -
    obtain wd' w' where f: "mark_node_allocs_failed b e m wd w = (wd', w')" by force
    have "later 0 b" using that by (simp add: later_def)
    then have "evolves (\<lambda>a. downs a = None) w w'" using fail_allocs_run f [unfolded mark_node_allocs_failed_def] by blast
    then show "x \<in> set (w_trace w) \<Longrightarrow> x \<in> set (w_trace (snd (mark_node_allocs_failed b e m wd w)))"
      using f by (auto simp: evolves_def)
  qed
  have w: "w_fsm (world_of state_a) = state_a" by (simp add: world_of_def)
  have k: "remove_tunnel b e False key wd w = (wd, w)" for b e key wd w by (simp add: remove_tunnel_def split: option.split)
  have e: "effective_seen now (track_nodes now [1] (watchdog_new [(1, 0)] live_metrics_new)) 1 = 0" for now
    by (simp add: effective_seen_def track_nodes_get) (simp add: watchdog_new_def last_seen_def)
  show ?thesis
    by (simp add: check_heartbeats_def Let_def w n t heartbeat_timeout_default e
        declare_down_def propose_eq r k case_prod_beta keep)
qed

theorem node_down_only_when_silent_witness:
  "\<exists>t. (last_seen [(1, 0)] 1 = Some t \<or> last_seen [(1 :: u64, 0)] 1 = None \<and> hm_get [] (1 :: u64) = Some t) \<and>
     t + heartbeat_timeout (\<lambda>_. None) \<le> 20 * 10 ^ 9"
proof -
  have t: "oc_time (now_outcome silent_env (world_of state_a)) = 20 * 10 ^ 9"
    by (simp add: now_outcome_def silent_env_def)
  show ?thesis
    using node_down_only_when_silent [OF _ _ prod.collapse [symmetric] _ silent_trace, of silent_env "world_of state_a"
        "\<lambda>_. []" "\<lambda>_. None" False "watchdog_new [(1, 0)] live_metrics_new"] t
    by (simp add: later_def heartbeat_timeout_default) (simp add: world_of_def watchdog_new_def)
qed


section \<open>A silent node goes down with its allocations\<close>

definition settled :: "node_id \<Rightarrow> fsm_state \<Rightarrow> bool" where
  "settled m s \<longleftrightarrow> (\<forall>i a. hm_get (f_allocs s) i = Some a \<and> al_node a = m \<longrightarrow> is_terminal (al_status a))"

definition is_down :: "u64 \<Rightarrow> fsm_state \<Rightarrow> bool" where
  "is_down k s \<longleftrightarrow> map_option n_status (hm_get (f_nodes s) k) = Some NDown"

text \<open>The two commands of the watchdog never bring a node or an allocation back.\<close>

definition sinks :: "fsm_state \<Rightarrow> fsm_state \<Rightarrow> bool" where
  "sinks s s' \<longleftrightarrow> (fsm_inv s \<longrightarrow> fsm_inv s') \<and> (\<forall>m. settled m s \<longrightarrow> settled m s') \<and> (\<forall>k. is_down k s \<longrightarrow> is_down k s') \<and>
    (\<forall>k. map_option n_mill_id (hm_get (f_nodes s') k) = map_option n_mill_id (hm_get (f_nodes s) k))"

lemma sinks_refl [simp]: "sinks s s"
  by (simp add: sinks_def)

lemma sinks_trans: "sinks s s' \<Longrightarrow> sinks s' s'' \<Longrightarrow> sinks s s''"
  unfolding sinks_def by metis

lemma sinks_down: "sinks s (fst (apply_command s (NodeDown k)))"
proof -
  have "fsm_inv s \<longrightarrow> fsm_inv (fst (apply_command s (NodeDown k)))" using fsm_inv_apply by blast
  then show ?thesis unfolding sinks_def
    by (auto simp: settled_def is_down_def split: option.splits)
qed

lemma sinks_fail: "sinks s (fst (apply_command s (AllocStatus i (Failed e))))"
proof -
  have "fsm_inv s \<longrightarrow> fsm_inv (fst (apply_command s (AllocStatus i (Failed e))))" using fsm_inv_apply by blast
  then show ?thesis unfolding sinks_def
    by (auto simp: settled_def is_down_def split: option.splits if_splits)
qed

lemma fail_allocs_settle:
  assumes "undisturbed env" "fail_allocs beats env xs wd w = (wd', w')"
    and "\<And>i a. hm_get (f_allocs (w_fsm w)) i = Some a \<Longrightarrow> al_node a = m \<Longrightarrow> is_terminal (al_status a) \<or> i \<in> fst ` set xs"
  shows "settled m (w_fsm w') \<and> sinks (w_fsm w) (w_fsm w')"
  using assms
proof (induction beats env xs wd w rule: fail_allocs.induct)
  case (1 beats env wd w)
  then show ?case by (auto simp: settled_def)
next
  case (2 beats env i kind name rest wd w)
  let ?s = "fst (apply_command (w_fsm w) (AllocStatus i (Failed ''node down'')))"
  let ?w = "ignored (propose env (AllocStatus i (Failed ''node down''))) w"
  have w: "w_fsm ?w = ?s" by (simp add: ignored_def undisturbed_propose [OF 2(2)])
  have "is_terminal (al_status a) \<or> j \<in> fst ` set rest"
    if "hm_get (f_allocs (w_fsm ?w)) j = Some a" "al_node a = m" for j a
  proof (cases "hm_get (f_allocs (w_fsm w)) i")
    case None
    then show ?thesis using 2(4) [of j a] that unfolding w by auto
  next
    case (Some b)
    then show ?thesis using 2(4) [of j a] that unfolding w by (auto split: if_splits)
  qed
  from 2(1) [OF refl refl refl 2(2) _ this] 2(3) have "settled m (w_fsm w') \<and> sinks (w_fsm ?w) (w_fsm w')"
    by (simp add: Let_def)
  then show ?case using sinks_fail [of "w_fsm w" i] sinks_trans unfolding w by blast
qed

lemma failing_allocs_complete:
  assumes "fsm_inv s" "hm_get (f_allocs s) i = Some a" "al_node a = m"
  shows "is_terminal (al_status a) \<or> i \<in> fst ` set (failing_allocs s m)"
proof -
  have "(i, a) \<in> set (f_allocs s)" using assms(2) by (rule map_of_SomeD)
  moreover have "al_id a = i" using assms(1) calculation by (auto simp: fsm_inv_def keyed_by_id_def list_all_iff)
  ultimately show ?thesis using assms(3) by (force simp: failing_allocs_def)
qed

lemma declare_down_settles:
  assumes "undisturbed env" "declare_down beats env wg k m wd w = (wd', w')" "fsm_inv (w_fsm w)"
    "hm_get (f_nodes (w_fsm w)) k \<noteq> None"
  shows "settled m (w_fsm w') \<and> is_down k (w_fsm w') \<and> sinks (w_fsm w) (w_fsm w')"
proof -
  let ?s = "fst (apply_command (w_fsm w) (NodeDown k))"
  have down: "is_down k ?s" using assms(4) by (auto simp: is_down_def)
  have inv: "fsm_inv ?s" using sinks_down [of "w_fsm w" k] assms(3) by (simp add: sinks_def)
  obtain wd2 w2 where t: "remove_tunnel beats env wg (Option.bind (hm_get (f_nodes (w_fsm w)) k) n_wireguard_pubkey)
      (wd\<lparr> wd_tracker := hear beats w (wd_tracker wd) \<rparr>) ((tick env [APropose (NodeDown k)] w)\<lparr> w_fsm := ?s \<rparr>) = (wd2, w2)"
    by force
  then have w2: "w_fsm w2 = ?s"
    by (auto simp: remove_tunnel_def undisturbed_others [OF assms(1)] split: option.splits if_splits)
  have f: "fail_allocs beats env (failing_allocs (w_fsm w2) m) wd2 w2 = (wd', w')"
    using assms(2) t by (simp add: declare_down_def Let_def undisturbed_propose [OF assms(1)] mark_node_allocs_failed_def)
  have "settled m (w_fsm w') \<and> sinks (w_fsm w2) (w_fsm w')"
    using fail_allocs_settle [OF assms(1) f] failing_allocs_complete inv unfolding w2 by blast
  then show ?thesis using down sinks_down [of "w_fsm w" k] sinks_trans unfolding w2 by (meson sinks_def)
qed


section \<open>The effect on the state\<close>

lemma spared_always:
  assumes "\<And>n. spared n wd wd1"
  shows "effective_seen now wd1 j = effective_seen now wd j"
proof -
  have "last_seen (wd_tracker wd1) j = last_seen (wd_tracker wd) j"
  proof (cases "last_seen (wd_tracker wd1) j")
    case None
    then show ?thesis using assms [of 0] by (auto simp: spared_def dest: spec [of _ j])
  next
    case (Some t)
    then show ?thesis using assms [of "Suc t"] by (auto simp: spared_def dest: spec [of _ j])
  qed
  moreover have "wd_discovered wd1 = wd_discovered wd" using assms [of 0] by (simp add: spared_def)
  ultimately show ?thesis by (simp add: effective_seen_def split: option.split)
qed

lemma check_nodes_settles:
  assumes "undisturbed env" "check_nodes beats env timeout wg now nodes wd w = (wd', w')" "fsm_inv (w_fsm w)"
    "\<forall>k \<in> fst ` set nodes. hm_get (f_nodes (w_fsm w)) k \<noteq> None" "beats = (\<lambda>_. [])"
  shows "sinks (w_fsm w) (w_fsm w') \<and> (\<forall>k m. (k, m, NReady) \<in> set nodes \<and> timeout \<le> now - effective_seen now wd k \<longrightarrow>
    is_down k (w_fsm w') \<and> settled m (w_fsm w'))"
  using assms
proof (induction beats env timeout wg now nodes wd w rule: check_nodes.induct)
  case (2 beats env timeout wg now k m status rest wd w)
  show ?case
  proof (cases "status \<noteq> NReady \<or> now - effective_seen now wd k < timeout")
    case True
    then have ck: "check_nodes beats env timeout wg now rest wd w = (wd', w')" using 2(5) by (simp split: if_splits)
    have ex: "\<forall>k \<in> fst ` set rest. hm_get (f_nodes (w_fsm w)) k \<noteq> None" using 2(7) by simp
    have "sinks (w_fsm w) (w_fsm w') \<and> (\<forall>k m. (k, m, NReady) \<in> set rest \<and> timeout \<le> now - effective_seen now wd k \<longrightarrow>
        is_down k (w_fsm w') \<and> settled m (w_fsm w'))"
    proof (cases "status \<noteq> NReady")
      case True
      then show ?thesis by (rule 2(1) [OF _ 2(4) ck 2(6) ex 2(8)])
    next
      case nr: False
      then show ?thesis using True by (intro 2(2) [OF nr _ 2(4) ck 2(6) ex 2(8)]) simp
    qed
    then show ?thesis using True by auto
  next
    case False
    obtain wd1 w1 where d: "declare_down beats env wg k m wd w = (wd1, w1)" by force
    have dr: "settled m (w_fsm w1)" "is_down k (w_fsm w1)" "sinks (w_fsm w) (w_fsm w1)"
      using declare_down_settles [OF 2(4) d 2(6)] 2(7) by auto
    have "later n beats" for n using 2(8) by (simp add: later_def)
    then have eff: "effective_seen now wd1 j = effective_seen now wd j" for j
      using declare_down_run [OF _ d] spared_always by blast
    have ck: "check_nodes beats env timeout wg now rest wd1 w1 = (wd', w')" using 2(5) False d by simp
    have "hm_get (f_nodes (w_fsm w1)) j \<noteq> None" if "hm_get (f_nodes (w_fsm w)) j \<noteq> None" for j
      using dr(3) that unfolding sinks_def by (metis option.map_disc_iff)
    then have "\<forall>k \<in> fst ` set rest. hm_get (f_nodes (w_fsm w1)) k \<noteq> None" using 2(7) by auto
    moreover have "fsm_inv (w_fsm w1)" using dr(3) 2(6) by (simp add: sinks_def)
    ultimately have rest: "sinks (w_fsm w1) (w_fsm w')"
      "\<And>k m. (k, m, NReady) \<in> set rest \<Longrightarrow> timeout \<le> now - effective_seen now wd1 k \<Longrightarrow> is_down k (w_fsm w') \<and> settled m (w_fsm w')"
      using 2(3) [OF _ _ d [symmetric] 2(4) ck _ _ 2(8)] False by blast+
    then have "is_down k (w_fsm w') \<and> settled m (w_fsm w')" using dr(1,2) by (simp add: sinks_def)
    then show ?thesis using rest sinks_trans [OF dr(3)] unfolding eff by auto
  qed
qed simp


text \<open>
  (C9) Silence is noticed: when nothing else happens and Raft accepts the proposals, a check at
  least the timeout after the last heartbeat of a ready node leaves the node down and every
  allocation on it stopped or failed, whatever the other nodes of the same check do.
\<close>

theorem silent_node_goes_down:
  assumes "undisturbed env" "fsm_inv (w_fsm w)" "check_heartbeats (\<lambda>_. []) env var wg wd w = (wd', w')"
    and "hm_get (f_nodes (w_fsm w)) k = Some n" "n_status n = NReady"
    and "last_seen (wd_tracker wd) k = Some t \<or> last_seen (wd_tracker wd) k = None \<and> hm_get (wd_discovered wd) k = Some t"
    and "t + heartbeat_timeout var \<le> oc_time (now_outcome env w)"
  shows "map_option n_status (hm_get (f_nodes (w_fsm w')) k) = Some NDown \<and>
    (\<forall>i a. hm_get (f_allocs (w_fsm w')) i = Some a \<and> al_node a = n_mill_id n \<longrightarrow> is_terminal (al_status a))"
proof -
  let ?now = "oc_time (now_outcome env w)"
  let ?nodes = "node_entries (w_fsm w)"
  let ?wd = "track_nodes ?now (map fst ?nodes) wd"
  have key: "n_raft_id n' = j" if "(j, n') \<in> set (f_nodes (w_fsm w))" for j n'
    using assms(2) that by (auto simp: fsm_inv_def keyed_by_id_def list_all_iff)
  have kn: "(k, n) \<in> set (f_nodes (w_fsm w))" using assms(4) by (rule map_of_SomeD)
  then have k: "(k, n_mill_id n, NReady) \<in> set ?nodes"
    using key assms(5) by (force simp: node_entries_def)
  have ex: "\<forall>k \<in> fst ` set ?nodes. hm_get (f_nodes (w_fsm w)) k \<noteq> None"
    using key by (auto simp: node_entries_def weak_map_of_SomeI)
  have ck: "check_nodes (\<lambda>_. []) env (heartbeat_timeout var) wg ?now ?nodes ?wd w = (wd', w')"
    using assms(3) by (simp add: check_heartbeats_def Let_def)
  have "k \<in> set (map fst ?nodes)" using k by force
  from track_nodes_get [OF this, of ?now wd] have "effective_seen ?now ?wd k = t"
    using assms(6) by (auto simp: effective_seen_def)
  then have "heartbeat_timeout var \<le> ?now - effective_seen ?now ?wd k" using assms(7) by simp
  then have "is_down k (w_fsm w') \<and> settled (n_mill_id n) (w_fsm w')"
    using check_nodes_settles [OF assms(1) ck assms(2) ex refl] k by blast
  then show ?thesis unfolding is_down_def settled_def .
qed

theorem silent_node_goes_down_witness:
  "map_option n_status (hm_get (f_nodes (w_fsm (snd (check_heartbeats (\<lambda>_. []) silent_env (\<lambda>_. None) False
     (watchdog_new [(1, 0)] live_metrics_new) (world_of state_a))))) 1) = Some NDown"
proof -
  have u: "undisturbed silent_env" by (simp add: undisturbed_def silent_env_def calm_def)
  have i: "fsm_inv (w_fsm (world_of state_a))"
    by (simp add: fsm_inv_def keyed_by_id_def state_a_def world_of_def node1_def alloc1_def make_alloc_def fsm_default_def)
  have n: "hm_get (f_nodes (w_fsm (world_of state_a))) 1 = Some (node1\<lparr> n_status := NReady \<rparr>)"
    by (simp add: world_of_def state_a_def)
  have t: "oc_time (now_outcome silent_env (world_of state_a)) = 20 * 10 ^ 9"
    by (simp add: now_outcome_def silent_env_def)
  show ?thesis
    using silent_node_goes_down [OF u i prod.collapse [symmetric] n, where var = "\<lambda>_. None" and wg = False and
        wd = "watchdog_new [(1, 0)] live_metrics_new" and t = 0] t
    by (simp add: heartbeat_timeout_default) (simp add: watchdog_new_def last_seen_def)
qed


section \<open>Restarts\<close>

definition service_count :: "(alloc_status \<Rightarrow> bool) \<Rightarrow> fsm_state \<Rightarrow> string \<Rightarrow> nat" where
  "service_count p s name = length (filter (\<lambda>a. p (al_status a)) (list_service_allocs s name))"

lemma count_split:
  "service_count (\<lambda>st. \<not> is_terminal st) s name =
    service_count is_active s name + service_count (\<lambda>st. st = Pulling \<or> st = Starting) s name"
proof -
  have "length (filter (\<lambda>a. \<not> is_terminal (al_status a)) xs) =
      length (filter (\<lambda>a. is_active (al_status a)) xs) +
      length (filter (\<lambda>a. al_status a = Pulling \<or> al_status a = Starting) xs)" for xs :: "alloc list"
  proof (induction xs)
    case (Cons a xs)
    then show ?case by (cases "al_status a") auto
  qed simp
  then show ?thesis by (simp add: service_count_def)
qed

lemma count_mono: "service_count p s name \<le> length (f_allocs s)"
  unfolding service_count_def list_service_allocs_def
  by (rule order_trans [OF length_filter_le], rule order_trans [OF length_filter_le]) simp

lemma unat_count: "length (f_allocs s) < 2 ^ 32 \<Longrightarrow> unat (count_allocs p s name) = service_count p s name"
  using count_mono [of p s name] unfolding count_allocs_def service_count_def [symmetric]
  by (intro of_nat_inverse [OF refl]) simp

text \<open>
  (C26) A restart waits its turn and then starts as many replicas as are not active: with fewer
  live allocations than replicas, and only when the delay that belongs to the number of earlier
  attempts has passed since the last one. What is being pulled or started counts as live but not as
  active, so after the restart there are as many allocations too many as were on their way.
\<close>

theorem restart_spec:
  assumes "length (f_allocs s) < 2 ^ 32" "check_service now s name d backoff metrics = (needed, backoff', metrics')"
  shows "(needed \<noteq> 0 \<longleftrightarrow> service_count (\<lambda>st. \<not> is_terminal st) s name < unat (s_replicas d) \<and>
      (\<exists>st. hm_get backoff name = Some st \<and> backoff_delay st \<le> now - rs_last_attempt_at st)) \<and>
    (needed \<noteq> 0 \<longrightarrow>
      unat needed + service_count (\<lambda>st. \<not> is_terminal st) s name =
        unat (s_replicas d) + service_count (\<lambda>st. st = Pulling \<or> st = Starting) s name \<and>
      map_option rs_last_attempt_at (hm_get backoff' name) = Some now)"
proof -
  have a: "unat (count_allocs is_active s name) = service_count is_active s name"
    and n: "unat (count_allocs (\<lambda>st. \<not> is_terminal st) s name) = service_count (\<lambda>st. \<not> is_terminal st) s name"
    by (rule unat_count [OF assms(1)])+
  have sub: "unat (s_replicas d - count_allocs is_active s name) = unat (s_replicas d) - service_count is_active s name"
    if "service_count is_active s name < unat (s_replicas d)"
    using that a by (simp add: unat_sub word_le_nat_alt)
  show ?thesis
  proof (cases "service_count (\<lambda>st. \<not> is_terminal st) s name < unat (s_replicas d)")
    case True
    then have "service_count is_active s name < unat (s_replicas d)" using count_split [of s name] by simp
    then show ?thesis using assms(2) True a n sub count_split [of s name]
      by (auto simp: check_service_def Let_def word_le_nat_alt unat_eq_0 [symmetric] simp del: unat_eq_0 split: option.splits if_splits)
  next
    case False
    then show ?thesis using assms(2) a n
      by (auto simp: check_service_def Let_def word_le_nat_alt split: option.splits if_splits)
  qed
qed


theorem restart_spec_witness:
  "unat (fst (check_service (20 * 10 ^ 9) (state1 Pulling) ''web'' (svc1\<lparr> s_replicas := 3 \<rparr>)
      [(''web'', \<lparr> rs_attempts = 0, rs_last_attempt_at = 0 \<rparr>)] live_metrics_new)) + 1 = 3 + 1"
proof -
  have c: "service_count (\<lambda>st. \<not> is_terminal st) (state1 Pulling) ''web'' = 1"
    "service_count (\<lambda>st. st = Pulling \<or> st = Starting) (state1 Pulling) ''web'' = 1"
    by (simp_all add: service_count_def list_service_allocs_def state1_def alloc1_def make_alloc_def)
  have l: "length (f_allocs (state1 Pulling)) < 2 ^ 32" by (simp add: state1_def)
  have b: "backoff_delay \<lparr> rs_attempts = 0, rs_last_attempt_at = 0 \<rparr> \<le> 20 * 10 ^ 9 - 0"
    by (simp add: backoff_delay_def restart_backoff_def)
  show ?thesis
    using restart_spec [OF l, of "20 * 10 ^ 9" "''web''" "svc1\<lparr> s_replicas := 3 \<rparr>"
        "[(''web'', \<lparr> rs_attempts = 0, rs_last_attempt_at = 0 \<rparr>)]" live_metrics_new] b
    by (cases "check_service (20 * 10 ^ 9) (state1 Pulling) ''web'' (svc1\<lparr> s_replicas := 3 \<rparr>)
      [(''web'', \<lparr> rs_attempts = 0, rs_last_attempt_at = 0 \<rparr>)] live_metrics_new") (simp add: c)
qed

end
