(* ===== verification/Secondary.thy ===== *)
theory Secondary
  imports Ports Effects
begin

text \<open>
  The secondary, \<^verbatim>\<open>crates/node/src/secondary\<close>: the map of local allocations, the log
  buffers, the runner, the reconciliation after a restart, the heartbeat and the command loop. The
  container runtime answers from outside; its answers come with each command, and so do the exits
  of containers whose waiters run while a handler waits for the runtime. A waiter is atomic.
\<close>

section \<open>Log buffers\<close>

definition max_lines :: nat where "max_lines = 10000"

definition lb_push :: "log_line \<Rightarrow> log_line list \<Rightarrow> log_line list" where
  "lb_push line buf = (if max_lines \<le> length buf then drop 1 buf else buf) @ [line]"

definition lb_tail :: "nat \<Rightarrow> log_line list \<Rightarrow> log_line list" where
  "lb_tail n buf = rev (take n (rev buf))"


section \<open>Local allocations\<close>

record local_alloc =
  la_alloc_id :: alloc_id
  la_spec :: container_spec
  la_status :: alloc_status
  la_host_port :: "u16 option"
  la_log_buffer :: "log_line list"

type_synonym allocation_map = "(alloc_id, local_alloc) hash_map"

definition am_insert :: "local_alloc \<Rightarrow> allocation_map \<Rightarrow> (alloc_id, unit) result \<times> allocation_map" where
  "am_insert a m =
    (if hm_has m (la_alloc_id a) then (Inl (la_alloc_id a), m) else (Inr (), hm_insert (la_alloc_id a) a m))"

definition am_host_port :: "allocation_map \<Rightarrow> alloc_id \<Rightarrow> u16 option" where
  "am_host_port m alloc_id = Option.bind (hm_get m alloc_id) la_host_port"

definition am_log_buffer :: "allocation_map \<Rightarrow> alloc_id \<Rightarrow> log_line list option" where
  "am_log_buffer m alloc_id = map_option la_log_buffer (hm_get m alloc_id)"

definition all_statuses :: "allocation_map \<Rightarrow> (alloc_id, alloc_status) hash_map" where
  "all_statuses m = map (\<lambda>(k, v). (k, la_status v)) m"

definition set_status :: "alloc_id \<Rightarrow> alloc_status \<Rightarrow> allocation_map \<Rightarrow> allocation_map" where
  "set_status alloc_id status m = hm_alter (\<lambda>a. a\<lparr> la_status := status \<rparr>) alloc_id m"

definition total_reserved_cpu :: "allocation_map \<Rightarrow> f64" where
  "total_reserved_cpu m = fold (\<lambda>a acc. f64_add acc (cs_cpu (la_spec a))) (hm_values m) (Fin 0)"

definition total_reserved_memory :: "allocation_map \<Rightarrow> u64" where
  "total_reserved_memory m = sum_list (map (\<lambda>a. cs_memory (la_spec a)) (hm_values m))"

definition volume_info_of :: "allocation_map \<Rightarrow> volume_info list" where
  "volume_info_of m = concat (map (\<lambda>a. map (\<lambda>v. \<lparr> vi_name = cv_name v, vi_size_bytes = 0, vi_alloc_id = Some (la_alloc_id a) \<rparr>)
     (filter (\<lambda>v. \<not> cv_ephemeral v) (cs_volumes (la_spec a)))) (hm_values m))"


section \<open>The state of a secondary\<close>

datatype runtime_call = CPull string | CRun container_spec | CStop alloc_id | CRemove alloc_id

type_synonym i32 = "32 word"

record secondary =
  sc_ports :: port_pool
  sc_allocs :: allocation_map
  sc_reports :: "node_report list"
  sc_waiters :: "(alloc_id \<times> u16 option) list"
  sc_follows :: "alloc_id list"
  sc_calls :: "runtime_call list"

text \<open>
  \<open>sc_follows\<close> are the allocations with a follow task on their buffer; a new buffer has none.

  What the runtime answers to the calls of one command, and the exits at its two waits.
\<close>

record replies =
  rr_cached :: bool
  rr_pull :: "(string, unit) result"
  rr_run :: "(string, unit) result"
  rr_stop :: "(string, i32) result"
  rr_exits1 :: "(alloc_id \<times> (string, i32) result) list"
  rr_exits2 :: "(alloc_id \<times> (string, i32) result) list"

definition secondary_new :: "port_pool \<Rightarrow> secondary" where
  "secondary_new ports = \<lparr> sc_ports = ports, sc_allocs = [], sc_reports = [], sc_waiters = [],
     sc_follows = [], sc_calls = [] \<rparr>"

definition send_report :: "node_report \<Rightarrow> secondary \<Rightarrow> secondary" where
  "send_report r s = s\<lparr> sc_reports := sc_reports s @ [r] \<rparr>"

definition call_runtime :: "runtime_call \<Rightarrow> secondary \<Rightarrow> secondary" where
  "call_runtime c s = s\<lparr> sc_calls := sc_calls s @ [c] \<rparr>"

definition release_port :: "u16 option \<Rightarrow> secondary \<Rightarrow> secondary" where
  "release_port host_port s =
    (case host_port of None \<Rightarrow> s | Some port \<Rightarrow> s\<lparr> sc_ports := release port (sc_ports s) \<rparr>)"

definition show_int :: "int \<Rightarrow> string" where
  "show_int k = (if k < 0 then ''-'' @ show_nat (nat (- k)) else show_nat (nat k))"


section \<open>The exit waiter\<close>

definition exit_waiter :: "alloc_id \<Rightarrow> u16 option \<Rightarrow> (string, i32) result \<Rightarrow> secondary \<Rightarrow> secondary" where
  "exit_waiter alloc_id host_port r s =
    (let code = (case r of Inr c \<Rightarrow> c | Inl _ \<Rightarrow> -1);
         status = (if code = 0 then Stopped code else Failed (''exit code '' @ show_int (sint code)));
         s = s\<lparr> sc_allocs := set_status alloc_id status (sc_allocs s) \<rparr>;
         s = release_port host_port s;
         s = s\<lparr> sc_allocs := hm_remove alloc_id (sc_allocs s) \<rparr>
     in send_report (RStopped alloc_id code) s)"

fun take_waiter :: "alloc_id \<Rightarrow> (alloc_id \<times> u16 option) list \<Rightarrow> (u16 option \<times> (alloc_id \<times> u16 option) list) option" where
  "take_waiter i [] = None"
| "take_waiter i ((j, p) # ws) =
    (if i = j then Some (p, ws) else map_option (\<lambda>(q, ws'). (q, (j, p) # ws')) (take_waiter i ws))"

text \<open>The container of an allocation exits, and its waiter runs.\<close>

definition container_exits :: "alloc_id \<times> (string, i32) result \<Rightarrow> secondary \<Rightarrow> secondary" where
  "container_exits x s =
    (case take_waiter (fst x) (sc_waiters s) of
       None \<Rightarrow> s
     | Some (port, ws) \<Rightarrow> exit_waiter (fst x) port (snd x) (s\<lparr> sc_waiters := ws \<rparr>))"


section \<open>The runner\<close>

definition spawn_exit_waiter :: "alloc_id \<Rightarrow> u16 option \<Rightarrow> secondary \<Rightarrow> secondary" where
  "spawn_exit_waiter alloc_id host_port s = s\<lparr> sc_waiters := sc_waiters s @ [(alloc_id, host_port)] \<rparr>"

definition mesh_address :: "ip_addr option \<Rightarrow> u16 option \<Rightarrow> socket_addr option" where
  "mesh_address mesh_ip host_port =
    (case (mesh_ip, host_port) of (Some ip, Some port) \<Rightarrow> Some \<lparr> sa_ip = ip, sa_port = port \<rparr> | _ \<Rightarrow> None)"

text \<open>The port of the container, if it exposes one.\<close>

definition take_port :: "alloc_id \<Rightarrow> container_spec \<Rightarrow> secondary \<Rightarrow> (node_error, u16 option) result \<times> secondary" where
  "take_port alloc_id spec s =
    (if cs_port spec = None then (Inr None, s)
     else case allocate alloc_id (sc_ports s) of
            (_, None) \<Rightarrow> (Inl PortExhaustion, s)
          | (ports, Some port) \<Rightarrow> (Inr (Some port), s\<lparr> sc_ports := ports \<rparr>))"

definition with_port :: "u16 option \<Rightarrow> container_spec \<Rightarrow> container_spec" where
  "with_port host_port spec =
    (case host_port of
       None \<Rightarrow> spec
     | Some port \<Rightarrow> spec\<lparr> cs_host_port := Some port, cs_env := hm_insert ''PORT'' (show_word port) (cs_env spec) \<rparr>)"

definition start_container ::
  "replies \<Rightarrow> alloc_id \<Rightarrow> container_spec \<Rightarrow> u16 option \<Rightarrow> ip_addr option \<Rightarrow> secondary \<Rightarrow>
   (node_error, unit) result \<times> secondary" where
  "start_container rr alloc_id spec host_port mesh_ip s =
    (let s = fold container_exits (rr_exits2 rr) (call_runtime (CRun spec) s)
     in case rr_run rr of
          Inl e \<Rightarrow>
            (Inl (NContainerd e),
             send_report (RunFailed alloc_id (''container start failed: '' @ e)) (release_port host_port s))
        | Inr _ \<Rightarrow>
            let a = \<lparr> la_alloc_id = alloc_id, la_spec = spec, la_status = Running, la_host_port = host_port,
                      la_log_buffer = [] \<rparr>;
                s = s\<lparr> sc_allocs := snd (am_insert a (sc_allocs s)), sc_follows := removeAll alloc_id (sc_follows s) \<rparr>;
                s = send_report (RunStarted alloc_id host_port (mesh_address mesh_ip host_port)) s
            in (Inr (), spawn_exit_waiter alloc_id host_port s))"

definition run_container ::
  "replies \<Rightarrow> alloc_id \<Rightarrow> container_spec \<Rightarrow> ip_addr option \<Rightarrow> secondary \<Rightarrow> (node_error, unit) result \<times> secondary" where
  "run_container rr alloc_id spec mesh_ip s =
    (if hm_has (sc_allocs s) alloc_id then (Inl (AllocAlreadyExists alloc_id), s)
     else
       let s = send_report (StatusUpdate alloc_id Pulling) s;
           s = fold container_exits (rr_exits1 rr) (if rr_cached rr then s else call_runtime (CPull (cs_image spec)) s)
       in case (if rr_cached rr then Inr () else rr_pull rr) of
            Inl e \<Rightarrow> (Inl (NContainerd e), send_report (RunFailed alloc_id (''image pull failed: '' @ e)) s)
          | Inr _ \<Rightarrow>
             (case take_port alloc_id spec (send_report (StatusUpdate alloc_id Starting) s) of
                (Inl e, s) \<Rightarrow> (Inl e, s)
              | (Inr host_port, s) \<Rightarrow> start_container rr alloc_id (with_port host_port spec) host_port mesh_ip s))"

definition stop_container :: "replies \<Rightarrow> alloc_id \<Rightarrow> secondary \<Rightarrow> (node_error, unit) result \<times> secondary" where
  "stop_container rr alloc_id s =
    (let host_port = am_host_port (sc_allocs s) alloc_id;
         s = fold container_exits (rr_exits1 rr) (call_runtime (CStop alloc_id) s);
         s = fold container_exits (rr_exits2 rr) (call_runtime (CRemove alloc_id) s);
         s = release_port host_port s;
         s = s\<lparr> sc_allocs := hm_remove alloc_id (sc_allocs s) \<rparr>;
         code = (case rr_stop rr of Inr c \<Rightarrow> c | Inl _ \<Rightarrow> -1)
     in (map_sum NContainerd (\<lambda>_. ()) (rr_stop rr), send_report (RStopped alloc_id code) s))"

definition pull_image :: "replies \<Rightarrow> string \<Rightarrow> secondary \<Rightarrow> secondary" where
  "pull_image rr img s =
    (let s = fold container_exits (rr_exits1 rr) (call_runtime (CPull img) s)
     in case rr_pull rr of
          Inr _ \<Rightarrow> send_report (PullComplete img) s
        | Inl e \<Rightarrow> send_report (PullFailed img e) s)"


section \<open>The command loop\<close>

definition handle_command :: "ip_addr option \<Rightarrow> node_command \<Rightarrow> replies \<Rightarrow> secondary \<Rightarrow> secondary" where
  "handle_command mesh_ip cmd rr s =
    (case cmd of
       Run alloc_id spec auth \<Rightarrow> snd (run_container rr alloc_id spec mesh_ip s)
     | Stop alloc_id \<Rightarrow> snd (stop_container rr alloc_id s)
     | Pull img auth \<Rightarrow> pull_image rr img s
     | LogTail alloc_id n \<Rightarrow>
         send_report (LogLines alloc_id (case am_log_buffer (sc_allocs s) alloc_id of Some buf \<Rightarrow> lb_tail n buf | None \<Rightarrow> [])) s
     | LogFollow alloc_id \<Rightarrow>
         (let s = s\<lparr> sc_follows := removeAll alloc_id (sc_follows s) \<rparr>
          in if hm_has (sc_allocs s) alloc_id then s\<lparr> sc_follows := alloc_id # sc_follows s \<rparr> else s)
     | LogUnfollow alloc_id \<Rightarrow> s\<lparr> sc_follows := removeAll alloc_id (sc_follows s) \<rparr>)"

text \<open>A line of a running container: into its buffer, and to the primary if it is followed.\<close>

definition container_logs :: "alloc_id \<Rightarrow> log_line \<Rightarrow> secondary \<Rightarrow> secondary" where
  "container_logs alloc_id line s =
    (if hm_has (sc_allocs s) alloc_id then
       let s = s\<lparr> sc_allocs := hm_alter (\<lambda>a. a\<lparr> la_log_buffer := lb_push line (la_log_buffer a) \<rparr>) alloc_id (sc_allocs s) \<rparr>
       in if alloc_id \<in> set (sc_follows s) then send_report (LogLines alloc_id [line]) s else s
     else s)"

text \<open>The steps of a secondary: commands one after another, exits and log lines at any time between.\<close>

inductive sec_step :: "ip_addr option \<Rightarrow> secondary \<Rightarrow> secondary \<Rightarrow> bool" for mesh_ip where
  command: "sec_step mesh_ip s (handle_command mesh_ip cmd rr s)"
| exits: "sec_step mesh_ip s (container_exits x s)"
| logs: "sec_step mesh_ip s (container_logs i line s)"


section \<open>After a restart\<close>

record recovered_container =
  rc_kind :: alloc_kind
  rc_timeout :: "duration option"
  rc_command :: "string list option"
  rc_host_port :: "u16 option"
  rc_cpu :: f64
  rc_memory :: u64
  rc_image :: string
  rc_volumes :: "container_volume list"

definition recovered_spec :: "alloc_id \<Rightarrow> recovered_container \<Rightarrow> container_spec" where
  "recovered_spec alloc_id r = \<lparr>
     cs_alloc_id = alloc_id, cs_kind = rc_kind r, cs_timeout = rc_timeout r, cs_command = rc_command r,
     cs_image = rc_image r, cs_env = [], cs_port = map_option (\<lambda>_. 0) (rc_host_port r), cs_host_port = rc_host_port r,
     cs_cpu = rc_cpu r, cs_memory = rc_memory r, cs_volumes = rc_volumes r \<rparr>"

definition stop_orphans :: "alloc_id list \<Rightarrow> alloc_id list \<Rightarrow> secondary \<Rightarrow> secondary" where
  "stop_orphans expected running s =
    fold (\<lambda>i s. call_runtime (CRemove i) (call_runtime (CStop i) s)) (filter (\<lambda>i. i \<notin> set expected) running) s"

definition rehydrate ::
  "alloc_id list \<Rightarrow> (alloc_id \<Rightarrow> (string, recovered_container) result) \<Rightarrow> ip_addr option \<Rightarrow> alloc_id \<Rightarrow> secondary \<Rightarrow> secondary" where
  "rehydrate running recover_info mesh_ip alloc_id s =
    (if alloc_id \<notin> set running then send_report (RStopped alloc_id (-1)) s
     else case recover_info alloc_id of
            Inl _ \<Rightarrow> s
          | Inr r \<Rightarrow>
             let s = (case rc_host_port r of
                        Some port \<Rightarrow> s\<lparr> sc_ports := fst (allocate_specific alloc_id port (sc_ports s)) \<rparr>
                      | None \<Rightarrow> s);
                 a = \<lparr> la_alloc_id = alloc_id, la_spec = recovered_spec alloc_id r, la_status = Running,
                       la_host_port = rc_host_port r, la_log_buffer = [] \<rparr>
             in case am_insert a (sc_allocs s) of
                  (Inl _, _) \<Rightarrow> s
                | (Inr _, m) \<Rightarrow>
                   send_report (RunStarted alloc_id (rc_host_port r) (mesh_address mesh_ip (rc_host_port r)))
                     (spawn_exit_waiter alloc_id (rc_host_port r) (s\<lparr> sc_allocs := m \<rparr>)))"

definition reconcile ::
  "(string, alloc_id list) result \<Rightarrow> (alloc_id \<Rightarrow> (string, recovered_container) result) \<Rightarrow> alloc_id list \<Rightarrow>
   ip_addr option \<Rightarrow> secondary \<Rightarrow> secondary" where
  "reconcile list_managed recover_info expected mesh_ip s =
    (case list_managed of
       Inl _ \<Rightarrow> s
     | Inr running \<Rightarrow> fold (rehydrate running recover_info mesh_ip) expected (stop_orphans expected running s))"


section \<open>Heartbeats\<close>

definition heartbeat_of :: "node_id \<Rightarrow> node_resources \<Rightarrow> container_stats list \<Rightarrow> allocation_map \<Rightarrow> heartbeat" where
  "heartbeat_of node_id resources stats m = \<lparr>
     hb_node_id = node_id, hb_alloc_statuses = all_statuses m,
     hb_resources = resources\<lparr>
       nr_cpu_available := f64_max (f64_sub (nr_cpu_total resources) (total_reserved_cpu m)) (Fin 0),
       nr_memory_available := sat_sub (nr_memory_total resources) (total_reserved_memory m) \<rparr>,
     hb_stats = stats, hb_volumes = volume_info_of m \<rparr>"


section \<open>Ports and waiters\<close>

lemma take_waiter_Some:
  "take_waiter i ws = Some (p, ws') \<Longrightarrow> \<exists>xs ys. ws = xs @ (i, p) # ys \<and> ws' = xs @ ys"
proof (induction i ws arbitrary: p ws' rule: take_waiter.induct)
  case (2 i j q ws)
  show ?case
  proof (cases "i = j")
    case True
    then show ?thesis using 2(2) by (auto intro: exI [of _ "[]"])
  next
    case False
    then obtain ws2 where "take_waiter i ws = Some (p, ws2)" "ws' = (j, q) # ws2" using 2(2) by auto
    then show ?thesis using 2(1) [OF False] by (metis append_Cons)
  qed
qed simp

text \<open>
  The ports of local allocations are theirs, and every waiter belongs to a local allocation.
\<close>

definition sec_inv :: "secondary \<Rightarrow> bool" where
  "sec_inv s \<longleftrightarrow> pool_inv (sc_ports s) \<and> distinct (map fst (sc_waiters s)) \<and>
    (\<forall>i a p. hm_get (sc_allocs s) i = Some a \<and> la_host_port a = Some p \<longrightarrow> owner_of (sc_ports s) p = Some i) \<and>
    (\<forall>i q. (i, q) \<in> set (sc_waiters s) \<longrightarrow> (\<exists>a. hm_get (sc_allocs s) i = Some a \<and> la_host_port a = q))"

lemma sec_fields [simp]:
  "sc_ports (send_report r s) = sc_ports s" "sc_allocs (send_report r s) = sc_allocs s"
  "sc_waiters (send_report r s) = sc_waiters s" "sc_ports (call_runtime c s) = sc_ports s"
  "sc_allocs (call_runtime c s) = sc_allocs s" "sc_waiters (call_runtime c s) = sc_waiters s"
  "sc_allocs (release_port q s) = sc_allocs s" "sc_waiters (release_port q s) = sc_waiters s"
  by (simp_all add: send_report_def call_runtime_def release_port_def split: option.split)

lemma sec_inv_simps [simp]: "sec_inv (send_report r s) = sec_inv s" "sec_inv (call_runtime c s) = sec_inv s"
  by (simp_all add: sec_inv_def)

lemma release_port_owner:
  "pool_inv (sc_ports s) \<Longrightarrow> owner_of (sc_ports (release_port q s)) =
    (case q of None \<Rightarrow> owner_of (sc_ports s) | Some p \<Rightarrow> (owner_of (sc_ports s))(p := None))"
  "pool_inv (sc_ports s) \<Longrightarrow> pool_inv (sc_ports (release_port q s))"
  by (auto simp: release_port_def ports.free_owner ports.pinv_free split: option.split)

lemma exit_waiter_fields:
  "sc_ports (exit_waiter i q r s) = sc_ports (release_port q s)"
  "hm_get (sc_allocs (exit_waiter i q r s)) j = (if j = i then None else hm_get (sc_allocs s) j)"
  "sc_waiters (exit_waiter i q r s) = sc_waiters s"
  by (auto simp: exit_waiter_def Let_def set_status_def release_port_def send_report_def split: option.split)

text \<open>An exit keeps the invariant, gives up one port and one allocation and takes nothing.\<close>

definition shrinks :: "secondary \<Rightarrow> secondary \<Rightarrow> bool" where
  "shrinks s s' \<longleftrightarrow> sec_inv s' \<and> set (sc_waiters s') \<subseteq> set (sc_waiters s) \<and>
    (\<forall>i. hm_get (sc_allocs s') i = hm_get (sc_allocs s) i \<or> hm_get (sc_allocs s') i = None) \<and>
    (\<forall>p. owner_of (sc_ports s') p = owner_of (sc_ports s) p \<or>
      owner_of (sc_ports s') p = None \<and> (\<exists>j. owner_of (sc_ports s) p = Some j \<and> hm_get (sc_allocs s) j \<noteq> None))"

lemma shrinks_trans: "shrinks s s' \<Longrightarrow> shrinks s' s'' \<Longrightarrow> shrinks s s''"
  unfolding shrinks_def by (clarify, intro conjI) (blast, metis, metis)

lemma container_exits_shrinks:
  assumes "sec_inv s"
  shows "shrinks s (container_exits x s)"
proof (cases "take_waiter (fst x) (sc_waiters s)")
  case None
  then show ?thesis using assms by (simp add: container_exits_def shrinks_def)
next
  case (Some qw)
  obtain i r where x: "x = (i, r)" by force
  obtain q ws where qw: "qw = (q, ws)" by force
  obtain xs ys where ws: "sc_waiters s = xs @ (i, q) # ys" "ws = xs @ ys"
    using take_waiter_Some [of i "sc_waiters s" q ws] Some by (auto simp: x qw)
  let ?s = "exit_waiter i q r (s\<lparr> sc_waiters := ws \<rparr>)"
  have eq: "container_exits x s = ?s" using Some by (simp add: container_exits_def x qw)
  obtain a where a: "hm_get (sc_allocs s) i = Some a" "la_host_port a = q"
    using assms ws(1) unfolding sec_inv_def by (metis in_set_conv_decomp)
  have pi: "pool_inv (sc_ports s)" and own: "\<And>p. q = Some p \<Longrightarrow> owner_of (sc_ports s) p = Some i"
    using assms a unfolding sec_inv_def by auto
  have ports: "sc_ports ?s = sc_ports (release_port q s)"
    by (simp add: exit_waiter_fields release_port_def split: option.split)
  have o: "owner_of (sc_ports ?s) p = (if q = Some p then None else owner_of (sc_ports s) p)" for p
    unfolding ports using release_port_owner(1) [OF pi, of q] by (auto split: option.splits)
  have "sec_inv ?s"
    unfolding sec_inv_def
  proof (intro conjI allI impI)
    show "pool_inv (sc_ports ?s)" unfolding ports by (rule release_port_owner(2) [OF pi])
    show "distinct (map fst (sc_waiters ?s))" using assms ws by (auto simp: exit_waiter_fields sec_inv_def)
  next
    fix j b p
    assume "hm_get (sc_allocs ?s) j = Some b \<and> la_host_port b = Some p"
    then have j: "j \<noteq> i" "owner_of (sc_ports s) p = Some j" using assms by (auto simp: exit_waiter_fields sec_inv_def split: if_splits)
    then show "owner_of (sc_ports ?s) p = Some j" using own unfolding o by auto
  next
    fix j q'
    assume j: "(j, q') \<in> set (sc_waiters ?s)"
    have "i \<notin> fst ` set ws" using assms ws by (auto simp: sec_inv_def)
    then have "j \<noteq> i" using j by (force simp: exit_waiter_fields)
    moreover have "(j, q') \<in> set (sc_waiters s)" using j ws by (auto simp: exit_waiter_fields)
    ultimately show "\<exists>b. hm_get (sc_allocs ?s) j = Some b \<and> la_host_port b = q'"
      using assms by (simp add: exit_waiter_fields sec_inv_def)
  qed
  then show ?thesis unfolding eq shrinks_def o using ws a own by (auto simp: exit_waiter_fields(2,3))
qed

lemma fold_exits_shrinks: "sec_inv s \<Longrightarrow> shrinks s (fold container_exits xs s)"
proof (induction xs arbitrary: s)
  case Nil
  then show ?case by (simp add: shrinks_def)
next
  case (Cons x xs)
  have "shrinks s (container_exits x s)" by (rule container_exits_shrinks [OF Cons.prems])
  moreover from this have "shrinks (container_exits x s) (fold container_exits xs (container_exits x s))"
    using Cons.IH by (simp add: shrinks_def)
  ultimately show ?case using shrinks_trans by simp
qed


lemma shrinks_keeps:
  assumes "shrinks s s'" "hm_get (sc_allocs s) i = None"
  shows "sec_inv s'" "hm_get (sc_allocs s') i = None"
    "owner_of (sc_ports s) p = Some i \<Longrightarrow> owner_of (sc_ports s') p = Some i"
proof -
  show "sec_inv s'" using assms(1) by (simp add: shrinks_def)
  have "hm_get (sc_allocs s') i = hm_get (sc_allocs s) i \<or> hm_get (sc_allocs s') i = None"
    using assms(1) by (simp add: shrinks_def)
  then show "hm_get (sc_allocs s') i = None" using assms(2) by auto
  have "owner_of (sc_ports s') p = owner_of (sc_ports s) p \<or>
      (\<exists>j. owner_of (sc_ports s) p = Some j \<and> hm_get (sc_allocs s) j \<noteq> None)"
    using assms(1) unfolding shrinks_def by (metis (no_types))
  then show "owner_of (sc_ports s) p = Some i \<Longrightarrow> owner_of (sc_ports s') p = Some i" using assms(2) by auto
qed

lemma take_port_cases:
  assumes "sec_inv s" "hm_get (sc_allocs s) i = None" "take_port i spec s = (r, s')"
  shows "sc_allocs s' = sc_allocs s \<and> sc_waiters s' = sc_waiters s \<and> sec_inv s' \<and>
    (\<forall>p. r = Inr (Some p) \<longrightarrow> owner_of (sc_ports s') p = Some i)"
proof (cases "cs_port spec = None")
  case True
  then show ?thesis using assms by (auto simp: take_port_def)
next
  case False
  obtain ports q where al: "allocate i (sc_ports s) = (ports, q)" by force
  show ?thesis
  proof (cases q)
    case None
    then show ?thesis using assms False al by (auto simp: take_port_def)
  next
    case (Some p)
    have pi: "pool_inv (sc_ports s)" using assms(1) by (simp add: sec_inv_def)
    have own: "owner_of (sc_ports s) p = None" "owner_of ports = (owner_of (sc_ports s))(p \<mapsto> i)"
      using ports.alloc_Some [OF pi] al Some by auto
    have "pool_inv ports" using ports.pinv_alloc [OF pi, of i] al by simp
    then have "sec_inv (s\<lparr> sc_ports := ports \<rparr>)" using assms(1) own unfolding sec_inv_def by auto
    then show ?thesis using assms(3) False al Some own by (auto simp: take_port_def)
  qed
qed

lemma start_container_inv:
  assumes "sec_inv s" "hm_get (sc_allocs s) i = None" "\<forall>p. hp = Some p \<longrightarrow> owner_of (sc_ports s) p = Some i"
  shows "sec_inv (snd (start_container rr i spec hp mesh s))"
proof -
  let ?s = "fold container_exits (rr_exits2 rr) (call_runtime (CRun spec) s)"
  have sh: "shrinks (call_runtime (CRun spec) s) ?s" by (rule fold_exits_shrinks) (simp add: assms(1))
  have inv: "sec_inv ?s" and none: "hm_get (sc_allocs ?s) i = None"
    and own: "\<forall>p. hp = Some p \<longrightarrow> owner_of (sc_ports ?s) p = Some i"
    using shrinks_keeps [OF sh, of i] assms(2,3) by auto
  have pi: "pool_inv (sc_ports ?s)" using inv by (simp add: sec_inv_def)
  have "sec_inv (release_port hp ?s)"
    using inv none own release_port_owner [OF pi, of hp] unfolding sec_inv_def by (auto split: option.splits)
  moreover have "sec_inv (spawn_exit_waiter i hp (send_report rep (?s\<lparr> sc_allocs := hm_insert i a (sc_allocs ?s), sc_follows := fs \<rparr>)))"
    if "la_host_port a = hp" for a rep fs
    using inv none own that unfolding sec_inv_def spawn_exit_waiter_def by force
  ultimately show ?thesis using none
    by (auto simp: start_container_def Let_def am_insert_def hm_has_def split: sum.split)
qed

lemma run_container_inv:
  assumes "sec_inv s"
  shows "sec_inv (snd (run_container rr i spec mesh s))"
proof (cases "hm_has (sc_allocs s) i")
  case False
  let ?s = "fold container_exits (rr_exits1 rr) (if rr_cached rr then send_report (StatusUpdate i Pulling) s
      else call_runtime (CPull (cs_image spec)) (send_report (StatusUpdate i Pulling) s))"
  have sh: "shrinks (if rr_cached rr then send_report (StatusUpdate i Pulling) s
      else call_runtime (CPull (cs_image spec)) (send_report (StatusUpdate i Pulling) s)) ?s"
    by (rule fold_exits_shrinks) (simp add: assms)
  have inv: "sec_inv ?s" and none: "hm_get (sc_allocs ?s) i = None"
    using shrinks_keeps(1,2) [OF sh, of i] False by (auto simp: hm_has_def split: if_splits)
  obtain r s' where t: "take_port i spec (send_report (StatusUpdate i Starting) ?s) = (r, s')" by force
  have tp: "sec_inv s'" "hm_get (sc_allocs s') i = None" "\<forall>p. r = Inr (Some p) \<longrightarrow> owner_of (sc_ports s') p = Some i"
    using take_port_cases [OF _ _ t] inv none by auto
  have "sec_inv (snd (start_container rr i (with_port hp spec) hp mesh s'))" if "r = Inr hp" for hp
    by (rule start_container_inv [OF tp(1,2)]) (use tp(3) that in auto)
  then show ?thesis using False t inv tp(1)
    by (auto simp: run_container_def Let_def split: sum.split)
qed (simp add: run_container_def assms)


lemma sec_inv_drop:
  assumes inv: "sec_inv s" and nw: "i \<notin> fst ` set (sc_waiters s)"
    and own: "\<And>p. hp = Some p \<Longrightarrow> owner_of (sc_ports s) p = Some i \<or> owner_of (sc_ports s) p = None"
  shows "sec_inv ((release_port hp s)\<lparr> sc_allocs := hm_remove i (sc_allocs s) \<rparr>)"
proof -
  have pi: "pool_inv (sc_ports s)" using inv by (simp add: sec_inv_def)
  have o: "owner_of (sc_ports (release_port hp s)) p = (if hp = Some p then None else owner_of (sc_ports s) p)" for p
    using release_port_owner(1) [OF pi, of hp] by (auto split: option.splits)
  have "owner_of (sc_ports (release_port hp s)) p = Some j"
    if j: "hm_get (sc_allocs s) j = Some a" "la_host_port a = Some p" "j \<noteq> i" for j a p
  proof -
    have "owner_of (sc_ports s) p = Some j" using inv j by (simp add: sec_inv_def)
    then show ?thesis using own [of p] j(3) by (auto simp: o)
  qed
  moreover have "\<exists>a. j \<noteq> i \<and> hm_get (sc_allocs s) j = Some a \<and> la_host_port a = q" if "(j, q) \<in> set (sc_waiters s)" for j q
    using that nw inv by (force simp: sec_inv_def)
  ultimately show ?thesis using inv release_port_owner(2) [OF pi, of hp] unfolding sec_inv_def by auto
qed

lemma stop_container_inv:
  assumes "sec_inv s" "i \<notin> fst ` set (sc_waiters (snd (stop_container rr i s)))"
  shows "sec_inv (snd (stop_container rr i s))"
proof -
  let ?s1 = "fold container_exits (rr_exits1 rr) (call_runtime (CStop i) s)"
  let ?s = "fold container_exits (rr_exits2 rr) (call_runtime (CRemove i) ?s1)"
  let ?hp = "am_host_port (sc_allocs s) i"
  have sh1: "shrinks (call_runtime (CStop i) s) ?s1" by (rule fold_exits_shrinks) (simp add: assms(1))
  then have "sec_inv ?s1" by (simp add: shrinks_def)
  then have sh2: "shrinks (call_runtime (CRemove i) ?s1) ?s" by (intro fold_exits_shrinks) simp
  then have inv: "sec_inv ?s" by (simp add: shrinks_def)
  have own: "owner_of (sc_ports ?s) p = Some i \<or> owner_of (sc_ports ?s) p = None" if "?hp = Some p" for p
  proof -
    have "owner_of (sc_ports s) p = Some i"
      using that assms(1) by (auto simp: am_host_port_def sec_inv_def bind_eq_Some_conv)
    moreover have "owner_of (sc_ports ?s1) p = owner_of (sc_ports s) p \<or> owner_of (sc_ports ?s1) p = None"
      using sh1 unfolding shrinks_def sec_fields by (metis (no_types))
    moreover have "owner_of (sc_ports ?s) p = owner_of (sc_ports ?s1) p \<or> owner_of (sc_ports ?s) p = None"
      using sh2 unfolding shrinks_def sec_fields by (metis (no_types))
    ultimately show ?thesis by auto
  qed
  have eq: "snd (stop_container rr i s) = send_report (RStopped i (case rr_stop rr of Inr c \<Rightarrow> c | Inl _ \<Rightarrow> -1))
      ((release_port ?hp ?s)\<lparr> sc_allocs := hm_remove i (sc_allocs ?s) \<rparr>)"
    by (simp add: stop_container_def Let_def)
  have "i \<notin> fst ` set (sc_waiters ?s)" using assms(2) unfolding eq by simp
  then show ?thesis unfolding eq sec_inv_simps using sec_inv_drop [OF inv] own by blast
qed

text \<open>A stop is prompt if the waiter of its container has run when it returns.\<close>

definition prompt :: "node_command \<Rightarrow> secondary \<Rightarrow> bool" where
  "prompt cmd s \<longleftrightarrow> (case cmd of Stop i \<Rightarrow> i \<notin> fst ` set (sc_waiters s) | _ \<Rightarrow> True)"

lemma handle_command_inv:
  assumes "sec_inv s" "prompt cmd (handle_command mesh cmd rr s)"
  shows "sec_inv (handle_command mesh cmd rr s)"
proof (cases cmd)
  case (Run i spec auth)
  then show ?thesis using run_container_inv [OF assms(1)] by (simp add: handle_command_def)
next
  case (Stop i)
  then show ?thesis using stop_container_inv [OF assms(1)] assms(2) by (simp add: handle_command_def prompt_def)
next
  case (Pull img auth)
  have "shrinks (call_runtime (CPull img) s) (fold container_exits (rr_exits1 rr) (call_runtime (CPull img) s))"
    by (rule fold_exits_shrinks) (simp add: assms(1))
  then show ?thesis using Pull by (simp add: handle_command_def pull_image_def Let_def shrinks_def split: sum.split)
qed (use assms(1) in \<open>auto simp: handle_command_def Let_def sec_inv_def\<close>)

lemma sec_inv_alt:
  "sec_inv s \<longleftrightarrow> pool_inv (sc_ports s) \<and> distinct (map fst (sc_waiters s)) \<and>
    (\<forall>i p. (\<exists>a. hm_get (sc_allocs s) i = Some a \<and> la_host_port a = Some p) \<longrightarrow> owner_of (sc_ports s) p = Some i) \<and>
    (\<forall>i q. (i, q) \<in> set (sc_waiters s) \<longrightarrow> (\<exists>a. hm_get (sc_allocs s) i = Some a \<and> la_host_port a = q))"
  by (auto simp: sec_inv_def)

lemma container_logs_inv: "sec_inv s \<Longrightarrow> sec_inv (container_logs i line s)"
proof -
  assume inv: "sec_inv s"
  let ?m = "hm_alter (\<lambda>a. a\<lparr> la_log_buffer := lb_push line (la_log_buffer a) \<rparr>) i (sc_allocs s)"
  have "(\<exists>a. hm_get ?m j = Some a \<and> la_host_port a = q) \<longleftrightarrow> (\<exists>a. hm_get (sc_allocs s) j = Some a \<and> la_host_port a = q)" for j q
    by (cases "hm_get (sc_allocs s) i") auto
  then have "sec_inv (s\<lparr> sc_allocs := ?m \<rparr>)" using inv unfolding sec_inv_alt by simp
  then show ?thesis using inv by (simp add: container_logs_def Let_def)
qed

inductive prompt_step :: "ip_addr option \<Rightarrow> secondary \<Rightarrow> secondary \<Rightarrow> bool" for mesh_ip where
  command: "prompt cmd (handle_command mesh_ip cmd rr s) \<Longrightarrow> prompt_step mesh_ip s (handle_command mesh_ip cmd rr s)"
| exits: "prompt_step mesh_ip s (container_exits x s)"
| lines: "prompt_step mesh_ip s (container_logs i line s)"

lemma prompt_step_inv: "prompt_step mesh s s' \<Longrightarrow> sec_inv s \<Longrightarrow> sec_inv s'"
proof (induction rule: prompt_step.induct)
  case (exits s x)
  then show ?case using container_exits_shrinks by (simp add: shrinks_def)
qed (auto intro: handle_command_inv container_logs_inv)

lemma prompt_steps_inv: "(prompt_step mesh)\<^sup>*\<^sup>* s s' \<Longrightarrow> sec_inv s \<Longrightarrow> sec_inv s'"
  by (induction rule: rtranclp_induct) (auto intro: prompt_step_inv)



definition spec1 :: "alloc_id \<Rightarrow> container_spec" where
  "spec1 i = \<lparr> cs_alloc_id = i, cs_kind = KService, cs_timeout = None, cs_command = None, cs_image = ''nginx'',
     cs_env = [], cs_port = Some 80, cs_host_port = None, cs_cpu = Fin 1, cs_memory = 100, cs_volumes = [] \<rparr>"

definition replies1 :: replies where
  "replies1 = \<lparr> rr_cached = True, rr_pull = Inr (), rr_run = Inr (), rr_stop = Inr 0, rr_exits1 = [], rr_exits2 = [] \<rparr>"

definition pool1 :: port_pool where
  "pool1 = \<lparr> pp_start = 50000, pp_end = 50001, pp_available = [50000, 50001], pp_allocated = [] \<rparr>"

definition run1 :: "alloc_id \<Rightarrow> secondary \<Rightarrow> secondary" where
  "run1 i s = handle_command None (Run i (spec1 i) None) replies1 s"

definition local1 :: "alloc_id \<Rightarrow> u16 \<Rightarrow> local_alloc" where
  "local1 i p = \<lparr> la_alloc_id = i, la_spec = with_port (Some p) (spec1 i), la_status = Running, la_host_port = Some p,
     la_log_buffer = [] \<rparr>"

lemma run1_eq:
  assumes "hm_get (sc_allocs s) i = None" "pp_available (sc_ports s) = p # ps"
  shows "sc_ports (run1 i s) = (sc_ports s)\<lparr> pp_available := bs_remove p (p # ps), pp_allocated := hm_insert p i (pp_allocated (sc_ports s)) \<rparr>"
    "sc_allocs (run1 i s) = hm_insert i (local1 i p) (sc_allocs s)"
    "sc_waiters (run1 i s) = sc_waiters s @ [(i, Some p)]"
  using assms
  by (simp_all add: run1_def handle_command_def run_container_def hm_has_def Let_def replies1_def take_port_def
      allocate_def spec1_def start_container_def am_insert_def spawn_exit_waiter_def local1_def)

definition taken1 :: "alloc_id \<Rightarrow> port_pool" where
  "taken1 i = pool1\<lparr> pp_available := [50001], pp_allocated := [(50000, i)] \<rparr>"

lemma run1_pool1:
  assumes "sc_ports s = pool1" "hm_get (sc_allocs s) i = None"
  shows "sc_ports (run1 i s) = taken1 i" "sc_allocs (run1 i s) = hm_insert i (local1 i 50000) (sc_allocs s)"
    "sc_waiters (run1 i s) = sc_waiters s @ [(i, Some 50000)]"
  using run1_eq [OF assms(2), of 50000 "[50001]"] assms(1)
  by (simp_all add: taken1_def pool1_def bs_remove_def)

lemma release_taken1: "release 50000 (taken1 i) = pool1"
  by (simp add: release_def taken1_def pool1_def)

definition stale1 :: secondary where
  "stale1 = run1 ''c'' (container_exits (''a'', Inr 0) (run1 ''b'' (handle_command None (Stop ''a'') replies1 (run1 ''a'' (secondary_new pool1)))))"

lemma stale1_reachable: "(sec_step None)\<^sup>*\<^sup>* (secondary_new pool1) stale1"
proof -
  let ?a = "run1 ''a'' (secondary_new pool1)"
  let ?b = "handle_command None (Stop ''a'') replies1 ?a"
  have "sec_step None (secondary_new pool1) ?a" unfolding run1_def by (rule sec_step.command)
  moreover have "sec_step None ?a ?b" by (rule sec_step.command)
  moreover have "sec_step None ?b (run1 ''b'' ?b)" unfolding run1_def by (rule sec_step.command)
  moreover have "sec_step None (run1 ''b'' ?b) (container_exits (''a'', Inr 0) (run1 ''b'' ?b))" by (rule sec_step.exits)
  moreover have "sec_step None (container_exits (''a'', Inr 0) (run1 ''b'' ?b)) stale1"
    unfolding stale1_def run1_def [of "''c''"] by (rule sec_step.command)
  ultimately show ?thesis by (meson rtranclp.rtrancl_into_rtrancl rtranclp.rtrancl_refl)
qed

lemma stale1_eq: "hm_get (sc_allocs stale1) ''b'' = Some (local1 ''b'' 50000) \<and> hm_get (sc_allocs stale1) ''c'' = Some (local1 ''c'' 50000)"
proof -
  let ?a = "run1 ''a'' (secondary_new pool1)"
  let ?b = "handle_command None (Stop ''a'') replies1 ?a"
  let ?c = "run1 ''b'' ?b"
  let ?d = "container_exits (''a'', Inr 0) ?c"
  have a: "sc_ports ?a = taken1 ''a''" "sc_allocs ?a = [(''a'', local1 ''a'' 50000)]" "sc_waiters ?a = [(''a'', Some 50000)]"
    using run1_pool1 [of "secondary_new pool1" "''a''"] by (simp_all add: secondary_new_def)
  have b: "sc_ports ?b = pool1" "sc_allocs ?b = []" "sc_waiters ?b = [(''a'', Some 50000)]"
    using a release_taken1 by (simp_all add: handle_command_def stop_container_def Let_def replies1_def am_host_port_def local1_def
        release_port_def call_runtime_def send_report_def)
  have c: "sc_ports ?c = taken1 ''b''" "sc_allocs ?c = [(''b'', local1 ''b'' 50000)]"
    "sc_waiters ?c = [(''a'', Some 50000), (''b'', Some 50000)]"
    using run1_pool1 [of ?b "''b''"] b by simp_all
  have d: "sc_ports ?d = pool1" "sc_allocs ?d = [(''b'', local1 ''b'' 50000)]"
    using c release_taken1 by (simp_all add: container_exits_def exit_waiter_def Let_def release_port_def set_status_def
        send_report_def)
  show ?thesis unfolding stale1_def using run1_pool1 [of ?d "''c''"] d by simp
qed

text \<open>
  A late waiter takes the port of a stranger: a stop releases the port of its container
  although the waiter of that container will release it again. If the port is handed out in
  between, the second release frees it under its new owner, and a later start gets the same port.
\<close>

theorem stale_waiter_shares_port:
  "\<exists>s. (sec_step None)\<^sup>*\<^sup>* (secondary_new pool1) s \<and>
    (\<exists>a b p. hm_get (sc_allocs s) ''b'' = Some a \<and> hm_get (sc_allocs s) ''c'' = Some b \<and>
      la_status a = Running \<and> la_status b = Running \<and> la_host_port a = Some p \<and> la_host_port b = Some p)"
  using stale1_reachable stale1_eq by (intro exI [of _ stale1]) (simp add: local1_def)



section \<open>Reports of a start\<close>

lemma last_report [simp]: "last (sc_reports (send_report r s)) = r"
  by (simp add: send_report_def)

lemma take_port_error: "take_port i spec s = (Inl e, s') \<Longrightarrow> e = PortExhaustion \<and> s' = s"
  by (auto simp: take_port_def split: if_splits prod.splits option.splits)

lemma start_container_report:
  assumes "start_container rr i spec hp mesh s = (r, s')"
  shows "case r of Inr _ \<Rightarrow> last (sc_reports s') = RunStarted i hp (mesh_address mesh hp)
    | Inl e \<Rightarrow> e \<noteq> PortExhaustion \<and> (\<exists>m. last (sc_reports s') = RunFailed i m)"
  using assms
  by (auto simp: start_container_def Let_def spawn_exit_waiter_def send_report_def split: sum.splits)

text \<open>
  The last report of a start tells its outcome, with one exception: a container that runs is
  reported with its port and address, and a failed pull or start with its reason, but a node
  without a free port returns the error to itself. The primary last heard that the allocation is
  starting.
\<close>

theorem run_container_reports:
  assumes "\<not> hm_has (sc_allocs s) i" "run_container rr i spec mesh s = (r, s')"
  shows "case r of
      Inr _ \<Rightarrow> (\<exists>port. last (sc_reports s') = RunStarted i port (mesh_address mesh port))
    | Inl e \<Rightarrow> if e = PortExhaustion then last (sc_reports s') = StatusUpdate i Starting
               else (\<exists>m. last (sc_reports s') = RunFailed i m)"
proof -
  let ?s = "fold container_exits (rr_exits1 rr) (if rr_cached rr then send_report (StatusUpdate i Pulling) s
      else call_runtime (CPull (cs_image spec)) (send_report (StatusUpdate i Pulling) s))"
  obtain rp s1 where t: "take_port i spec (send_report (StatusUpdate i Starting) ?s) = (rp, s1)" by force
  show ?thesis
  proof (cases "if rr_cached rr then Inr () else rr_pull rr")
    case (Inl e)
    then show ?thesis using assms by (auto simp: run_container_def Let_def)
  next
    case (Inr u)
    then have eq: "run_container rr i spec mesh s = (case rp of Inl e \<Rightarrow> (Inl e, s1)
        | Inr hp \<Rightarrow> start_container rr i (with_port hp spec) hp mesh s1)"
      using assms(1) t by (simp add: run_container_def Let_def split: sum.split)
    show ?thesis
    proof (cases rp)
      case Inl1: (Inl e)
      then show ?thesis using take_port_error [OF t [unfolded Inl1]] assms(2) eq by auto
    next
      case Inr1: (Inr hp)
      then show ?thesis using start_container_report [of rr i "with_port hp spec" hp mesh s1 r s'] assms(2) eq
        by (auto split: sum.splits)
    qed
  qed
qed

theorem run_container_reports_witness:
  "last (sc_reports (snd (run_container replies1 ''a'' (spec1 ''a'') None
     (secondary_new (pool1\<lparr> pp_available := [] \<rparr>))))) = StatusUpdate ''a'' Starting"
proof -
  let ?s = "secondary_new (pool1\<lparr> pp_available := [] \<rparr>)"
  have h: "\<not> hm_has (sc_allocs ?s) ''a''" by (simp add: secondary_new_def hm_has_def)
  have r: "run_container replies1 ''a'' (spec1 ''a'') None ?s = (Inl PortExhaustion, snd (run_container replies1 ''a'' (spec1 ''a'') None ?s))"
    by (simp add: run_container_def hm_has_def Let_def replies1_def take_port_def allocate_def spec1_def secondary_new_def
        pool1_def send_report_def)
  show ?thesis using run_container_reports [OF h r] by simp
qed


section \<open>Log buffers\<close>

lemma lb_push_length: "length buf \<le> max_lines \<Longrightarrow> length (lb_push line buf) \<le> max_lines"
  by (simp add: lb_push_def max_lines_def)

lemma lb_push_all: "fold lb_push lines [] = drop (length lines - max_lines) lines"
proof (induction lines rule: rev_induct)
  case (snoc l ls)
  show ?case
  proof (cases "max_lines \<le> length ls")
    case True
    have pos: "0 < max_lines" by (simp add: max_lines_def)
    from True have "length (drop (length ls - max_lines) ls) = max_lines" by simp
    then show ?thesis using True snoc pos by (simp add: lb_push_def Suc_diff_le)
  next
    case False
    then show ?thesis using snoc by (simp add: lb_push_def)
  qed
qed simp

lemma lb_tail_eq: "lb_tail n buf = drop (length buf - n) buf"
  by (simp add: lb_tail_def rev_take)

text \<open>The tail of a buffer is the tail of all lines ever pushed, up to the capacity.\<close>

lemma lb_tail_all: "lb_tail n (fold lb_push lines []) = drop (length lines - min n max_lines) lines"
  by (cases "length lines \<le> max_lines") (auto simp: lb_push_all lb_tail_eq min_def)


section \<open>What a restart recovers\<close>

definition recovered_alloc :: "alloc_id \<Rightarrow> recovered_container \<Rightarrow> local_alloc" where
  "recovered_alloc i r = \<lparr> la_alloc_id = i, la_spec = recovered_spec i r, la_status = Running,
     la_host_port = rc_host_port r, la_log_buffer = [] \<rparr>"

definition recovery_report ::
  "alloc_id list \<Rightarrow> (alloc_id \<Rightarrow> (string, recovered_container) result) \<Rightarrow> ip_addr option \<Rightarrow> alloc_id \<Rightarrow> node_report list" where
  "recovery_report running recover_info mesh i =
    (if i \<notin> set running then [RStopped i (-1)]
     else case recover_info i of
            Inl _ \<Rightarrow> []
          | Inr r \<Rightarrow> [RunStarted i (rc_host_port r) (mesh_address mesh (rc_host_port r))])"

definition recoverable :: "alloc_id list \<Rightarrow> (alloc_id \<Rightarrow> (string, recovered_container) result) \<Rightarrow> alloc_id \<Rightarrow> local_alloc option" where
  "recoverable running recover_info i =
    (if i \<in> set running then case recover_info i of Inr r \<Rightarrow> Some (recovered_alloc i r) | Inl _ \<Rightarrow> None else None)"

lemma stop_orphans_fields:
  "sc_calls (stop_orphans expected running s) =
     sc_calls s @ concat (map (\<lambda>i. [CStop i, CRemove i]) (filter (\<lambda>i. i \<notin> set expected) running))"
  "sc_allocs (stop_orphans expected running s) = sc_allocs s"
  "sc_reports (stop_orphans expected running s) = sc_reports s"
  "sc_waiters (stop_orphans expected running s) = sc_waiters s"
  "sc_ports (stop_orphans expected running s) = sc_ports s"
  unfolding stop_orphans_def by (induction running arbitrary: s) (simp_all add: call_runtime_def)

lemma rehydrate_fields:
  assumes "hm_get (sc_allocs s) i = None"
  shows "sc_calls (rehydrate running rec mesh i s) = sc_calls s"
    "sc_reports (rehydrate running rec mesh i s) = sc_reports s @ recovery_report running rec mesh i"
    "hm_get (sc_allocs (rehydrate running rec mesh i s)) = (hm_get (sc_allocs s))(i := recoverable running rec i)"
    "sc_waiters (rehydrate running rec mesh i s) =
      sc_waiters s @ (case recoverable running rec i of None \<Rightarrow> [] | Some a \<Rightarrow> [(i, la_host_port a)])"
  using assms
  by (auto simp: rehydrate_def recovery_report_def recoverable_def recovered_alloc_def Let_def am_insert_def hm_has_def
      send_report_def spawn_exit_waiter_def fun_eq_iff split: sum.splits option.splits)

lemma rehydrate_all:
  assumes "distinct expected" "\<forall>i\<in>set expected. hm_get (sc_allocs s) i = None"
  shows "sc_calls (fold (rehydrate running rec mesh) expected s) = sc_calls s
    \<and> sc_reports (fold (rehydrate running rec mesh) expected s) =
        sc_reports s @ concat (map (recovery_report running rec mesh) expected)
    \<and> (\<forall>i. hm_get (sc_allocs (fold (rehydrate running rec mesh) expected s)) i =
        (if i \<in> set expected then recoverable running rec i else hm_get (sc_allocs s) i))"
  using assms
proof (induction expected arbitrary: s)
  case (Cons j js)
  have n: "hm_get (sc_allocs s) j = None" using Cons.prems by simp
  have "\<forall>i\<in>set js. hm_get (sc_allocs (rehydrate running rec mesh j s)) i = None"
    using Cons.prems by (auto simp: rehydrate_fields [OF n])
  from Cons.IH [OF _ this] Cons.prems(1) show ?case by (simp add: rehydrate_fields [OF n])
qed simp

text \<open>
  (C30) A secondary that comes back stops and removes exactly the containers nobody expects, in
  their order. Its map then has exactly the expected containers that run and could be read, and it
  sent one report per expected allocation: its port and address if it was recovered, a stop if it
  does not run, and nothing if its container runs but could not be read.
\<close>

theorem reconcile_spec:
  assumes "distinct expected"
  shows "sc_calls (reconcile (Inr running) rec expected mesh (secondary_new pool)) =
      concat (map (\<lambda>i. [CStop i, CRemove i]) (filter (\<lambda>i. i \<notin> set expected) running))
    \<and> hm_get (sc_allocs (reconcile (Inr running) rec expected mesh (secondary_new pool))) =
      (\<lambda>i. if i \<in> set expected then recoverable running rec i else None)
    \<and> sc_reports (reconcile (Inr running) rec expected mesh (secondary_new pool)) =
      concat (map (recovery_report running rec mesh) expected)"
proof -
  let ?s = "stop_orphans expected running (secondary_new pool)"
  have "\<forall>i\<in>set expected. hm_get (sc_allocs ?s) i = None" by (simp add: stop_orphans_fields secondary_new_def)
  from rehydrate_all [OF assms this, of running rec mesh] show ?thesis
    by (simp add: reconcile_def stop_orphans_fields secondary_new_def fun_eq_iff)
qed

theorem reconcile_spec_witness:
  "sc_calls (reconcile (Inr [''x'', ''y'']) (\<lambda>_. Inl ''gone'') [''y''] None (secondary_new pool1)) = [CStop ''x'', CRemove ''x'']
   \<and> sc_reports (reconcile (Inr [''x'', ''y'']) (\<lambda>_. Inl ''gone'') [''y''] None (secondary_new pool1)) = []"
  using reconcile_spec [of "[''y'']" "[''x'', ''y'']" "\<lambda>_. Inl ''gone''" None pool1]
  by (simp add: recovery_report_def)

end
