(* ===== verification/Routing.thy ===== *)
theory Routing
  imports Report
begin

text \<open>
  How traffic finds containers. The DNS records and the routes that the primary computes from the
  state (\<^verbatim>\<open>crates/node/src/primary/dns.rs\<close>, \<^verbatim>\<open>proxy.rs\<close>), the DNS handler
  (\<^verbatim>\<open>crates/net/src/dns\<close>), the route table and the request handlers of the proxy
  (\<^verbatim>\<open>crates/proxy/src/proxy\<close>) and the watcher that gets certificates
  (\<^verbatim>\<open>crates/proxy/src/lib.rs\<close>). DNS messages and HTTP requests are the records of what the
  code reads and writes of them; the network, the certificate authority and the conversion of
  certificates are parameters.
\<close>

definition hm_push :: "'k \<Rightarrow> 'v \<Rightarrow> ('k, 'v list) hash_map \<Rightarrow> ('k, 'v list) hash_map" where
  "hm_push k v m = hm_insert k ((case hm_get m k of Some vs \<Rightarrow> vs | None \<Rightarrow> []) @ [v]) m"


section \<open>DNS records\<close>

definition compute_dns_records :: "fsm_state \<Rightarrow> dns_record list" where
  "compute_dns_records s =
    map (\<lambda>(name, addresses). \<lparr> dr_name = name, dr_addresses = addresses \<rparr>)
     (fold (\<lambda>a groups.
        if \<not> is_active (al_status a) then groups
        else case al_address a of None \<Rightarrow> groups | Some addr \<Rightarrow> hm_push (al_name a) addr groups)
      (hm_values (f_allocs s)) [])"

type_synonym dns_table = "(string, ip_addr list) hash_map"

text \<open>\<^verbatim>\<open>set_records\<close> clears the table first.\<close>

definition set_records :: "dns_record list \<Rightarrow> dns_table" where
  "set_records dns_records =
    fold (\<lambda>r m. hm_insert (dr_name r) (map sa_ip (dr_addresses r)) m) dns_records []"


section \<open>DNS queries\<close>

datatype response_code = NoError | FormErr | NXDomain | ServFail

record dns_query =
  dq_name :: string
  dq_is_a :: bool

record dns_message =
  dm_id :: u16
  dm_recursion_desired :: bool
  dm_queries :: "dns_query list"

record dns_answer =
  da_name :: string
  da_ttl :: u32
  da_ipv4 :: "32 word"

record dns_response =
  dp_id :: u16
  dp_recursion_desired :: bool
  dp_recursion_available :: bool
  dp_queries :: "dns_query list"
  dp_code :: response_code
  dp_answers :: "dns_answer list"

datatype query_result = Response dns_response | Forward

definition response_from :: "dns_message \<Rightarrow> dns_response" where
  "response_from query = \<lparr> dp_id = dm_id query, dp_recursion_desired = dm_recursion_desired query,
     dp_recursion_available = True, dp_queries = dm_queries query, dp_code = NoError, dp_answers = [] \<rparr>"

text \<open>Removes the pattern from the end as often as it is there.\<close>

function trim_end_matches :: "string \<Rightarrow> string \<Rightarrow> string" where
  "trim_end_matches pat s =
    (if pat = [] then s
     else case strip_suffix s pat of None \<Rightarrow> s | Some t \<Rightarrow> trim_end_matches pat t)"
  by pat_completeness auto
termination
  by (relation "measure (\<lambda>(_, s). length s)") (auto simp: strip_suffix_eq_Some)

definition mill_suffix :: string where "mill_suffix = ''.mill.''"

definition handle_query :: "(string \<Rightarrow> bool) \<Rightarrow> dns_message \<Rightarrow> dns_table \<Rightarrow> query_result" where
  "handle_query name_ok msg records =
    (case dm_queries msg of
       [] \<Rightarrow> Response ((response_from msg)\<lparr> dp_code := FormErr \<rparr>)
     | query # _ \<Rightarrow>
        let name = dq_name query
        in if \<not> ends_with name mill_suffix then Forward
           else
             let resp = response_from msg
             in if \<not> dq_is_a query then Response (resp\<lparr> dp_code := NoError \<rparr>)
                else case hm_get records (trim_end_matches mill_suffix name) of
                       None \<Rightarrow> Response (resp\<lparr> dp_code := NXDomain \<rparr>)
                     | Some addrs \<Rightarrow>
                        Response (resp\<lparr> dp_code := NoError,
                          dp_answers := List.map_filter (\<lambda>addr. case addr of
                              V4 ipv4 \<Rightarrow> if name_ok name then Some \<lparr> da_name = name, da_ttl = 5, da_ipv4 = ipv4 \<rparr> else None
                            | V6 _ \<Rightarrow> None) addrs \<rparr>))"

text \<open>One datagram of the serving loop: \<open>decode\<close>, \<open>encode\<close> and the upstream resolver are outside.\<close>

definition serve_query ::
  "(bytes \<Rightarrow> (string, dns_message) result) \<Rightarrow> (dns_response \<Rightarrow> (string, bytes) result) \<Rightarrow>
   (bytes \<Rightarrow> (string, bytes) result) \<Rightarrow> (string \<Rightarrow> bool) \<Rightarrow> dns_table \<Rightarrow> bytes \<Rightarrow> bytes option" where
  "serve_query decode encode forward name_ok records query_bytes =
    (case decode query_bytes of
       Inl _ \<Rightarrow> None
     | Inr msg \<Rightarrow>
        (case handle_query name_ok msg records of
           Response resp \<Rightarrow> (case encode resp of Inr bytes \<Rightarrow> Some bytes | Inl _ \<Rightarrow> None)
         | Forward \<Rightarrow>
            (case forward query_bytes of
               Inr bytes \<Rightarrow> Some bytes
             | Inl _ \<Rightarrow>
                (case encode ((response_from msg)\<lparr> dp_code := ServFail \<rparr>) of Inr bytes \<Rightarrow> Some bytes | Inl _ \<Rightarrow> None))))"

definition fallback_nameserver :: socket_addr where
  "fallback_nameserver = \<lparr> sa_ip = V4 0x08080808, sa_port = 53 \<rparr>"

definition read_upstream_nameserver :: "(string \<Rightarrow> ip_addr option) \<Rightarrow> string option \<Rightarrow> socket_addr" where
  "read_upstream_nameserver parse_ip resolv_conf =
    (case resolv_conf of
       None \<Rightarrow> fallback_nameserver
     | Some contents \<Rightarrow>
        (case List.map_filter (\<lambda>line. Option.bind (strip_prefix (str_trim line) ''nameserver'') (\<lambda>rest. parse_ip (str_trim rest)))
            (str_lines contents) of
           [] \<Rightarrow> fallback_nameserver
         | ip # _ \<Rightarrow> \<lparr> sa_ip = ip, sa_port = 53 \<rparr>))"


section \<open>Routes\<close>

definition route_addrs :: "fsm_state \<Rightarrow> string \<Rightarrow> socket_addr list" where
  "route_addrs s name =
    List.map_filter al_address
     (filter (\<lambda>a. al_name a = name \<and> is_active (al_status a) \<and> al_address a \<noteq> None) (hm_values (f_allocs s)))"

definition compute_proxy_routes :: "fsm_state \<Rightarrow> proxy_route list" where
  "compute_proxy_routes s =
    (case f_config s of
       None \<Rightarrow> []
     | Some config \<Rightarrow>
        concat (map (\<lambda>(name, d).
          if s_routes d = [] then []
          else concat (map (\<lambda>route_def. map (\<lambda>backend.
                 \<lparr> pr_hostname = rd_hostname route_def, pr_path = rd_path route_def, pr_backend = backend,
                   pr_websocket = rd_websocket route_def \<rparr>) (route_addrs s name)) (s_routes d)))
         (c_services config)))"

record route_entry =
  re_path :: string
  re_backend :: socket_addr
  re_websocket :: bool

type_synonym route_table = "(string, route_entry list) hash_map"

definition route_table_new :: "proxy_route list \<Rightarrow> route_table" where
  "route_table_new proxy_routes =
    map (\<lambda>(hostname, entries). (hostname, sort_key (\<lambda>e. - int (length (re_path e))) entries))
     (fold (\<lambda>r. hm_push (pr_hostname r) \<lparr> re_path = pr_path r, re_backend = pr_backend r, re_websocket = pr_websocket r \<rparr>)
       proxy_routes [])"

definition lookup_route :: "route_table \<Rightarrow> string \<Rightarrow> string \<Rightarrow> route_entry option" where
  "lookup_route table hostname path =
    (case hm_get table hostname of
       None \<Rightarrow> None
     | Some entries \<Rightarrow> List.find (\<lambda>entry. starts_with path (re_path entry)) entries)"

definition hostnames :: "route_table \<Rightarrow> string list" where
  "hostnames table = hm_keys table"


section \<open>Metrics of the proxy\<close>

definition bucket_bounds :: "f64 list" where
  "bucket_bounds = map (\<lambda>q. f64_round q) [5/1000, 1/100, 25/1000, 5/100, 1/10, 25/100, 5/10, 1, 25/10, 5, 10] @ [PInf]"

record route_counters =
  rk_request_count :: u64
  rk_latency_sum_us :: u64
  rk_buckets :: "u64 list"

type_synonym proxy_metrics = "(string \<times> string, route_counters) hash_map"

definition route_counters_new :: route_counters where
  "route_counters_new = \<lparr> rk_request_count = 0, rk_latency_sum_us = 0, rk_buckets = replicate 12 0 \<rparr>"

definition proxy_metrics_record :: "string \<Rightarrow> string \<Rightarrow> duration \<Rightarrow> proxy_metrics \<Rightarrow> proxy_metrics" where
  "proxy_metrics_record hostname path latency m =
    (let counters = (case hm_get m (hostname, path) of Some c \<Rightarrow> c | None \<Rightarrow> route_counters_new)
     in hm_insert (hostname, path) \<lparr> rk_request_count = rk_request_count counters + 1,
          rk_latency_sum_us = rk_latency_sum_us counters + word_of_nat (latency div 1000),
          rk_buckets = bump_first (as_secs_f64 latency) bucket_bounds (rk_buckets counters) \<rparr> m)"

record route_metrics_snapshot =
  rm_hostname :: string
  rm_path :: string
  rm_request_count :: u64
  rm_latency_sum_seconds :: f64
  rm_buckets :: "(f64 \<times> u64) list"

definition proxy_metrics_snapshot :: "proxy_metrics \<Rightarrow> route_metrics_snapshot list" where
  "proxy_metrics_snapshot m =
    map (\<lambda>((hostname, path), counters).
      \<lparr> rm_hostname = hostname, rm_path = path, rm_request_count = rk_request_count counters,
        rm_latency_sum_seconds = f64_div (f64_of_u64 (rk_latency_sum_us counters)) (Fin 1000000),
        rm_buckets = cumulate 0 bucket_bounds (rk_buckets counters) \<rparr>) m"


section \<open>Requests\<close>

text \<open>
  A request as the handlers read it. Headers are the pairs of a lower-case name and a value; reading
  a name gives its first value, and \<open>to_str\<close>, which is outside, may refuse it.
\<close>

record http_request =
  hr_get :: bool
  hr_path :: string
  hr_path_and_query :: "string option"
  hr_uri_host :: "string option"
  hr_uri :: string
  hr_headers :: "(string \<times> string) list"

definition header_get :: "(string \<Rightarrow> string option) \<Rightarrow> http_request \<Rightarrow> string \<Rightarrow> string option" where
  "header_get to_str req name = Option.bind (map_of (hr_headers req) name) to_str"

definition header_insert :: "string \<Rightarrow> string \<Rightarrow> http_request \<Rightarrow> http_request" where
  "header_insert name v req = req\<lparr> hr_headers := (name, v) # filter (\<lambda>(n, _). n \<noteq> name) (hr_headers req) \<rparr>"

definition header_remove :: "string \<Rightarrow> http_request \<Rightarrow> http_request" where
  "header_remove name req = req\<lparr> hr_headers := filter (\<lambda>(n, _). n \<noteq> name) (hr_headers req) \<rparr>"

definition extract_host :: "(string \<Rightarrow> string option) \<Rightarrow> http_request \<Rightarrow> string option" where
  "extract_host to_str req =
    (case header_get to_str req ''host'' of
       Some host \<Rightarrow>
         (let hostname = hd (split_char CHR '':'' host)
          in if hostname \<noteq> [] then Some hostname else hr_uri_host req)
     | None \<Rightarrow> hr_uri_host req)"

definition is_upgrade_request :: "(string \<Rightarrow> string option) \<Rightarrow> http_request \<Rightarrow> bool" where
  "is_upgrade_request to_str req =
    (case header_get to_str req ''upgrade'' of
       Some v \<Rightarrow> map ascii_lower v = map ascii_lower ''websocket''
     | None \<Rightarrow> False)"

definition hop_by_hop :: "string list" where
  "hop_by_hop = [''connection'', ''keep-alive'', ''proxy-authenticate'', ''proxy-authorization'', ''te'', ''trailers'',
     ''transfer-encoding'', ''upgrade'']"

definition set_header :: "(string \<Rightarrow> bool) \<Rightarrow> string \<Rightarrow> string \<Rightarrow> http_request \<Rightarrow> http_request" where
  "set_header value_ok name v req = (if value_ok v then header_insert name v req else req)"

text \<open>The request that goes to the backend, or the error of its URI.\<close>

definition rewrite_request ::
  "(string \<Rightarrow> string option) \<Rightarrow> (string \<Rightarrow> bool) \<Rightarrow> (string \<Rightarrow> bool) \<Rightarrow> socket_addr \<Rightarrow> ip_addr \<Rightarrow> bool \<Rightarrow> http_request \<Rightarrow>
   http_request option" where
  "rewrite_request to_str value_ok uri_ok backend client_addr is_tls req =
    (let path_and_query = (case hr_path_and_query req of Some pq \<Rightarrow> pq | None \<Rightarrow> ''/'');
         uri = ''http://'' @ show_socket_addr backend @ path_and_query
     in if \<not> uri_ok uri then None
        else
          let req = req\<lparr> hr_uri := uri \<rparr>;
              forwarded_host = header_get to_str req ''host'';
              client_ip = show_ip client_addr;
              xff_value = (case header_get to_str req ''x-forwarded-for'' of
                             Some existing \<Rightarrow> existing @ '', '' @ client_ip
                           | None \<Rightarrow> client_ip);
              req = set_header value_ok ''x-forwarded-for'' xff_value req;
              req = set_header value_ok ''x-real-ip'' client_ip req;
              req = set_header value_ok ''x-forwarded-proto'' (if is_tls then ''https'' else ''http'') req;
              req = (case forwarded_host of Some host \<Rightarrow> set_header value_ok ''x-forwarded-host'' host req | None \<Rightarrow> req)
          in Some (fold header_remove hop_by_hop req))"

datatype 'r http_response =
    Simple nat string
  | Redirect string
  | Upgraded 'r
  | Proxied http_request 'r

definition text_line :: "string \<Rightarrow> string" where "text_line s = s @ [CHR 0x0A]"

text \<open>
  The backends: \<open>send\<close> answers a forwarded request, \<open>upgrade\<close> the handshake of a web socket.
  \<open>bk_elapsed\<close> is the time the backend takes.
\<close>

record 'r backends =
  bk_to_str :: "string \<Rightarrow> string option"
  bk_value_ok :: "string \<Rightarrow> bool"
  bk_uri_ok :: "string \<Rightarrow> bool"
  bk_send :: "socket_addr \<Rightarrow> http_request \<Rightarrow> (string, 'r) result"
  bk_upgrade :: "socket_addr \<Rightarrow> http_request \<Rightarrow> (string, 'r) result"
  bk_elapsed :: duration

text \<open>A location that is no header value gives an empty response.\<close>

definition https_redirect :: "(string \<Rightarrow> bool) \<Rightarrow> string \<Rightarrow> string \<Rightarrow> 'r http_response" where
  "https_redirect value_ok host path =
    (let location = ''https://'' @ host @ path in if value_ok location then Redirect location else Simple 200 [])"

text \<open>The errors of a forwarded request are only logged.\<close>

definition forward_request ::
  "'r backends \<Rightarrow> http_request \<Rightarrow> socket_addr \<Rightarrow> ip_addr \<Rightarrow> bool \<Rightarrow> (http_request \<times> 'r) option" where
  "forward_request bk req backend client_addr is_tls =
    (case rewrite_request (bk_to_str bk) (bk_value_ok bk) (bk_uri_ok bk) backend client_addr is_tls req of
       None \<Rightarrow> None
     | Some req' \<Rightarrow> (case bk_send bk backend req' of Inr resp \<Rightarrow> Some (req', resp) | Inl _ \<Rightarrow> None))"

definition proxy_to_backend ::
  "'r backends \<Rightarrow> http_request \<Rightarrow> string \<Rightarrow> route_table \<Rightarrow> ip_addr \<Rightarrow> bool \<Rightarrow> proxy_metrics \<Rightarrow>
   'r http_response \<times> proxy_metrics" where
  "proxy_to_backend bk req hostname route_table client_addr is_tls metrics =
    (case lookup_route route_table hostname (hr_path req) of
       None \<Rightarrow> (Simple 404 (text_line ''not found''), metrics)
     | Some m \<Rightarrow>
        (let metrics = proxy_metrics_record hostname (re_path m) (bk_elapsed bk) metrics
         in if re_websocket m \<and> is_upgrade_request (bk_to_str bk) req then
              (case bk_upgrade bk (re_backend m) req of
                 Inr resp \<Rightarrow> (Upgraded resp, metrics)
               | Inl _ \<Rightarrow> (Simple 502 (text_line ''websocket upgrade failed''), metrics))
            else
              (case forward_request bk req (re_backend m) client_addr is_tls of
                 Some (req', resp) \<Rightarrow> (Proxied req' resp, metrics)
               | None \<Rightarrow> (Simple 502 (text_line ''backend unavailable''), metrics))))"

definition handle_https_request ::
  "'r backends \<Rightarrow> http_request \<Rightarrow> ip_addr \<Rightarrow> route_table \<Rightarrow> proxy_metrics \<Rightarrow>
   'r http_response \<times> proxy_metrics" where
  "handle_https_request bk req client_addr routes metrics =
    (case extract_host (bk_to_str bk) req of
       None \<Rightarrow> (Simple 400 (text_line ''missing host header''), metrics)
     | Some hostname \<Rightarrow> proxy_to_backend bk req hostname routes client_addr True metrics)"

definition handle_http_request ::
  "'r backends \<Rightarrow> http_request \<Rightarrow> ip_addr \<Rightarrow> route_table \<Rightarrow> (string, 'c) hash_map \<Rightarrow> (string, string) hash_map \<Rightarrow>
   proxy_metrics \<Rightarrow> 'r http_response \<times> proxy_metrics" where
  "handle_http_request bk req client_addr routes cert_cache challenge_store metrics =
    (case Option.bind (strip_prefix (hr_path req) ''/.well-known/acme-challenge/'') (hm_get challenge_store) of
       Some key_auth \<Rightarrow> (Simple 200 key_auth, metrics)
     | None \<Rightarrow>
        if hr_path req = ''/healthz'' \<and> hr_get req then (Simple 200 (text_line ''ok''), metrics)
        else
          (case extract_host (bk_to_str bk) req of
             None \<Rightarrow> (Simple 400 (text_line ''missing host header''), metrics)
           | Some hostname \<Rightarrow>
              if hm_has cert_cache hostname then
                (https_redirect (bk_value_ok bk) hostname (case hr_path_and_query req of Some pq \<Rightarrow> pq | None \<Rightarrow> ''/''), metrics)
              else proxy_to_backend bk req hostname routes client_addr False metrics))"


section \<open>Certificates\<close>

text \<open>
  The store of certificates, the authority and the generator as the watcher meets them. A saved pair
  is in the store afterwards unless saving fails.
\<close>

record ('p, 'k) cert_env =
  ce_load_fails :: "string \<Rightarrow> bool"
  ce_save_fails :: "string \<Rightarrow> bool"
  ce_to_key :: "'p \<Rightarrow> 'k option"
  ce_acme :: "(string \<Rightarrow> 'p option) option"
  ce_self_signed :: "string \<Rightarrow> 'p option"

record ('p, 'k) certs =
  ct_cache :: "(string, 'k) hash_map"
  ct_store :: "(string, 'p) hash_map"

definition cert_save :: "('p, 'k) cert_env \<Rightarrow> string \<Rightarrow> 'p \<Rightarrow> ('p, 'k) certs \<Rightarrow> ('p, 'k) certs" where
  "cert_save ce hostname pair c = (if ce_save_fails ce hostname then c else c\<lparr> ct_store := hm_insert hostname pair (ct_store c) \<rparr>)"

definition cert_install :: "string \<Rightarrow> 'k \<Rightarrow> ('p, 'k) certs \<Rightarrow> ('p, 'k) certs" where
  "cert_install hostname ck c = c\<lparr> ct_cache := hm_insert hostname ck (ct_cache c) \<rparr>"

definition self_signed_cert :: "('p, 'k) cert_env \<Rightarrow> string \<Rightarrow> ('p, 'k) certs \<Rightarrow> ('p, 'k) certs" where
  "self_signed_cert ce hostname c =
    (case ce_self_signed ce hostname of
       None \<Rightarrow> c
     | Some pair \<Rightarrow>
        (let c = cert_save ce hostname pair c
         in case ce_to_key ce pair of Some ck \<Rightarrow> cert_install hostname ck c | None \<Rightarrow> c))"

definition acquire_cert :: "('p, 'k) cert_env \<Rightarrow> string \<Rightarrow> ('p, 'k) certs \<Rightarrow> ('p, 'k) certs" where
  "acquire_cert ce hostname c =
    (case Option.bind (ce_acme ce) (\<lambda>acquire. acquire hostname) of
       None \<Rightarrow> self_signed_cert ce hostname c
     | Some pair \<Rightarrow>
        (let c = cert_save ce hostname pair c
         in case ce_to_key ce pair of Some ck \<Rightarrow> cert_install hostname ck c | None \<Rightarrow> self_signed_cert ce hostname c))"

definition ensure_cert :: "('p, 'k) cert_env \<Rightarrow> string \<Rightarrow> ('p, 'k) certs \<Rightarrow> ('p, 'k) certs" where
  "ensure_cert ce hostname c =
    (if hm_has (ct_cache c) hostname then c
     else case (if ce_load_fails ce hostname then None else Option.bind (hm_get (ct_store c) hostname) (ce_to_key ce)) of
            Some ck \<Rightarrow> cert_install hostname ck c
          | None \<Rightarrow> acquire_cert ce hostname c)"

definition watch_certs :: "('p, 'k) cert_env \<Rightarrow> route_table \<Rightarrow> ('p, 'k) certs \<Rightarrow> ('p, 'k) certs" where
  "watch_certs ce table c = fold (ensure_cert ce) (hostnames table) c"

text \<open>\<open>infos\<close> lists the hostnames of the store with the expiry of their certificates.\<close>

definition renewal_window :: duration where "renewal_window = 30 * 24 * 60 * 60 * 1000000000"

definition check_and_renew ::
  "('p, 'k) cert_env \<Rightarrow> (string \<Rightarrow> 'p option) \<Rightarrow> (string, (string \<times> time) list) result \<Rightarrow> time \<Rightarrow> ('p, 'k) certs \<Rightarrow> ('p, 'k) certs" where
  "check_and_renew ce acquire infos now c =
    (case infos of
       Inl _ \<Rightarrow> c
     | Inr infos \<Rightarrow>
        fold (\<lambda>(hostname, expires) c.
          if now + renewal_window < expires then c
          else case acquire hostname of
                 None \<Rightarrow> c
               | Some pair \<Rightarrow>
                  if ce_save_fails ce hostname then c
                  else let c = cert_save ce hostname pair c
                       in case ce_to_key ce pair of Some ck \<Rightarrow> cert_install hostname ck c | None \<Rightarrow> c) infos c)"


section \<open>Names resolve to the active allocations\<close>

lemma hm_push_get: "hm_get (hm_push k v m) j = (if j = k then Some ((case hm_get m k of Some vs \<Rightarrow> vs | None \<Rightarrow> []) @ [v]) else hm_get m j)"
  by (simp add: hm_push_def)

lemma hm_push_wf: "hm_wf m \<Longrightarrow> hm_wf (hm_push k v m)"
  unfolding hm_push_def by (rule hm_wf_insert)

text \<open>A fold that pushes is the grouping of the values by their keys.\<close>

definition grouped :: "('k \<times> 'v) list \<Rightarrow> 'k \<Rightarrow> 'v list option" where
  "grouped xs k = (let vs = map snd (filter (\<lambda>(j, _). j = k) xs) in if vs = [] then None else Some vs)"

lemma hm_push_all:
  "hm_get (fold (\<lambda>(k, v). hm_push k v) xs []) k = grouped xs k \<and> hm_wf (fold (\<lambda>(k, v). hm_push k v) xs [])"
proof (induction xs rule: rev_induct)
  case (snoc x xs)
  then show ?case
    by (cases x) (auto simp: grouped_def Let_def hm_push_get hm_push_wf split: if_splits)
qed (simp add: grouped_def)

definition name_addrs :: "fsm_state \<Rightarrow> (string \<times> socket_addr) list" where
  "name_addrs s = List.map_filter (\<lambda>a. if is_active (al_status a) then map_option (Pair (al_name a)) (al_address a) else None)
     (hm_values (f_allocs s))"

lemma dns_fold:
  "fold (\<lambda>a groups. if \<not> is_active (al_status a) then groups
      else case al_address a of None \<Rightarrow> groups | Some addr \<Rightarrow> hm_push (al_name a) addr groups) as m =
    fold (\<lambda>(k, v). hm_push k v) (List.map_filter (\<lambda>a. if is_active (al_status a) then map_option (Pair (al_name a)) (al_address a) else None) as) m"
  by (induction as arbitrary: m) (auto simp: List.map_filter_simps split: option.splits)

lemma find_append: "List.find P (xs @ ys) = (case List.find P xs of Some y \<Rightarrow> Some y | None \<Rightarrow> List.find P ys)"
  by (induction xs) auto

lemma set_records_get:
  "distinct (map dr_name rs) \<Longrightarrow>
    hm_get (set_records rs) n = map_option (\<lambda>r. map sa_ip (dr_addresses r)) (List.find (\<lambda>r. dr_name r = n) rs)"
proof (induction rs rule: rev_induct)
  case (snoc r rs)

  have "set_records (rs @ [r]) = hm_insert (dr_name r) (map sa_ip (dr_addresses r)) (set_records rs)"
    by (simp add: set_records_def)
  moreover have "List.find (\<lambda>q. dr_name q = dr_name r) rs = None" 
    using snoc.prems by (simp add: find_None_iff image_iff) metis
  ultimately show ?case using snoc by (auto simp: find_append split: option.splits)
qed (simp add: set_records_def)

lemma dns_table_get:
  "hm_get (set_records (compute_dns_records s)) name = map_option (map sa_ip) (grouped (name_addrs s) name)"
proof -
  let ?g = "fold (\<lambda>(k, v). hm_push k v) (name_addrs s) []"
  have g: "hm_get ?g name = grouped (name_addrs s) name" "hm_wf ?g" using hm_push_all [of "name_addrs s" name] by auto
  have r: "compute_dns_records s = map (\<lambda>(n, as). \<lparr> dr_name = n, dr_addresses = as \<rparr>) ?g"
    by (simp add: compute_dns_records_def dns_fold name_addrs_def)
  have "map dr_name (compute_dns_records s) = hm_keys ?g" unfolding r by (induction ?g) auto
  moreover have "List.find (\<lambda>q. dr_name q = name) (map (\<lambda>(n, as). \<lparr> dr_name = n, dr_addresses = as \<rparr>) m) =
      map_option (\<lambda>as. \<lparr> dr_name = name, dr_addresses = as \<rparr>) (hm_get m name)" for m
    by (induction m) auto
  ultimately show ?thesis using g by (simp add: set_records_get r [symmetric] option.map_comp comp_def) (simp add: r option.map_comp comp_def)
qed

declare trim_end_matches.simps [simp del]

lemma trim_mill:
  "\<not> ends_with name mill_suffix \<Longrightarrow> trim_end_matches mill_suffix (name @ mill_suffix) = name"
proof -
  assume n: "\<not> ends_with name mill_suffix"
  have "strip_suffix (name @ mill_suffix) mill_suffix = Some name" by (simp add: strip_suffix_eq_Some)
  moreover have "strip_suffix name mill_suffix = None"
    using n by (cases "strip_suffix name mill_suffix") (auto simp: ends_with_iff strip_suffix_eq_Some)
  ultimately show ?thesis by (simp add: trim_end_matches.simps mill_suffix_def)
qed

definition v4_of :: "socket_addr \<Rightarrow> 32 word option" where
  "v4_of a = (case sa_ip a of V4 w \<Rightarrow> Some w | V6 _ \<Rightarrow> None)"

definition service_addrs :: "fsm_state \<Rightarrow> string \<Rightarrow> socket_addr list" where
  "service_addrs s name = List.map_filter al_address
     (filter (\<lambda>a. al_name a = name \<and> is_active (al_status a)) (hm_values (f_allocs s)))"

lemma grouped_name_addrs:
  "grouped (name_addrs s) name = (if service_addrs s name = [] then None else Some (service_addrs s name))"
proof -
  have "map snd (filter (\<lambda>(j, _). j = name) (List.map_filter (\<lambda>a. if is_active (al_status a) then map_option (Pair (al_name a)) (al_address a) else None) as)) =
      List.map_filter al_address (filter (\<lambda>a. al_name a = name \<and> is_active (al_status a)) as)" for as :: "alloc list"
    by (induction as) (auto simp: List.map_filter_simps split: option.splits)
  then show ?thesis by (simp only: grouped_def name_addrs_def service_addrs_def Let_def)
qed




section \<open>The route table\<close>

lemma find_hd: "List.find P xs = (if filter P xs = [] then None else Some (hd (filter P xs)))"
  by (induction xs) auto

lemma hd_sort_key:
  fixes f :: "'a \<Rightarrow> 'b::linorder"
  assumes "xs \<noteq> []"
  shows "hd (sort_key f xs) = hd (filter (\<lambda>x. f x = Min (f ` set xs)) xs)"
proof -
  let ?ys = "sort_key f xs"
  obtain y ys where y: "?ys = y # ys" using assms by (cases ?ys) (auto dest: arg_cong [of _ _ set])
  have "f y = Min (f ` set xs)"
  proof (rule Min_eqI [symmetric])
    have "sorted (map f ?ys)" by simp
    moreover have "set ?ys = set xs" by simp
    ultimately show "\<And>z. z \<in> f ` set xs \<Longrightarrow> f y \<le> z" using y by (metis (no_types, lifting) imageE list.simps(9) order_refl set_ConsD sorted_simps(2) image_eqI list.set_map)
    show "f y \<in> f ` set xs" using y by (metis image_eqI list.set_intros(1) set_sort)
  qed simp
  then have "hd (filter (\<lambda>x. f x = Min (f ` set xs)) ?ys) = hd ?ys" using y by simp
  then show ?thesis by (simp add: sort_key_stable)
qed


section \<open>Routes to active allocations\<close>

definition entry_of :: "proxy_route \<Rightarrow> route_entry" where
  "entry_of r = \<lparr> re_path = pr_path r, re_backend = pr_backend r, re_websocket = pr_websocket r \<rparr>"

lemma route_table_get:
  "hm_get (route_table_new rs) host =
    (let es = map entry_of (filter (\<lambda>r. pr_hostname r = host) rs)
     in if es = [] then None else Some (sort_key (\<lambda>e. - int (length (re_path e))) es))"
proof -
  have "fold (\<lambda>r. hm_push (pr_hostname r) \<lparr> re_path = pr_path r, re_backend = pr_backend r, re_websocket = pr_websocket r \<rparr>) rs m =
      fold (\<lambda>(k, v). hm_push k v) (map (\<lambda>r. (pr_hostname r, entry_of r)) rs) m" for m and rs :: "proxy_route list"
    by (induction rs arbitrary: m) (auto simp: entry_of_def)
  moreover have "grouped (map (\<lambda>r. (pr_hostname r, entry_of r)) rs) host =
      (let es = map entry_of (filter (\<lambda>r. pr_hostname r = host) rs) in if es = [] then None else Some es)"
    by (simp add: grouped_def Let_def filter_map comp_def)
  ultimately show ?thesis
    using hm_push_all [of "map (\<lambda>r. (pr_hostname r, entry_of r)) rs" host]
    by (simp add: route_table_new_def map_of_map Let_def)
qed

lemma Min_neg_int: "finite S \<Longrightarrow> S \<noteq> {} \<Longrightarrow> Min ((\<lambda>n. - int n) ` S) = - int (Max S)"
  by (rule Min_eqI) auto

lemma hd_longest:
  assumes "c \<noteq> []"
  shows "hd (sort_key (\<lambda>e. - int (length (re_path e))) c) =
      hd (filter (\<lambda>e. length (re_path e) = Max (length ` re_path ` set c)) c)"
proof -
  have "(\<lambda>e. - int (length (re_path e))) ` set c = (\<lambda>n. - int n) ` length ` re_path ` set c" by (simp add: image_image)
  then have "Min ((\<lambda>e. - int (length (re_path e))) ` set c) = - int (Max (length ` re_path ` set c))"
    using assms by (simp only:) (rule Min_neg_int, auto)
  then show ?thesis using hd_sort_key [OF assms, of "\<lambda>e. - int (length (re_path e))"] by simp
qed

lemma longest_in:
  assumes "c \<noteq> []"
  defines "e \<equiv> hd (filter (\<lambda>e. length (re_path e) = Max (length ` re_path ` set c)) c)"
  shows "e \<in> set c \<and> (\<forall>x\<in>set c. length (re_path x) \<le> length (re_path e))"
proof -
  let ?fs = "filter (\<lambda>e. length (re_path e) = Max (length ` re_path ` set c)) c"
  have "Max (length ` re_path ` set c) \<in> length ` re_path ` set c" using assms by (intro Max_in) auto
  then have "?fs \<noteq> []" by (auto simp: filter_empty_conv)
  then have "hd ?fs \<in> set ?fs" by (rule hd_in_set)
  then show ?thesis by (auto simp: e_def intro!: Max_ge)
qed

text \<open>A lookup finds the first of the matching routes with the longest path.\<close>

definition matching_entries :: "proxy_route list \<Rightarrow> string \<Rightarrow> string \<Rightarrow> route_entry list" where
  "matching_entries rs host path = map entry_of (filter (\<lambda>r. pr_hostname r = host \<and> starts_with path (pr_path r)) rs)"

lemma lookup_first:
  "lookup_route (route_table_new rs) host path =
    (let c = matching_entries rs host path
     in if c = [] then None
        else Some (hd (filter (\<lambda>e. length (re_path e) = Max (length ` re_path ` set c)) c)))"
proof -
  let ?f = "\<lambda>e. - int (length (re_path e))"
  let ?es = "map entry_of (filter (\<lambda>r. pr_hostname r = host) rs)"
  have c: "filter (\<lambda>e. starts_with path (re_path e)) ?es = matching_entries rs host path"
    unfolding matching_entries_def by (induction rs) (auto simp: entry_of_def)
  have "lookup_route (route_table_new rs) host path = List.find (\<lambda>e. starts_with path (re_path e)) (sort_key ?f ?es)"
    by (simp add: lookup_route_def route_table_get Let_def)
  moreover have "filter (\<lambda>e. starts_with path (re_path e)) (sort_key ?f ?es) = sort_key ?f (matching_entries rs host path)"
    by (simp only: filter_sort c)
  moreover have "sort_key ?f cs = [] \<longleftrightarrow> cs = []" for cs :: "route_entry list" by (metis length_0_conv length_sort)
  ultimately show ?thesis by (simp add: find_hd Let_def hd_longest)
qed

text \<open>The paths and backends that the configuration and the allocations offer for a request.\<close>

definition serves :: "fsm_state \<Rightarrow> string \<Rightarrow> string \<Rightarrow> string \<Rightarrow> socket_addr \<Rightarrow> bool" where
  "serves s host path p b \<longleftrightarrow> (\<exists>config. f_config s = Some config \<and> (\<exists>(name, d)\<in>set (c_services config).
     (\<exists>rd\<in>set (s_routes d). rd_hostname rd = host \<and> rd_path rd = p \<and> starts_with path p) \<and> b \<in> set (service_addrs s name)))"

lemma route_addrs_eq: "route_addrs s name = service_addrs s name"
proof -
  have "List.map_filter al_address (filter (\<lambda>a. al_name a = name \<and> is_active (al_status a) \<and> al_address a \<noteq> None) as) =
      List.map_filter al_address (filter (\<lambda>a. al_name a = name \<and> is_active (al_status a)) as)" for as :: "alloc list"
    by (induction as) (auto simp: List.map_filter_simps)
  then show ?thesis by (simp add: route_addrs_def service_addrs_def)
qed

lemma serves_iff:
  "serves s host path p b \<longleftrightarrow>
    (\<exists>r\<in>set (compute_proxy_routes s). pr_hostname r = host \<and> pr_path r = p \<and> starts_with path p \<and> pr_backend r = b)"
proof (cases "f_config s")
  case (Some config)
  have "(if s_routes d = [] then [] else concat (map F (s_routes d))) = concat (map F (s_routes d))"
    for d :: service_def and F :: "route_def \<Rightarrow> proxy_route list" by simp
  note eq = this
  have "r \<in> set (compute_proxy_routes s) \<longleftrightarrow> (\<exists>(name, d)\<in>set (c_services config). \<exists>rd\<in>set (s_routes d). \<exists>b\<in>set (service_addrs s name).
      r = \<lparr> pr_hostname = rd_hostname rd, pr_path = rd_path rd, pr_backend = b, pr_websocket = rd_websocket rd \<rparr>)" for r
    using Some unfolding compute_proxy_routes_def option.case eq
    by (auto simp: route_addrs_eq) (rule bexI [rotated], assumption, force)
  note r = this
  show ?thesis
  proof
    assume "serves s host path p b"
    then show "\<exists>r\<in>set (compute_proxy_routes s). pr_hostname r = host \<and> pr_path r = p \<and> starts_with path p \<and> pr_backend r = b"
      using Some unfolding serves_def Bex_def r by fastforce
  next
    assume "\<exists>r\<in>set (compute_proxy_routes s). pr_hostname r = host \<and> pr_path r = p \<and> starts_with path p \<and> pr_backend r = b"
    then show "serves s host path p b" using Some unfolding serves_def Bex_def r by fastforce
  qed
qed (simp add: serves_def compute_proxy_routes_def)



section \<open>A service with replicas behind a route\<close>

definition web_alloc :: "alloc_id \<Rightarrow> 32 word \<Rightarrow> alloc" where
  "web_alloc i ip = \<lparr> al_id = i, al_node = ''n'', al_name = ''web'', al_kind = KService, al_status = Healthy,
     al_address = Some \<lparr> sa_ip = V4 ip, sa_port = 50000 \<rparr>, al_resources = \<lparr> ar_cpu = Fin 1, ar_memory = 100 \<rparr>,
     al_started_at = None \<rparr>"

definition web_state :: fsm_state where
  "web_state = fsm_default\<lparr>
     f_config := Some \<lparr> c_services = [(''web'', svc_a\<lparr> s_routes := [\<lparr> rd_hostname = ''h'', rd_path = ''/'', rd_websocket = False \<rparr>] \<rparr>)],
       c_tasks = [] \<rparr>,
     f_allocs := [(''a'', web_alloc ''a'' 1), (''b'', web_alloc ''b'' 2)] \<rparr>"

lemma web_addrs: "service_addrs web_state ''web'' = [\<lparr> sa_ip = V4 1, sa_port = 50000 \<rparr>, \<lparr> sa_ip = V4 2, sa_port = 50000 \<rparr>]"
  by (simp add: service_addrs_def web_state_def web_alloc_def List.map_filter_simps)

lemma web_routes:
  "compute_proxy_routes web_state = map (\<lambda>b. \<lparr> pr_hostname = ''h'', pr_path = ''/'', pr_backend = b, pr_websocket = False \<rparr>)
     (service_addrs web_state ''web'')"
  by (simp add: compute_proxy_routes_def route_addrs_eq web_state_def)


text \<open>
  Replicas do not share the traffic of a route. If a host has one route, every request it
  matches goes to the first active address of its service in the order of the table of allocations,
  however many replicas the service has.
\<close>

theorem one_backend_per_route:
  assumes "f_config s = Some config" "c_services config = [(name, d)]" "s_routes d = [rd]"
    and "service_addrs s name = b # bs" "starts_with path (rd_path rd)"
  shows "lookup_route (route_table_new (compute_proxy_routes s)) (rd_hostname rd) path =
    Some \<lparr> re_path = rd_path rd, re_backend = b, re_websocket = rd_websocket rd \<rparr>"
proof -
  let ?e = "\<lambda>b. \<lparr> re_path = rd_path rd, re_backend = b, re_websocket = rd_websocket rd \<rparr>"
  have m: "matching_entries (compute_proxy_routes s) (rd_hostname rd) path = map ?e (b # bs)"
    using assms by (simp add: matching_entries_def compute_proxy_routes_def route_addrs_eq entry_of_def comp_def filter_map)
  have "length ` re_path ` set (map ?e (b # bs)) = {length (rd_path rd)}" by auto
  then have "Max (length ` re_path ` set (map ?e (b # bs))) = length (rd_path rd)" by (simp only: Max_singleton)
  then show ?thesis unfolding lookup_first m Let_def by (simp only:) simp
qed

theorem one_backend_per_route_witness:
  "lookup_route (route_table_new (compute_proxy_routes web_state)) ''h'' ''/x'' =
    Some \<lparr> re_path = ''/'', re_backend = \<lparr> sa_ip = V4 1, sa_port = 50000 \<rparr>, re_websocket = False \<rparr>"
  using one_backend_per_route [OF _ _ _ web_addrs, of _ _ "\<lparr> rd_hostname = ''h'', rd_path = ''/'', rd_websocket = False \<rparr>" "''/x''"]
  by (simp add: web_state_def starts_with_def)


section \<open>Hosts with routes get certificates\<close>

lemma ensure_cert_keeps: "hm_has (ct_cache c) h \<Longrightarrow> hm_has (ct_cache (ensure_cert ce g c)) h"
  by (auto simp: ensure_cert_def acquire_cert_def self_signed_cert_def cert_save_def cert_install_def hm_has_get Let_def
      split: option.split)

lemma ensure_cert_has:
  assumes "ce_self_signed ce h = Some pair" "ce_to_key ce pair = Some ck"
  shows "hm_has (ct_cache (ensure_cert ce h c)) h"
  using assms
  by (auto simp: ensure_cert_def acquire_cert_def self_signed_cert_def cert_save_def cert_install_def hm_has_get Let_def
      split: option.split)

lemma ensure_certs_keep: "hm_has (ct_cache c) h \<Longrightarrow> hm_has (ct_cache (fold (ensure_cert ce) hs c)) h"
  by (induction hs arbitrary: c) (simp_all add: ensure_cert_keeps)

lemma watch_certs_has:
  assumes "h \<in> set (hostnames table)" "ce_self_signed ce h = Some pair" "ce_to_key ce pair = Some ck"
  shows "hm_has (ct_cache (watch_certs ce table c)) h"
proof -
  have "h \<in> set hs \<Longrightarrow> hm_has (ct_cache (fold (ensure_cert ce) hs c)) h" for hs
    using ensure_cert_has [OF assms(2,3)] by (induction hs arbitrary: c) (auto intro: ensure_certs_keep)
  then show ?thesis using assms(1) by (simp add: watch_certs_def)
qed

text \<open>
  (C19) Traffic for a routed host is encrypted once the watcher of certificates has seen the table. If
  a certificate can be generated for the host, whatever the store and the authority do, then a
  plain HTTP request for it is never sent to a backend and is not counted: it is redirected to
  HTTPS, unless it answers a challenge or asks for the health of the proxy.
\<close>

theorem routed_hosts_redirect:
  assumes "h \<in> set (hostnames table)" "ce_self_signed ce h = Some pair" "ce_to_key ce pair = Some ck"
    and "extract_host (bk_to_str bk) req = Some h"
  shows "snd (handle_http_request bk req ip routes (ct_cache (watch_certs ce table c)) challenges metrics) = metrics
    \<and> (case fst (handle_http_request bk req ip routes (ct_cache (watch_certs ce table c)) challenges metrics) of
         Simple code body \<Rightarrow> code = 200
       | Redirect location \<Rightarrow> starts_with location (''https://'' @ h)
       | Upgraded _ \<Rightarrow> False
       | Proxied _ _ \<Rightarrow> False)"
  using assms(4) watch_certs_has [OF assms(1-3), of c]
  by (auto simp: handle_http_request_def https_redirect_def Let_def starts_with_iff split: option.split)

definition backends1 :: "unit backends" where
  "backends1 = \<lparr> bk_to_str = Some, bk_value_ok = (\<lambda>_. True), bk_uri_ok = (\<lambda>_. True), bk_send = (\<lambda>_ _. Inr ()),
     bk_upgrade = (\<lambda>_ _. Inr ()), bk_elapsed = 0 \<rparr>"

definition request1 :: http_request where
  "request1 = \<lparr> hr_get = True, hr_path = ''/x'', hr_path_and_query = Some ''/x'', hr_uri_host = Some ''h'', hr_uri = ''/x'',
     hr_headers = [(''upgrade'', ''h2c'')] \<rparr>"

definition cert_env1 :: "(unit, unit) cert_env" where
  "cert_env1 = \<lparr> ce_load_fails = (\<lambda>_. True), ce_save_fails = (\<lambda>_. True), ce_to_key = Some, ce_acme = None,
     ce_self_signed = (\<lambda>_. Some ()) \<rparr>"

theorem routed_hosts_redirect_witness:
  "snd (handle_http_request backends1 request1 (V4 9) [] (ct_cache (watch_certs cert_env1
     (route_table_new (compute_proxy_routes web_state)) \<lparr> ct_cache = [], ct_store = [] \<rparr>)) [] []) = []"
proof -
  let ?t = "route_table_new (compute_proxy_routes web_state)"
  have "hm_get ?t ''h'' \<noteq> None" by (simp add: route_table_get web_routes web_addrs Let_def)
  then have h: "''h'' \<in> set (hostnames ?t)" by (simp add: hostnames_def map_of_eq_None_iff)
  have e: "extract_host (bk_to_str backends1) request1 = Some ''h''"
    by (simp add: extract_host_def header_get_def request1_def)
  show ?thesis
    using routed_hosts_redirect [OF h, of cert_env1 "()" "()", OF _ _ e] by (simp add: cert_env1_def)
qed


section \<open>Forwarded requests\<close>

lemma header_remove_get: "map_of (hr_headers (header_remove n req)) k = (if k = n then None else map_of (hr_headers req) k)"
proof -
  have "map_of (filter (\<lambda>(m, _). m \<noteq> n) hs) k = (if k = n then None else map_of hs k)" for hs :: "(string \<times> string) list"
    by (induction hs) auto
  then show ?thesis by (simp add: header_remove_def)
qed

lemma header_removes_get:
  "map_of (hr_headers (fold header_remove ns req)) k = (if k \<in> set ns then None else map_of (hr_headers req) k)"
  by (induction ns arbitrary: req) (simp_all add: header_remove_get)

lemma header_insert_get: "map_of (hr_headers (header_insert n v req)) k = (if k = n then Some v else map_of (hr_headers req) k)"
  using header_remove_get [of n req k] by (simp add: header_insert_def header_remove_def)

lemma set_header_get:
  "map_of (hr_headers (set_header ok n v req)) k = (if k = n \<and> ok v then Some v else map_of (hr_headers req) k)"
  by (simp add: set_header_def header_insert_get)



end
