(* ===== verification/Metrics.thy ===== *)
theory Metrics
  imports Secondary Routing
begin

text \<open>
  The metrics of a node, \<^verbatim>\<open>crates/node/src/secondary/metrics.rs\<close>: the resources of the host
  from the texts of \<^verbatim>\<open>/proc/meminfo\<close> and \<^verbatim>\<open>/proc/stat\<close>, and the rates of processor use
  from the totals that the runtime reports.
\<close>

section \<open>The host\<close>

definition parse_meminfo_kb :: "string \<Rightarrow> u64" where
  "parse_meminfo_kb s =
    (case parse_unsigned (2 ^ 64) (str_trim (trim_end_matches ''kB'' (str_trim s))) of
       Some n \<Rightarrow> word_of_nat n
     | None \<Rightarrow> 0)"

definition meminfo_line :: "string \<Rightarrow> u64 \<times> u64 \<Rightarrow> u64 \<times> u64" where
  "meminfo_line line acc =
    (case acc of (mem_total, available) \<Rightarrow>
       (case strip_prefix line ''MemTotal:'' of
          Some rest \<Rightarrow> (parse_meminfo_kb rest, available)
        | None \<Rightarrow>
           (case strip_prefix line ''MemAvailable:'' of
              Some rest \<Rightarrow> (mem_total, parse_meminfo_kb rest)
            | None \<Rightarrow> (mem_total, available))))"

definition kib :: "u64 \<Rightarrow> byte_size" where "kib n = n * 1024"

definition read_linux_memory :: "string option \<Rightarrow> byte_size \<times> byte_size" where
  "read_linux_memory meminfo =
    (case meminfo of
       None \<Rightarrow> (0, 0)
     | Some contents \<Rightarrow> (case fold meminfo_line (str_lines contents) (0, 0) of (mem_total, available) \<Rightarrow> (kib mem_total, kib available)))"

definition read_linux_cpu :: "string option \<Rightarrow> f64" where
  "read_linux_cpu stat =
    (case stat of
       None \<Rightarrow> Fin 0
     | Some contents \<Rightarrow>
        f64_of_nat (length (filter (\<lambda>l. starts_with l ''cpu'' \<and> \<not> starts_with l ''cpu '') (str_lines contents))))"

definition read_host_resources :: "string option \<Rightarrow> string option \<Rightarrow> node_resources" where
  "read_host_resources meminfo stat =
    (let mem = read_linux_memory meminfo;
         cpu = read_linux_cpu stat
     in \<lparr> nr_cpu_total = cpu, nr_cpu_available = cpu, nr_memory_total = fst mem, nr_memory_available = snd mem \<rparr>)"


section \<open>Rates\<close>

type_synonym readings = "(alloc_id, f64 \<times> time) hash_map"

definition cpu_rate :: "time \<Rightarrow> readings \<Rightarrow> container_stats \<Rightarrow> f64" where
  "cpu_rate now prev_cpu s =
    (case hm_get prev_cpu (ct_alloc_id s) of
       Some (prev_cumulative, prev_time) \<Rightarrow>
         (let elapsed = as_secs_f64 (now - prev_time)
          in if f64_lt (Fin 0) elapsed then
               let delta = f64_sub (ct_cpu_usage s) prev_cumulative in f64_max (f64_div delta elapsed) (Fin 0)
             else Fin 0)
     | None \<Rightarrow> Fin 0)"

fun rates_loop :: "time \<Rightarrow> container_stats list \<Rightarrow> readings \<Rightarrow> container_stats list \<times> readings" where
  "rates_loop now [] prev_cpu = ([], prev_cpu)"
| "rates_loop now (s # stats) prev_cpu =
    (let rate = cpu_rate now prev_cpu s;
         (out, prev_cpu) = rates_loop now stats (hm_insert (ct_alloc_id s) (ct_cpu_usage s, now) prev_cpu)
     in (s\<lparr> ct_cpu_usage := rate \<rparr> # out, prev_cpu))"

definition compute_cpu_rates :: "container_stats list \<Rightarrow> readings \<Rightarrow> time \<Rightarrow> container_stats list \<times> readings" where
  "compute_cpu_rates stats prev_cpu now =
    rates_loop now stats (hm_retain (\<lambda>i _. i \<in> ct_alloc_id ` set stats) prev_cpu)"

record metrics_collector =
  mc_resources :: node_resources
  mc_stats :: "container_stats list"
  mc_prev_cpu :: readings

definition metrics_collector_new :: metrics_collector where
  "metrics_collector_new = \<lparr>
     mc_resources = \<lparr> nr_cpu_total = Fin 0, nr_cpu_available = Fin 0, nr_memory_total = 0, nr_memory_available = 0 \<rparr>,
     mc_stats = [], mc_prev_cpu = [] \<rparr>"

text \<open>One poll; a failed request for the totals counts as no container.\<close>

definition metrics_poll ::
  "string option \<Rightarrow> string option \<Rightarrow> (string, container_stats list) result \<Rightarrow> time \<Rightarrow> metrics_collector \<Rightarrow> metrics_collector" where
  "metrics_poll meminfo stat stats_all now mc =
    (let resources = read_host_resources meminfo stat;
         raw_stats = (case stats_all of Inr stats \<Rightarrow> stats | Inl _ \<Rightarrow> []);
         (rate_stats, prev_cpu) = compute_cpu_rates raw_stats (mc_prev_cpu mc) now
     in \<lparr> mc_resources = resources, mc_stats = rate_stats, mc_prev_cpu = prev_cpu \<rparr>)"


section \<open>What the rates are\<close>

lemma rates_loop_distinct:
  assumes "distinct (map ct_alloc_id stats)"
  shows "rates_loop now stats prev = (map (\<lambda>s. s\<lparr> ct_cpu_usage := cpu_rate now prev s \<rparr>) stats,
    fold (\<lambda>s. hm_insert (ct_alloc_id s) (ct_cpu_usage s, now)) stats prev)"
  using assms
proof (induction stats arbitrary: prev)
  case (Cons s stats)
  have "cpu_rate now (hm_insert (ct_alloc_id s) v prev) t = cpu_rate now prev t" if "t \<in> set stats" for t v
  proof -
    have "ct_alloc_id t \<noteq> ct_alloc_id s" using Cons.prems that by (metis distinct.simps(2) image_eqI list.set_map list.simps(9))
    then show ?thesis by (simp add: cpu_rate_def)
  qed
  then show ?case using Cons by (simp add: Let_def)
qed simp

definition readings_of :: "container_stats list \<Rightarrow> time \<Rightarrow> readings \<Rightarrow> readings" where
  "readings_of stats now = fold (\<lambda>s. hm_insert (ct_alloc_id s) (ct_cpu_usage s, now)) stats"

lemma readings_other: "i \<notin> ct_alloc_id ` set stats \<Longrightarrow> hm_get (readings_of stats now m) i = hm_get m i"
  unfolding readings_of_def by (induction stats arbitrary: m) auto

lemma readings_get:
  "distinct (map ct_alloc_id stats) \<Longrightarrow> s \<in> set stats \<Longrightarrow>
    hm_get (readings_of stats now m) (ct_alloc_id s) = Some (ct_cpu_usage s, now)"
proof (induction stats arbitrary: m)
  case (Cons t stats)
  have e: "readings_of (t # stats) now m = readings_of stats now (hm_insert (ct_alloc_id t) (ct_cpu_usage t, now) m)"
    by (simp add: readings_of_def)
  show ?case
  proof (cases "s = t")
    case True
    then show ?thesis using Cons.prems by (simp add: e readings_other)
  next
    case False
    then show ?thesis using Cons by (simp add: e)
  qed
qed simp

lemma readings_wf: "hm_wf m \<Longrightarrow> hm_wf (readings_of stats now m)"
  unfolding readings_of_def by (induction stats arbitrary: m) (auto intro: hm_wf_insert)

lemma cpu_rate_nonneg: "f64_le (Fin 0) (cpu_rate now prev s)"
proof -
  have "f64_le (Fin 0) (f64_max a (Fin 0))" for a by (cases a) (auto simp: f64_max_def)
  then show ?thesis by (auto simp: cpu_rate_def Let_def split: option.split)
qed

text \<open>
  The use of a container between two polls: the rate that a poll reports is the increase of the
  total since the poll before, divided by the time between them, and no less than zero. It is a
  number whatever the runtime reports, and zero for a container that the poll before did not see.
\<close>

theorem cpu_rate_between_polls:
  assumes "distinct (map ct_alloc_id first)" "distinct (map ct_alloc_id second)" "s \<in> set second"
    and mc: "mc = metrics_poll mi st (Inr second) t2 (metrics_poll mi st (Inr first) t1 metrics_collector_new)"
  shows "\<exists>r. s\<lparr> ct_cpu_usage := r \<rparr> \<in> set (mc_stats mc) \<and> f64_le (Fin 0) r
    \<and> (ct_alloc_id s \<notin> ct_alloc_id ` set first \<longrightarrow> r = Fin 0)
    \<and> (\<forall>p\<in>set first. ct_alloc_id p = ct_alloc_id s \<and> f64_lt (Fin 0) (as_secs_f64 (t2 - t1)) \<longrightarrow>
         r = f64_max (f64_div (f64_sub (ct_cpu_usage s) (ct_cpu_usage p)) (as_secs_f64 (t2 - t1))) (Fin 0))"
proof -
  let ?prev = "readings_of first t1 []"
  let ?kept = "hm_retain (\<lambda>i _. i \<in> ct_alloc_id ` set second) ?prev"
  have p: "mc_prev_cpu (metrics_poll mi st (Inr first) t1 metrics_collector_new) = ?prev"
    by (simp add: metrics_poll_def compute_cpu_rates_def rates_loop_distinct [OF assms(1)] metrics_collector_new_def
        hm_retain_def Let_def readings_of_def)
  have m: "mc_stats mc = map (\<lambda>s. s\<lparr> ct_cpu_usage := cpu_rate t2 ?kept s \<rparr>) second"
    unfolding mc by (simp add: metrics_poll_def [of _ _ "Inr second"] p compute_cpu_rates_def rates_loop_distinct [OF assms(2)] Let_def)
  have k: "hm_get ?kept (ct_alloc_id s) = hm_get ?prev (ct_alloc_id s)"
    using assms(3) readings_wf [of "[]" first t1] by (simp add: hm_get_retain split: option.split)
  show ?thesis
  proof (intro exI [of _ "cpu_rate t2 ?kept s"] conjI impI ballI)
    show "s\<lparr> ct_cpu_usage := cpu_rate t2 ?kept s \<rparr> \<in> set (mc_stats mc)" using assms(3) by (simp add: m)
    show "f64_le (Fin 0) (cpu_rate t2 ?kept s)" by (rule cpu_rate_nonneg)
    show "cpu_rate t2 ?kept s = Fin 0" if "ct_alloc_id s \<notin> ct_alloc_id ` set first"
      using readings_other [OF that, of t1 "[]"] by (simp add: cpu_rate_def k)
    show "cpu_rate t2 ?kept s =
        f64_max (f64_div (f64_sub (ct_cpu_usage s) (ct_cpu_usage p)) (as_secs_f64 (t2 - t1))) (Fin 0)"
      if "p \<in> set first" "ct_alloc_id p = ct_alloc_id s \<and> f64_lt (Fin 0) (as_secs_f64 (t2 - t1))" for p
      using readings_get [OF assms(1) that(1), of t1 "[]"] that(2) by (simp add: cpu_rate_def k Let_def)
  qed
qed

theorem cpu_rate_between_polls_witness:
  "\<exists>r. \<lparr> ct_alloc_id = ''a'', ct_cpu_usage = r, ct_memory_usage = 0 \<rparr> \<in>
     set (mc_stats (metrics_poll None None (Inr [\<lparr> ct_alloc_id = ''a'', ct_cpu_usage = Fin 5, ct_memory_usage = 0 \<rparr>]) 10
       (metrics_poll None None (Inr [\<lparr> ct_alloc_id = ''b'', ct_cpu_usage = Fin 3, ct_memory_usage = 0 \<rparr>]) 5 metrics_collector_new)))
     \<and> r = Fin 0"
  using cpu_rate_between_polls [OF _ _ _ refl, of "[\<lparr> ct_alloc_id = ''b'', ct_cpu_usage = Fin 3, ct_memory_usage = 0 \<rparr>]"
      "[\<lparr> ct_alloc_id = ''a'', ct_cpu_usage = Fin 5, ct_memory_usage = 0 \<rparr>]"
      "\<lparr> ct_alloc_id = ''a'', ct_cpu_usage = Fin 5, ct_memory_usage = 0 \<rparr>" None None 10 5]
  by simp

end
