(* ===== verification/Api.thy ===== *)
theory Api
  imports Routing
begin

text \<open>
  Two parts of the HTTP interface of the primary that decide something of their own: who gets in
  (\<^verbatim>\<open>crates/node/src/primary/api/auth.rs\<close>, \<^verbatim>\<open>leader.rs\<close>) and how the logs of
  allocations are streamed (\<^verbatim>\<open>crates/node/src/primary/logs.rs\<close>).
\<close>

section \<open>Who gets in\<close>

text \<open>The comparison of \<^verbatim>\<open>subtle\<close> is a parameter; statuses are their HTTP numbers.\<close>

definition require_auth :: "(string \<Rightarrow> string \<Rightarrow> bool) \<Rightarrow> string \<Rightarrow> string option \<Rightarrow> (nat, unit) result" where
  "require_auth ct_eq auth_token header =
    (case header of
       Some v \<Rightarrow>
         if starts_with v ''Bearer '' then
           (let token = drop (length ''Bearer '') v
            in if ct_eq token auth_token then Inr () else Inl 401)
         else Inl 401
     | None \<Rightarrow> Inl 401)"

datatype leader_answer = Proceed | RedirectTo string | Status nat

text \<open>
  \<open>linearizable\<close> says whether this node is the leader, \<open>leader_id\<close> whom it takes for the leader,
  \<open>valid\<close> whether a location can be a header.
\<close>

definition require_leader ::
  "bool \<Rightarrow> u64 option \<Rightarrow> (string \<Rightarrow> bool) \<Rightarrow> fsm_state \<Rightarrow> string option \<Rightarrow> leader_answer" where
  "require_leader linearizable leader_id valid s path_and_query =
    (if linearizable then Proceed
     else case Option.bind leader_id (\<lambda>i. map_option n_address (hm_get (f_nodes s) i)) of
            Some addr \<Rightarrow>
              (let location = ''http://'' @ show_socket_addr addr @ (case path_and_query of Some pq \<Rightarrow> pq | None \<Rightarrow> ''/'')
               in if valid location then RedirectTo location else Status 500)
          | None \<Rightarrow> Status 503)"


section \<open>Log streams\<close>

text \<open>
  A stream as its client and the nodes see it: the events it sent, the commands it sent to nodes, the
  table of subscribers afterwards, and whether it returned. What comes from outside: \<open>gone n\<close> says
  that the client no longer takes an event after \<open>n\<close> of them, \<open>batches\<close> are the reports of log
  lines that arrive for the allocations, \<open>ends\<close> says that the channel closes after them,
  \<open>is_closed\<close> which other subscribers have left by then, and \<open>json\<close> prints a line.
\<close>

record sse_event =
  se_event :: string
  se_data :: string

record log_stream_outcome =
  lo_events :: "sse_event list"
  lo_commands :: "(node_id \<times> node_command) list"
  lo_subscribers :: "(alloc_id, nat list) hash_map"
  lo_returned :: bool

definition stream_allocs :: "fsm_state \<Rightarrow> string \<Rightarrow> (alloc_id \<times> node_id) list" where
  "stream_allocs s name =
    map (\<lambda>a. (al_id a, al_node a)) (filter (\<lambda>a. al_name a = name \<or> al_id a = name) (hm_values (f_allocs s)))"

definition line_event :: "(string \<Rightarrow> string \<Rightarrow> string \<Rightarrow> string) \<Rightarrow> log_line \<Rightarrow> sse_event" where
  "line_event json line =
    (let stream = (case ll_stream line of Stdout \<Rightarrow> ''stdout'' | Stderr \<Rightarrow> ''stderr'')
     in \<lparr> se_event = [], se_data = json (format_system_time (ll_timestamp line)) stream (ll_content line) \<rparr>)"

text \<open>The inner loop stops at the first line that the client does not take.\<close>

fun send_lines ::
  "(nat \<Rightarrow> bool) \<Rightarrow> (string \<Rightarrow> string \<Rightarrow> string \<Rightarrow> string) \<Rightarrow> log_line list \<Rightarrow> sse_event list \<Rightarrow> sse_event list" where
  "send_lines gone json [] events = events"
| "send_lines gone json (line # lines) events =
    (if gone (length events) then events else send_lines gone json lines (events @ [line_event json line]))"

fun receive_loop ::
  "(nat \<Rightarrow> bool) \<Rightarrow> (string \<Rightarrow> string \<Rightarrow> string \<Rightarrow> string) \<Rightarrow> bool \<Rightarrow> bool \<Rightarrow> log_line list list \<Rightarrow> sse_event list \<Rightarrow>
   sse_event list \<times> bool" where
  "receive_loop gone json follow ends [] events = (events, ends)"
| "receive_loop gone json follow ends (lines # batches) events =
    (let events = send_lines gone json lines events
     in if \<not> follow then (events, True) else receive_loop gone json follow ends batches events)"

definition add_subscriber :: "nat \<Rightarrow> alloc_id \<Rightarrow> (alloc_id, nat list) hash_map \<Rightarrow> (alloc_id, nat list) hash_map" where
  "add_subscriber tx alloc_id subs = hm_insert alloc_id ((case hm_get subs alloc_id of Some txs \<Rightarrow> txs | None \<Rightarrow> []) @ [tx]) subs"

definition drop_closed_subscribers :: "(nat \<Rightarrow> bool) \<Rightarrow> alloc_id \<Rightarrow> (alloc_id, nat list) hash_map \<Rightarrow> (alloc_id, nat list) hash_map" where
  "drop_closed_subscribers is_closed alloc_id subs =
    (case hm_get subs alloc_id of
       None \<Rightarrow> subs
     | Some subscribers \<Rightarrow>
        (let subscribers = filter (\<lambda>tx. \<not> is_closed tx) subscribers
         in if subscribers = [] then hm_remove alloc_id subs else hm_insert alloc_id subscribers subs))"

definition stream_logs ::
  "(nat \<Rightarrow> bool) \<Rightarrow> (string \<Rightarrow> string \<Rightarrow> string \<Rightarrow> string) \<Rightarrow> (nat \<Rightarrow> bool) \<Rightarrow> nat \<Rightarrow> log_line list list \<Rightarrow> bool \<Rightarrow>
   fsm_state \<Rightarrow> (alloc_id, nat list) hash_map \<Rightarrow> string \<Rightarrow> bool \<Rightarrow> nat \<Rightarrow> log_stream_outcome" where
  "stream_logs gone json is_closed log_tx batches ends s subs name follow tail =
    (let allocs = stream_allocs s name
     in if allocs = [] then
          \<lparr> lo_events = [\<lparr> se_event = ''error'', se_data = ''no allocations found for '' @ [CHR 0x27] @ name @ [CHR 0x27] \<rparr>],
            lo_commands = [], lo_subscribers = subs, lo_returned = True \<rparr>
        else
          let subs = fold (\<lambda>(i, _). add_subscriber log_tx i) allocs subs;
              commands = map (\<lambda>(i, n). (n, LogTail i tail)) allocs @ (if follow then map (\<lambda>(i, n). (n, LogFollow i)) allocs else []);
              (events, returned) = receive_loop gone json follow ends batches []
          in if \<not> returned then
               \<lparr> lo_events = events, lo_commands = commands, lo_subscribers = subs, lo_returned = False \<rparr>
             else
               \<lparr> lo_events = events,
                 lo_commands = commands @ (if follow then map (\<lambda>(i, n). (n, LogUnfollow i)) allocs else []),
                 lo_subscribers = fold (\<lambda>(i, _). drop_closed_subscribers is_closed i) allocs subs, lo_returned = True \<rparr>)"


section \<open>Access\<close>

lemma require_auth_iff:
  assumes "\<And>x y. ct_eq x y \<longleftrightarrow> x = y"
  shows "require_auth ct_eq token header = Inr () \<longleftrightarrow> header = Some (''Bearer '' @ token)"
  by (auto simp: require_auth_def assms starts_with_iff Let_def split: option.split)

lemma require_leader_proceeds: "require_leader l i v s pq = Proceed \<longleftrightarrow> l"
  by (auto simp: require_leader_def Let_def split: option.split)


section \<open>What a client gets to see\<close>

lemma send_lines_all: "\<forall>n. \<not> gone n \<Longrightarrow> send_lines gone json lines events = events @ map (line_event json) lines"
  by (induction lines arbitrary: events) simp_all

lemma receive_follow: "receive_loop gone json True ends batches events = (fold (send_lines gone json) batches events, ends)"
  by (induction batches arbitrary: events) (simp_all add: Let_def)

text \<open>
  Without \<open>follow\<close> the logs of a service with several replicas are those of one replica: every
  allocation of the name is asked for its last lines, but the stream ends after the first answer,
  and the lines of the others are never sent although the client takes everything.
\<close>

theorem tail_shows_first_answer:
  assumes "stream_allocs s name \<noteq> []" "\<forall>n. \<not> gone n"
  shows "lo_events (stream_logs gone json is_closed tx (lines # batches) ends s subs name False n) = map (line_event json) lines
    \<and> lo_commands (stream_logs gone json is_closed tx (lines # batches) ends s subs name False n) =
        map (\<lambda>(i, node). (node, LogTail i n)) (stream_allocs s name)
    \<and> lo_returned (stream_logs gone json is_closed tx (lines # batches) ends s subs name False n)"
  using assms by (simp add: stream_logs_def Let_def send_lines_all)

lemma subscribed: "i \<in> set is \<Longrightarrow> \<exists>txs. hm_get (fold (add_subscriber tx) is subs) i = Some txs \<and> tx \<in> set txs"
proof (induction "is" arbitrary: subs)
  case (Cons j js)
  have "\<exists>txs. hm_get subs i = Some txs \<and> tx \<in> set txs \<Longrightarrow> \<exists>txs. hm_get (fold (add_subscriber tx) is subs) i = Some txs \<and> tx \<in> set txs"
    for "is" subs
    by (induction "is" arbitrary: subs) (auto simp: add_subscriber_def)
  moreover have "\<exists>txs. hm_get (add_subscriber tx j subs) j = Some txs \<and> tx \<in> set txs" by (auto simp: add_subscriber_def)
  ultimately show ?case using Cons by auto
qed simp

text \<open>
  A stream that follows outlives its client. While its channel is open it does not return, even if
  the client has left and takes no event; it never tells the nodes to stop following, and it stays
  in the table of subscribers.
\<close>

theorem follow_outlives_client:
  assumes "(i, node) \<in> set (stream_allocs s name)" "\<forall>n. gone n"
  shows "\<not> lo_returned (stream_logs gone json is_closed tx batches False s subs name True n)
    \<and> lo_events (stream_logs gone json is_closed tx batches False s subs name True n) = []
    \<and> (m, LogUnfollow j) \<notin> set (lo_commands (stream_logs gone json is_closed tx batches False s subs name True n))
    \<and> (\<exists>txs. hm_get (lo_subscribers (stream_logs gone json is_closed tx batches False s subs name True n)) i = Some txs
         \<and> tx \<in> set txs)"
proof -
  have ne: "stream_allocs s name \<noteq> []" using assms(1) by auto
  have "send_lines gone json lines events = events" for lines events using assms(2) by (cases lines) simp_all
  then have e: "fold (send_lines gone json) batches [] = []" by (induction batches) simp_all
  have f: "fold (\<lambda>(i, _). add_subscriber tx i) as m = fold (add_subscriber tx) (map fst as) m" for as :: "(alloc_id \<times> node_id) list" and m
    by (induction as arbitrary: m) auto
  have "i \<in> set (map fst (stream_allocs s name))" using assms(1) by force
  from subscribed [OF this] show ?thesis using ne
    by (auto simp: stream_logs_def Let_def receive_follow e f)
qed

definition line1 :: "string \<Rightarrow> log_line" where
  "line1 c = \<lparr> ll_timestamp = 0, ll_stream = Stdout, ll_content = c \<rparr>"

lemma web_stream: "stream_allocs web_state ''web'' = [(''a'', ''n''), (''b'', ''n'')]"
  by (simp add: stream_allocs_def web_state_def web_alloc_def)

theorem tail_shows_first_answer_witness:
  "lo_events (stream_logs (\<lambda>_. False) (\<lambda>ts stream line. line) (\<lambda>_. False) 0 [[line1 ''of a''], [line1 ''of b'']] False
     web_state [] ''web'' False 200) = [\<lparr> se_event = [], se_data = ''of a'' \<rparr>]"
  using tail_shows_first_answer [of web_state "''web''" "\<lambda>_. False" "\<lambda>ts stream line. line" "\<lambda>_. False" 0
      "[line1 ''of a'']" "[[line1 ''of b'']]" False "[]" 200]
  by (simp add: web_stream) (simp add: line_event_def line1_def)

theorem follow_outlives_client_witness:
  "\<not> lo_returned (stream_logs (\<lambda>_. True) (\<lambda>ts stream line. line) (\<lambda>_. False) 0 [[line1 ''of a''], [line1 ''of b'']] False
     web_state [] ''web'' True 200)"
  using follow_outlives_client [of "''a''" "''n''" web_state "''web''" "\<lambda>_. True"] by (simp add: web_stream)

end
