(* ===== verification/Handlers.thy ===== *)
theory Handlers
  imports Ops Store Validate Api
begin

text \<open>
  Handlers of the HTTP interface, \<^verbatim>\<open>crates/node/src/primary/api/handlers.rs\<close>: the joining of
  nodes, secrets, volumes, the removal of nodes and the views of the state. A handler answers with a
  value or with an HTTP status and a message.
\<close>

type_synonym api_error = "nat \<times> string"

section \<open>Proposals\<close>

definition api_propose :: "env \<Rightarrow> command \<Rightarrow> world \<Rightarrow> (api_error, nat) result \<times> world" where
  "api_propose env cmd w =
    (case propose env cmd w of
       (Inr ROk, w') \<Rightarrow> (Inr 204, w')
     | (_, w') \<Rightarrow> (Inl (500, ''raft proposal failed''), w'))"

text \<open>\<open>seal\<close> and \<open>unseal\<close> are the cipher, \<open>nonce\<close> the random nonce of the request.\<close>

definition set_secret ::
  "(bytes \<Rightarrow> bytes \<Rightarrow> bytes \<Rightarrow> (string, bytes) result) \<Rightarrow> bytes \<Rightarrow> bytes \<Rightarrow> env \<Rightarrow> string \<Rightarrow> string \<Rightarrow> world \<Rightarrow>
   (api_error, nat) result \<times> world" where
  "set_secret seal key nonce env name v w =
    (case key_encrypt seal key nonce (as_bytes v) of
       Inl _ \<Rightarrow> (Inl (500, ''encryption failed''), w)
     | Inr (encrypted_value, nonce) \<Rightarrow> api_propose env (SecretSet name encrypted_value nonce) w)"

text \<open>A nonce of the wrong length panics, and the request has no answer.\<close>

definition api_get_secret ::
  "(bytes \<Rightarrow> bytes \<Rightarrow> bytes \<Rightarrow> (string, bytes) result) \<Rightarrow> bytes \<Rightarrow> string \<Rightarrow> fsm_state \<Rightarrow>
   (api_error, string \<times> string) result option" where
  "api_get_secret unseal key name s =
    (case get_secret s name of
       None \<Rightarrow> Some (Inl (404, ''secret not found''))
     | Some secret \<Rightarrow>
        (case key_decrypt unseal key (es_encrypted_value secret) (es_nonce secret) of
           Panicked \<Rightarrow> None
         | DecryptFailed _ \<Rightarrow> Some (Inl (500, ''decryption failed''))
         | Done plaintext \<Rightarrow>
            Some (case from_utf8 plaintext of
                    Inl _ \<Rightarrow> Inl (500, ''decryption failed'')
                  | Inr v \<Rightarrow> Inr (name, v))))"

definition delete_secret :: "env \<Rightarrow> string \<Rightarrow> world \<Rightarrow> (api_error, nat) result \<times> world" where
  "delete_secret env name w =
    (if get_secret (w_fsm w) name = None then (Inl (404, ''secret not found''), w)
     else api_propose env (SecretDelete name) w)"

text \<open>\<open>driver\<close> says whether there are cloud volumes, and its result what destroying one gives.\<close>

definition delete_volume ::
  "(storage_error, unit) result option \<Rightarrow> env \<Rightarrow> string \<Rightarrow> world \<Rightarrow> (api_error, nat) result \<times> world" where
  "delete_volume driver env name w =
    (case map_option v_state (hm_get (f_volumes (w_fsm w)) name) of
       None \<Rightarrow> (Inl (404, ''volume not found''), w)
     | Some (VAttached _) \<Rightarrow> (Inl (409, ''volume is attached''), w)
     | Some VReady \<Rightarrow>
        (case driver of
           None \<Rightarrow> api_propose env (VolumeDestroyed name) w
         | Some (Inl e) \<Rightarrow> (Inl (500, ''cloud destroy failed: '' @ show_storage_error e), tick env [ADestroy name] w)
         | Some (Inr _) \<Rightarrow> api_propose env (VolumeDestroyed name) (tick env [ADestroy name] w)))"

definition delete_node :: "env \<Rightarrow> node_id \<Rightarrow> world \<Rightarrow> (api_error, nat) result \<times> world" where
  "delete_node env i w =
    (case raft_id_for (w_fsm w) i of
       None \<Rightarrow> (Inl (404, ''node not found''), w)
     | Some raft_id \<Rightarrow>
        (case remove_node env raft_id w of
           (Inr _, w') \<Rightarrow> (Inr 204, w')
         | (Inl (RaftRejected _), w') \<Rightarrow> (Inl (409, ''node has active allocations''), w')
         | (Inl _, w') \<Rightarrow> (Inl (500, ''internal error''), w')))"


section \<open>Joining\<close>

definition tunnel_candidates :: "ip_addr list" where
  "tunnel_candidates = map (\<lambda>i. V4 (0x0A630000 + word_of_nat i)) [1..<65534]"

definition allocate_tunnel_ip :: "ip_addr list \<Rightarrow> ip_addr option" where
  "allocate_tunnel_ip used = List.find (\<lambda>addr. addr \<notin> set used) tunnel_candidates"

record join_peer_info =
  jp_raft_id :: u64
  jp_endpoint :: string
  jp_tunnel_ip :: ip_addr
  jp_public_key :: string

record join_info_response =
  ji_subnet :: string
  ji_prefix_len :: nat
  ji_api_port :: u16
  ji_tunnel_ip :: ip_addr
  ji_next_raft_id :: u64
  ji_peers :: "join_peer_info list"

definition join_peer :: "fsm_node \<Rightarrow> join_peer_info" where
  "join_peer n = \<lparr> jp_raft_id = n_raft_id n,
     jp_endpoint = (case n_advertise_addr n of Some a \<Rightarrow> a @ '':51820'' | None \<Rightarrow> show_socket_addr (n_address n)),
     jp_tunnel_ip = sa_ip (n_address n),
     jp_public_key = (case n_wireguard_pubkey n of Some k \<Rightarrow> k | None \<Rightarrow> []) \<rparr>"

definition next_raft_id :: "fsm_state \<Rightarrow> u64" where
  "next_raft_id s = fold max (hm_keys (f_nodes s)) 0 + 1"

definition get_join_info :: "fsm_state \<Rightarrow> (api_error, join_info_response) result" where
  "get_join_info s =
    (let peers = map join_peer (hm_values (f_nodes s))
     in case allocate_tunnel_ip (map jp_tunnel_ip peers) of
          None \<Rightarrow> Inl (500, ''no tunnel IPs available'')
        | Some tunnel_ip \<Rightarrow>
           Inr \<lparr> ji_subnet = ''10.99.0.0/16'', ji_prefix_len = 16, ji_api_port = 4400, ji_tunnel_ip = tunnel_ip,
             ji_next_raft_id = next_raft_id s, ji_peers = peers \<rparr>)"

record join_request =
  jq_node_id :: node_id
  jq_raft_id :: u64
  jq_advertise_addr :: string
  jq_tunnel_ip :: ip_addr
  jq_public_key :: string
  jq_resources :: node_resources
  jq_instance_id :: "string option"
  jq_rpc_address :: "socket_addr option"

text \<open>
  What a join meets besides the state: whether the node has a tunnel and a table of peers, and the
  errors of the tunnel and of the consensus library. It leaves behind the table of peers and the
  memberships it asked for.
\<close>

record join_env =
  je_wireguard :: bool
  je_network :: bool
  je_add_peer :: "string option"
  je_add_learner :: "string option"
  je_membership :: "string option"

record join_side =
  js_peers :: peers
  js_memberships :: "u64 list list"

definition register_joined :: "env \<Rightarrow> join_request \<Rightarrow> world \<Rightarrow> (api_error, nat) result \<times> world" where
  "register_joined env q =
    api_propose env (NodeRegister (jq_raft_id q) (jq_node_id q) \<lparr> sa_ip = jq_tunnel_ip q, sa_port = 4400 \<rparr> (jq_resources q)
      (Some (jq_public_key q)) (jq_instance_id q) (jq_rpc_address q) (Some (jq_advertise_addr q)))"

definition enter_raft :: "join_env \<Rightarrow> env \<Rightarrow> join_request \<Rightarrow> join_side \<Rightarrow> world \<Rightarrow> (api_error, nat) result \<times> join_side \<times> world" where
  "enter_raft je env q js w =
    (let w = tick env [] w
     in case je_add_learner je of
          Some e \<Rightarrow> (Inl (500, ''add_learner: '' @ e), js, w)
        | None \<Rightarrow>
           (let js = js\<lparr> js_memberships := js_memberships js @ [hm_keys (f_nodes (w_fsm w)) @ [jq_raft_id q]] \<rparr>;
                w = tick env [] w
            in case je_membership je of
                 Some e \<Rightarrow> (Inl (500, ''change_membership: '' @ e), js, w)
               | None \<Rightarrow> (case register_joined env q w of (r, w) \<Rightarrow> (r, js, w))))"

definition post_join :: "join_env \<Rightarrow> env \<Rightarrow> join_request \<Rightarrow> join_side \<Rightarrow> world \<Rightarrow> (api_error, nat) result \<times> join_side \<times> world" where
  "post_join je env q js w =
    (let w = (if je_wireguard je then tick env [AAddPeer (jq_node_id q) (jq_public_key q)] w else w)
     in case (if je_wireguard je then je_add_peer je else None) of
          Some e \<Rightarrow> (Inl (500, ''wireguard add_peer: '' @ e), js, w)
        | None \<Rightarrow>
           enter_raft je env q
             (if je_network je then js\<lparr> js_peers := set_peer (jq_raft_id q) (''http://'' @ show_ip (jq_tunnel_ip q) @ '':4401'') (js_peers js) \<rparr>
              else js) w)"


section \<open>Views\<close>

record status_response =
  sr_node_count :: nat
  sr_service_count :: nat
  sr_task_count :: nat
  sr_cpu_total :: f64
  sr_cpu_available :: f64
  sr_memory_total_bytes :: u64
  sr_memory_available_bytes :: u64

definition add_node_status :: "fsm_state \<Rightarrow> u64 \<times> fsm_node \<Rightarrow> f64 \<times> f64 \<times> u64 \<times> u64 \<Rightarrow> f64 \<times> f64 \<times> u64 \<times> u64" where
  "add_node_status s x acc =
    (case (x, acc) of ((raft_id, node), (cpu_total, cpu_available, mem_total, mem_available)) \<Rightarrow>
       let cpu_total = f64_add cpu_total (nr_cpu_total (n_resources node));
           mem_total = mem_total + nr_memory_total (n_resources node)
       in case node_available_resources s raft_id of
            Some avail \<Rightarrow>
              (cpu_total, f64_add cpu_available (nr_cpu_available avail), mem_total, mem_available + nr_memory_available avail)
          | None \<Rightarrow> (cpu_total, cpu_available, mem_total, mem_available))"

definition get_status :: "fsm_state \<Rightarrow> status_response" where
  "get_status s =
    (case fold (add_node_status s) (f_nodes s) (Fin 0, Fin 0, 0, 0) of
       (cpu_total, cpu_available, mem_total, mem_available) \<Rightarrow>
         \<lparr> sr_node_count = length (f_nodes s),
           sr_service_count = (case f_config s of Some c \<Rightarrow> length (c_services c) | None \<Rightarrow> 0),
           sr_task_count = length (filter (\<lambda>a. al_kind a = KTask) (hm_values (f_allocs s))),
           sr_cpu_total = cpu_total, sr_cpu_available = cpu_available,
           sr_memory_total_bytes = mem_total, sr_memory_available_bytes = mem_available \<rparr>)"

record node_response =
  nd_id :: string
  nd_address :: string
  nd_status :: string
  nd_cpu_total :: f64
  nd_cpu_available :: f64
  nd_memory_total_bytes :: u64
  nd_memory_available_bytes :: u64
  nd_alloc_count :: nat

definition get_nodes :: "fsm_state \<Rightarrow> node_response list" where
  "get_nodes s =
    map (\<lambda>(raft_id, node).
      let avail = node_available_resources s raft_id;
          alloc_count = length (filter (\<lambda>a. al_node a = n_mill_id node \<and> \<not> is_terminal (al_status a)) (hm_values (f_allocs s)))
      in \<lparr> nd_id = n_mill_id node, nd_address = show_socket_addr (n_address node), nd_status = show_node_status (n_status node),
           nd_cpu_total = nr_cpu_total (n_resources node),
           nd_cpu_available = (case avail of Some a \<Rightarrow> nr_cpu_available a | None \<Rightarrow> Fin 0),
           nd_memory_total_bytes = nr_memory_total (n_resources node),
           nd_memory_available_bytes = (case avail of Some a \<Rightarrow> nr_memory_available a | None \<Rightarrow> 0),
           nd_alloc_count = alloc_count \<rparr>) (f_nodes s)"

record volume_response =
  vr_name :: string
  vr_state :: string
  vr_node :: "string option"
  vr_cloud_id :: string

definition get_volumes :: "fsm_state \<Rightarrow> volume_response list" where
  "get_volumes s =
    map (\<lambda>(name, vol). \<lparr> vr_name = name, vr_state = show_volume_state (v_state vol),
      vr_node = (case v_state vol of VAttached node \<Rightarrow> Some node | VReady \<Rightarrow> None), vr_cloud_id = v_cloud_id vol \<rparr>)
    (list_volumes s)"

record alloc_response =
  as_id :: string
  as_node :: string
  as_status :: string
  as_address :: "string option"
  as_cpu :: f64
  as_memory :: u64
  as_started_at :: "string option"

record service_response =
  sv_name :: string
  sv_image :: string
  sv_desired :: u32
  sv_healthy :: nat
  sv_allocations :: "alloc_response list"

definition alloc_response_of :: "alloc \<Rightarrow> alloc_response" where
  "alloc_response_of a = \<lparr> as_id = al_id a, as_node = al_node a, as_status = show_alloc_status (al_status a),
     as_address = map_option show_socket_addr (al_address a), as_cpu = ar_cpu (al_resources a),
     as_memory = ar_memory (al_resources a), as_started_at = map_option format_system_time (al_started_at a) \<rparr>"

definition get_services :: "fsm_state \<Rightarrow> service_response list" where
  "get_services s =
    (case f_config s of
       None \<Rightarrow> []
     | Some config \<Rightarrow>
        map (\<lambda>(name, d).
          let allocs = map alloc_response_of (filter (\<lambda>a. al_kind a = KService) (list_service_allocs s name));
              healthy = length (filter (\<lambda>a. as_status a = ''healthy'') allocs)
          in \<lparr> sv_name = name, sv_image = s_image d, sv_desired = s_replicas d, sv_healthy = healthy,
               sv_allocations = allocs \<rparr>) (c_services config))"

record task_response =
  tr_id :: string
  tr_name :: string
  tr_node :: string
  tr_status :: string
  tr_address :: "string option"
  tr_cpu :: f64
  tr_memory :: u64

definition task_response_of :: "alloc \<Rightarrow> task_response" where
  "task_response_of a = \<lparr> tr_id = al_id a, tr_name = al_name a, tr_node = al_node a,
     tr_status = show_alloc_status (al_status a), tr_address = map_option show_socket_addr (al_address a),
     tr_cpu = ar_cpu (al_resources a), tr_memory = ar_memory (al_resources a) \<rparr>"

definition get_tasks :: "fsm_state \<Rightarrow> task_response list" where
  "get_tasks s = map task_response_of (filter (\<lambda>a. al_kind a = KTask) (hm_values (f_allocs s)))"

definition get_task :: "fsm_state \<Rightarrow> string \<Rightarrow> (api_error, task_response) result" where
  "get_task s i =
    (case Option.bind (hm_get (f_allocs s) i) (\<lambda>a. if al_kind a \<noteq> KTask then None else Some (task_response_of a)) of
       Some r \<Rightarrow> Inr r
     | None \<Rightarrow> Inl (404, ''task not found''))"


section \<open>Operations behind a request\<close>

fun show_config_error :: "config_error \<Rightarrow> string" where
  "show_config_error (CParse m) = ''parse error: '' @ m"
| "show_config_error (InvalidField path message) = path @ '': '' @ message"
| "show_config_error (UnknownServiceRef path service) =
    path @ '': unknown service reference '' @ [CHR 0x27] @ service @ [CHR 0x27]"
| "show_config_error (Constraint path message) = path @ '': '' @ message"
| "show_config_error (Multiple errors) = join_with [CHR 0x0A] (map show_config_error errors)"

text \<open>The error of a deployment or a restart is the last event of its stream.\<close>

definition report_failure :: "env \<Rightarrow> (deploy_error, unit) result \<times> world \<Rightarrow> world" where
  "report_failure env x =
    (case x of
       (Inl e, w) \<Rightarrow> send_json_event env ''failed'' [(''reason'', JStr (show_deploy_error e))] w
     | (Inr _, w) \<Rightarrow> w)"

definition post_deploy ::
  "(string \<Rightarrow> (string, raw_config) result) \<Rightarrow> size_parser \<Rightarrow> duration_parser \<Rightarrow> deploy_ctx \<Rightarrow> env \<Rightarrow> string \<Rightarrow> world \<Rightarrow>
   (api_error, unit) result \<times> world" where
  "post_deploy hcl psize pdur cx env body w =
    (case parse_config hcl psize pdur body of
       Inl e \<Rightarrow> (Inl (400, ''invalid config: '' @ show_config_error e), w)
     | Inr config \<Rightarrow> (Inr (), report_failure env (run_deploy cx env config w)))"

definition post_restart :: "deploy_ctx \<Rightarrow> env \<Rightarrow> string \<Rightarrow> world \<Rightarrow> (api_error, unit) result \<times> world" where
  "post_restart cx env service w =
    (case f_config (w_fsm w) of
       Some c \<Rightarrow>
         if hm_has (c_services c) service then (Inr (), report_failure env (run_restart cx env service w))
         else (Inl (404, ''service not found''), w)
     | None \<Rightarrow> (Inl (404, ''service not found''), w))"

definition spawn_error :: "deploy_error \<Rightarrow> api_error" where
  "spawn_error e =
    (case e of
       SchedulingFailed _ _ \<Rightarrow> (503, ''no node with sufficient resources'')
     | DNode (BadRequest msg) \<Rightarrow> (400, msg)
     | DNode (ServiceNotFound _) \<Rightarrow> (404, ''task template not found'')
     | _ \<Rightarrow> (500, ''internal error''))"

definition post_spawn_task ::
  "size_parser \<Rightarrow> duration_parser \<Rightarrow> decryptor \<Rightarrow> env \<Rightarrow> spawn_task_request \<Rightarrow> live_metrics \<Rightarrow> world \<Rightarrow>
   (api_error, spawn_task_response \<times> duration option) result \<times> live_metrics \<times> world" where
  "post_spawn_task psize pdur decrypt env body metrics w =
    (case spawn_task psize pdur decrypt env body metrics w of (r, metrics, w) \<Rightarrow> (map_sum spawn_error id r, metrics, w))"

definition kill_error :: "deploy_error \<Rightarrow> api_error" where
  "kill_error e =
    (case e of
       DNode (AllocNotFound _) \<Rightarrow> (404, ''task not found'')
     | DNode (NotATask _) \<Rightarrow> (400, ''allocation is not a task'')
     | _ \<Rightarrow> (500, ''internal error''))"

definition delete_task :: "env \<Rightarrow> string \<Rightarrow> world \<Rightarrow> (api_error, nat) result \<times> world" where
  "delete_task env i w = (case kill_task env i w of (r, w) \<Rightarrow> (map_sum kill_error (\<lambda>_. 204) r, w))"

definition post_drain :: "deploy_ctx \<Rightarrow> env \<Rightarrow> node_id \<Rightarrow> world \<Rightarrow> (api_error, unit) result \<times> world" where
  "post_drain cx env i w =
    (case raft_id_for (w_fsm w) i of
       None \<Rightarrow> (Inl (404, ''node not found''), w)
     | Some raft_id \<Rightarrow> (Inr (), snd (drain_node cx env raft_id w)))"


section \<open>The router\<close>

text \<open>
  The requests, apart from the metrics and the logs: those that only read are served by every node,
  the others by the leader.
\<close>

datatype api_request =
    GetStatus | GetNodes | GetServices | GetTasks | GetTask string | ListSecrets | GetSecret string | GetVolumes
  | GetJoinInfo | GetClusterKey
  | PostDeploy string | PostRestart string | PostSpawnTask spawn_task_request | DeleteTask string
  | PutSecret string string | DeleteSecret string | DeleteVolume string | PostDrain node_id | DeleteNode node_id
  | PostJoin join_request

fun is_write :: "api_request \<Rightarrow> bool" where
  "is_write (PostDeploy _) = True"
| "is_write (PostRestart _) = True"
| "is_write (PostSpawnTask _) = True"
| "is_write (DeleteTask _) = True"
| "is_write (PutSecret _ _) = True"
| "is_write (DeleteSecret _) = True"
| "is_write (DeleteVolume _) = True"
| "is_write (PostDrain _) = True"
| "is_write (DeleteNode _) = True"
| "is_write (PostJoin _) = True"
| "is_write _ = False"

datatype api_response =
    Failure nat string | NoAnswer | Code nat | Location string | Streamed
  | BStatus status_response | BNodes "node_response list" | BServices "service_response list"
  | BTasks "task_response list" | BTask task_response | BSecrets "string list" | BSecret string string
  | BVolumes "volume_response list" | BJoinInfo join_info_response | BKey bytes | BSpawned spawn_task_response

record api_ctx =
  ac_auth_token :: string
  ac_ct_eq :: "string \<Rightarrow> string \<Rightarrow> bool"
  ac_linearizable :: bool
  ac_leader :: "u64 option"
  ac_valid :: "string \<Rightarrow> bool"
  ac_seal :: "bytes \<Rightarrow> bytes \<Rightarrow> bytes \<Rightarrow> (string, bytes) result"
  ac_unseal :: "bytes \<Rightarrow> bytes \<Rightarrow> bytes \<Rightarrow> (string, bytes) result"
  ac_key :: bytes
  ac_nonce :: bytes
  ac_hcl :: "string \<Rightarrow> (string, raw_config) result"
  ac_psize :: size_parser
  ac_pdur :: duration_parser
  ac_deploy :: deploy_ctx
  ac_destroy :: "(storage_error, unit) result option"
  ac_join :: join_env

record app =
  ap_world :: world
  ap_metrics :: live_metrics
  ap_join :: join_side
  ap_timers :: "(alloc_id \<times> duration) list"

definition answer :: "('a \<Rightarrow> api_response) \<Rightarrow> (api_error, 'a) result \<Rightarrow> api_response" where
  "answer f r = (case r of Inl (code, msg) \<Rightarrow> Failure code msg | Inr a \<Rightarrow> f a)"

definition on_world :: "('a \<Rightarrow> api_response) \<Rightarrow> (api_error, 'a) result \<times> world \<Rightarrow> app \<Rightarrow> api_response \<times> app" where
  "on_world f x ap = (answer f (fst x), ap\<lparr> ap_world := snd x \<rparr>)"

definition handle_read :: "api_ctx \<Rightarrow> api_request \<Rightarrow> fsm_state \<Rightarrow> api_response" where
  "handle_read ac req s =
    (case req of
       GetStatus \<Rightarrow> BStatus (get_status s)
     | GetNodes \<Rightarrow> BNodes (get_nodes s)
     | GetServices \<Rightarrow> BServices (get_services s)
     | GetTasks \<Rightarrow> BTasks (get_tasks s)
     | GetTask i \<Rightarrow> answer BTask (get_task s i)
     | ListSecrets \<Rightarrow> BSecrets (list_secret_names s)
     | GetSecret name \<Rightarrow>
         (case api_get_secret (ac_unseal ac) (ac_key ac) name s of
            None \<Rightarrow> NoAnswer
          | Some r \<Rightarrow> answer (\<lambda>(name, v). BSecret name v) r)
     | GetVolumes \<Rightarrow> BVolumes (get_volumes s)
     | GetJoinInfo \<Rightarrow> answer BJoinInfo (get_join_info s)
     | GetClusterKey \<Rightarrow> BKey (ac_key ac)
     | _ \<Rightarrow> Failure 404 [])"

definition handle_write :: "api_ctx \<Rightarrow> env \<Rightarrow> api_request \<Rightarrow> app \<Rightarrow> api_response \<times> app" where
  "handle_write ac env req ap =
    (let w = ap_world ap
     in case req of
          PostDeploy body \<Rightarrow>
            on_world (\<lambda>_. Streamed) (post_deploy (ac_hcl ac) (ac_psize ac) (ac_pdur ac) (ac_deploy ac) env body w) ap
        | PostRestart service \<Rightarrow> on_world (\<lambda>_. Streamed) (post_restart (ac_deploy ac) env service w) ap
        | PostSpawnTask body \<Rightarrow>
            (case post_spawn_task (ac_psize ac) (ac_pdur ac) (cx_decrypt (ac_deploy ac)) env body (ap_metrics ap) w of
               (r, metrics, w) \<Rightarrow>
                 (answer (\<lambda>(resp, _). BSpawned resp) r,
                  ap\<lparr> ap_world := w, ap_metrics := metrics,
                      ap_timers := ap_timers ap @ (case r of Inr (resp, Some t) \<Rightarrow> [(sr_id resp, t)] | _ \<Rightarrow> []) \<rparr>))
        | DeleteTask i \<Rightarrow> on_world Code (delete_task env i w) ap
        | PutSecret name v \<Rightarrow> on_world Code (set_secret (ac_seal ac) (ac_key ac) (ac_nonce ac) env name v w) ap
        | DeleteSecret name \<Rightarrow> on_world Code (delete_secret env name w) ap
        | DeleteVolume name \<Rightarrow> on_world Code (delete_volume (ac_destroy ac) env name w) ap
        | PostDrain i \<Rightarrow> on_world (\<lambda>_. Streamed) (post_drain (ac_deploy ac) env i w) ap
        | DeleteNode i \<Rightarrow> on_world Code (delete_node env i w) ap
        | PostJoin q \<Rightarrow>
            (case post_join (ac_join ac) env q (ap_join ap) w of
               (r, js, w) \<Rightarrow> (answer Code r, ap\<lparr> ap_world := w, ap_join := js \<rparr>))
        | _ \<Rightarrow> (handle_read ac req (w_fsm w), ap))"

definition serve_api :: "api_ctx \<Rightarrow> env \<Rightarrow> string option \<Rightarrow> string option \<Rightarrow> api_request \<Rightarrow> app \<Rightarrow> api_response \<times> app" where
  "serve_api ac env header path_and_query req ap =
    (case require_auth (ac_ct_eq ac) (ac_auth_token ac) header of
       Inl code \<Rightarrow> (Failure code [], ap)
     | Inr _ \<Rightarrow>
        if \<not> is_write req then (handle_read ac req (w_fsm (ap_world ap)), ap)
        else case require_leader (ac_linearizable ac) (ac_leader ac) (ac_valid ac) (w_fsm (ap_world ap)) path_and_query of
               Proceed \<Rightarrow> handle_write ac env req ap
             | RedirectTo location \<Rightarrow> (Location location, ap)
             | Status code \<Rightarrow> (Failure code [], ap))"


section \<open>Addresses and identifiers of new nodes\<close>

lemma fold_max_ge: "k \<in> set ks \<or> k \<le> (m::'a::linorder) \<Longrightarrow> k \<le> fold max ks m"
proof (induction ks arbitrary: m)
  case (Cons j ks)
  show ?case using Cons.prems Cons.IH [of "max j m"] by (auto simp: le_max_iff_disj)
qed simp

lemma next_raft_id_fresh:
  assumes "fold max (hm_keys (f_nodes s)) 0 \<noteq> - 1"
  shows "hm_get (f_nodes s) (next_raft_id s) = None"
proof -
  let ?m = "fold max (hm_keys (f_nodes s)) 0"
  have "1 + ?m \<noteq> 0" using assms by (metis add.commute eq_neg_iff_add_eq_0)
  then have "?m < ?m + 1" by (simp add: word_less_nat_alt unatSuc add.commute)
  moreover have "k \<le> ?m" if "k \<in> set (hm_keys (f_nodes s))" for k using that by (simp add: fold_max_ge)
  ultimately have "next_raft_id s \<notin> set (hm_keys (f_nodes s))" unfolding next_raft_id_def by force
  then show ?thesis by (simp add: map_of_eq_None_iff)
qed

text \<open>
  A new node gets the lowest free address of the tunnel: it is in the range from 10.99.0.1 to
  10.99.255.253, no node uses it, and every lower one is in use. There is none exactly when the
  whole range is in use.
\<close>

theorem tunnel_ip_lowest_free:
  "case allocate_tunnel_ip used of
     None \<Rightarrow> set tunnel_candidates \<subseteq> set used
   | Some a \<Rightarrow> a \<notin> set used \<and> (\<exists>i. 1 \<le> i \<and> i < 65534 \<and> a = V4 (0x0A630000 + word_of_nat i)
       \<and> (\<forall>j\<in>{1..<i}. V4 (0x0A630000 + word_of_nat j) \<in> set used))"
proof (cases "allocate_tunnel_ip used")
  case None
  then have "set tunnel_candidates \<subseteq> set used" by (auto simp: allocate_tunnel_ip_def find_None_iff)
  then show ?thesis by (simp add: None)
next
  case (Some a)
  then obtain n where n: "n < length tunnel_candidates" "a = tunnel_candidates ! n" "a \<notin> set used"
    and lower: "\<forall>j<n. tunnel_candidates ! j \<in> set used"
    by (auto simp: allocate_tunnel_ip_def find_Some_iff)
  have l: "length tunnel_candidates = 65533" by (simp add: tunnel_candidates_def)
  have nth: "tunnel_candidates ! j = V4 (0x0A630000 + word_of_nat (Suc j))" if "j < 65533" for j
    using that by (simp add: tunnel_candidates_def)
  have "V4 (0x0A630000 + word_of_nat j) \<in> set used" if j: "j \<in> {1..<Suc n}" for j
  proof -
    obtain k where k: "j = Suc k" "k < n" using j by (cases j) auto
    have "tunnel_candidates ! k \<in> set used" using lower k(2) by blast
    then show ?thesis using nth [of k] k n(1) l by simp
  qed
  then show ?thesis using Some n nth [of n] l by (auto intro!: exI [of _ "Suc n"])
qed

lemma first_tunnel_ip: "allocate_tunnel_ip [] = Some (V4 0x0A630001)"
proof -
  have c: "tunnel_candidates = V4 0x0A630001 # map (\<lambda>i. V4 (0x0A630000 + word_of_nat i)) [Suc 1..<65534]"
    unfolding tunnel_candidates_def by (subst upt_conv_Cons) simp_all
  show ?thesis unfolding allocate_tunnel_ip_def c by simp
qed

theorem tunnel_ip_lowest_free_witness: "\<exists>i. 1 \<le> i \<and> i < (65534 :: nat) \<and> V4 0x0A630001 = V4 (0x0A630000 + word_of_nat i)"
  using tunnel_ip_lowest_free [of "[]"] by (auto simp: first_tunnel_ip)



section \<open>Joins\<close>

lemma allocate_tunnel_ip_unused: "allocate_tunnel_ip used = Some a \<Longrightarrow> a \<notin> set used"
  by (auto simp: allocate_tunnel_ip_def find_Some_iff)

definition joined_node :: "join_request \<Rightarrow> fsm_node" where
  "joined_node q = \<lparr> n_raft_id = jq_raft_id q, n_mill_id = jq_node_id q, n_address = \<lparr> sa_ip = jq_tunnel_ip q, sa_port = 4400 \<rparr>,
     n_resources = jq_resources q, n_status = NReady, n_wireguard_pubkey = Some (jq_public_key q),
     n_instance_id = jq_instance_id q, n_rpc_address = jq_rpc_address q, n_advertise_addr = Some (jq_advertise_addr q) \<rparr>"

definition join_ok :: "join_env \<Rightarrow> bool" where
  "join_ok je \<longleftrightarrow> je_add_peer je = None \<and> je_add_learner je = None \<and> je_membership je = None"

lemma post_join_state:
  assumes "undisturbed env" "join_ok je" "post_join je env q js w = (r, js', w')"
  shows "r = Inr 204" "w_fsm w' = (w_fsm w)\<lparr> f_nodes := hm_insert (jq_raft_id q) (joined_node q) (f_nodes (w_fsm w)) \<rparr>"
  using assms undisturbed_others [OF assms(1)]
  by (auto simp: post_join_def enter_raft_def register_joined_def api_propose_def Let_def join_ok_def joined_node_def
      undisturbed_propose [OF assms(1)] split: if_splits)

text \<open>
  (C14) A node that joins with the information it was given for the present state replaces nobody, as long
  as identifiers last and nothing else happens: every other node keeps its entry, and the
  new one is registered under an identifier and an address that no node had.
\<close>

theorem join_adds_node:
  assumes "get_join_info (w_fsm w) = Inr ji" "jq_raft_id q = ji_next_raft_id ji" "jq_tunnel_ip q = ji_tunnel_ip ji"
    and "fold max (hm_keys (f_nodes (w_fsm w))) 0 \<noteq> - 1"
    and "undisturbed env" "join_ok je" "post_join je env q js w = (r, js', w')"
  shows "r = Inr 204 \<and> hm_get (f_nodes (w_fsm w)) (jq_raft_id q) = None
    \<and> hm_get (f_nodes (w_fsm w')) = (hm_get (f_nodes (w_fsm w)))(jq_raft_id q \<mapsto> joined_node q)
    \<and> jq_tunnel_ip q \<notin> (\<lambda>n. sa_ip (n_address n)) ` set (hm_values (f_nodes (w_fsm w)))"
proof -
  have i: "jq_raft_id q = next_raft_id (w_fsm w)"
    and a: "allocate_tunnel_ip (map jp_tunnel_ip (map join_peer (hm_values (f_nodes (w_fsm w))))) = Some (jq_tunnel_ip q)"
    using assms(1-3) by (auto simp: get_join_info_def Let_def split: option.splits)
  have "jq_tunnel_ip q \<notin> set (map jp_tunnel_ip (map join_peer (hm_values (f_nodes (w_fsm w)))))"
    using a by (rule allocate_tunnel_ip_unused)
  then have "jq_tunnel_ip q \<notin> (\<lambda>n. sa_ip (n_address n)) ` set (hm_values (f_nodes (w_fsm w)))"
    by (simp add: join_peer_def image_image)
  then show ?thesis using post_join_state [OF assms(5-7)] next_raft_id_fresh [OF assms(4)] i
    by (simp add: fun_eq_iff)
qed

text \<open>
  (C37) Two nodes that ask before either has joined are given the same identifier and address. Both
  joins succeed, and the second replaces the first, which is registered nowhere any more.
\<close>

theorem concurrent_joins_collide:
  assumes "get_join_info (w_fsm w) = Inr ji"
    and "jq_raft_id p = ji_next_raft_id ji" "jq_raft_id q = ji_next_raft_id ji" "jq_node_id p \<noteq> jq_node_id q"
    and "\<forall>n\<in>set (hm_values (f_nodes (w_fsm w))). n_mill_id n \<noteq> jq_node_id p"
    and "undisturbed env" "join_ok je" "hm_wf (f_nodes (w_fsm w))"
    and "post_join je env p js w = (r, js', w')" "post_join je env q js' w' = (r', js'', w'')"
  shows "r = Inr 204 \<and> r' = Inr 204 \<and> raft_id_for (w_fsm w'') (jq_node_id p) = None
    \<and> hm_get (f_nodes (w_fsm w'')) (ji_next_raft_id ji) = Some (joined_node q)"
proof -
  let ?i = "ji_next_raft_id ji"
  note p = post_join_state [OF assms(6,7,9)] and q = post_join_state [OF assms(6,7,10)]
  have f: "f_nodes (w_fsm w'') = hm_insert ?i (joined_node q) (hm_insert ?i (joined_node p) (f_nodes (w_fsm w)))"
    by (simp add: p(2) q(2) assms(2,3))
  have wf: "hm_wf (f_nodes (w_fsm w''))" unfolding f by (intro hm_wf_insert assms(8))
  have "n_mill_id n \<noteq> jq_node_id p" if n: "n \<in> set (hm_values (f_nodes (w_fsm w'')))" for n
  proof -
    from n obtain i where "(i, n) \<in> set (f_nodes (w_fsm w''))" by auto
    then have "hm_get (f_nodes (w_fsm w'')) i = Some n" using hm_set_get [OF wf] by blast
    then have "n = joined_node q \<or> hm_get (f_nodes (w_fsm w)) i = Some n" by (simp add: f split: if_splits)
    then show ?thesis
    proof
      assume "n = joined_node q"
      then show ?thesis using assms(4) by (simp add: joined_node_def)
    next
      assume "hm_get (f_nodes (w_fsm w)) i = Some n"
      then have "n \<in> set (hm_values (f_nodes (w_fsm w)))" by (force dest: map_of_SomeD)
      then show ?thesis using assms(5) by blast
    qed
  qed
  then have "List.find (\<lambda>n. n_mill_id n = jq_node_id p) (hm_values (f_nodes (w_fsm w''))) = None"
    by (auto simp: find_None_iff)
  then have "raft_id_for (w_fsm w'') (jq_node_id p) = None" by (simp add: raft_id_for_def)
  then show ?thesis using p(1) q(1) f by simp
qed


definition join1 :: "node_id \<Rightarrow> join_request" where
  "join1 n = \<lparr> jq_node_id = n, jq_raft_id = 1, jq_advertise_addr = ''192.0.2.7'', jq_tunnel_ip = V4 0x0A630001,
     jq_public_key = ''key'', jq_resources = n_resources node1, jq_instance_id = None, jq_rpc_address = None \<rparr>"

definition join_env1 :: join_env where
  "join_env1 = \<lparr> je_wireguard = True, je_network = True, je_add_peer = None, je_add_learner = None, je_membership = None \<rparr>"

definition join_side1 :: join_side where
  "join_side1 = \<lparr> js_peers = [], js_memberships = [] \<rparr>"

lemma first_join_info:
  "get_join_info fsm_default = Inr \<lparr> ji_subnet = ''10.99.0.0/16'', ji_prefix_len = 16, ji_api_port = 4400,
     ji_tunnel_ip = V4 0x0A630001, ji_next_raft_id = 1, ji_peers = [] \<rparr>"
  by (simp add: get_join_info_def fsm_default_def first_tunnel_ip next_raft_id_def)

lemma join_scenario: "undisturbed (calm [])" "join_ok join_env1"
  by (simp_all add: undisturbed_def calm_def join_ok_def join_env1_def)

theorem join_adds_node_witness:
  "\<exists>r js w'. post_join join_env1 (calm []) (join1 ''n1'') join_side1 (world_of fsm_default) = (r, js, w') \<and> r = Inr 204
    \<and> hm_get (f_nodes (w_fsm w')) 1 = Some (joined_node (join1 ''n1''))"
proof -
  obtain r js w' where p: "post_join join_env1 (calm []) (join1 ''n1'') join_side1 (world_of fsm_default) = (r, js, w')"
    by (metis prod_cases3)
  have i: "get_join_info (w_fsm (world_of fsm_default)) = get_join_info fsm_default"
    "fold max (hm_keys (f_nodes (w_fsm (world_of fsm_default)))) 0 \<noteq> - 1"
    by (simp_all add: world_of_def fsm_default_def)
  show ?thesis
    using join_adds_node [OF i(1) [unfolded first_join_info] _ _ i(2) join_scenario p] p by (simp add: join1_def)
qed

theorem concurrent_joins_collide_witness:
  "\<exists>js w' r' js'' w''. post_join join_env1 (calm []) (join1 ''n1'') join_side1 (world_of fsm_default) = (Inr 204, js, w')
    \<and> post_join join_env1 (calm []) (join1 ''n2'') js w' = (r', js'', w'') \<and> r' = Inr 204
    \<and> raft_id_for (w_fsm w'') ''n1'' = None"
proof -
  obtain r js w' where p: "post_join join_env1 (calm []) (join1 ''n1'') join_side1 (world_of fsm_default) = (r, js, w')"
    by (metis prod_cases3)
  obtain r' js'' w'' where q: "post_join join_env1 (calm []) (join1 ''n2'') js w' = (r', js'', w'')"
    by (metis prod_cases3)
  have i: "get_join_info (w_fsm (world_of fsm_default)) = get_join_info fsm_default"
    "hm_values (f_nodes (w_fsm (world_of fsm_default))) = []" "hm_wf (f_nodes (w_fsm (world_of fsm_default)))"
    by (simp_all add: world_of_def fsm_default_def)
  show ?thesis
    using concurrent_joins_collide [OF i(1) [unfolded first_join_info] _ _ _ _ join_scenario i(3) p q] p q i(2)
    by (simp add: join1_def)
qed


section \<open>Secrets\<close>

text \<open>
  (C15) What a client stores as a secret is what a client reads: when the cipher decrypts what it
  encrypted, on nonces of 12 bytes, a value that is text comes back from the state that
  the request left, and so it does after any commands that do not touch the secret.
\<close>

theorem secret_roundtrip:
  assumes "\<forall>p. case seal key nonce p of Inr c \<Rightarrow> unseal key nonce c = Inr p | Inl _ \<Rightarrow> True"
    and "length nonce = 12" "from_utf8 (as_bytes v) = Inr v"
    and "set_secret seal key nonce env name v w = (Inr code, w')"
    and "get_secret s name = get_secret (w_fsm w') name"
  shows "code = 204 \<and> api_get_secret unseal key name s = Some (Inr (name, v))"
proof -
  obtain c where c: "seal key nonce (as_bytes v) = Inr c"
    using assms(4) by (cases "seal key nonce (as_bytes v)") (auto simp: set_secret_def key_encrypt_def)
  then have u: "unseal key nonce c = Inr (as_bytes v)" using assms(1) by (auto split: sum.splits)
  have p: "api_propose env (SecretSet name c nonce) w = (Inr code, w')"
    using assms(4) by (simp add: set_secret_def key_encrypt_def c)
  then have "code = 204" "get_secret (w_fsm w') name = Some \<lparr> es_encrypted_value = c, es_nonce = nonce \<rparr>"
    by (auto simp: api_propose_def propose_eq get_secret_def split: option.splits if_splits response.splits)
  then show ?thesis using assms(2,3,5) u by (simp add: api_get_secret_def key_decrypt_def)
qed

theorem secret_roundtrip_witness:
  "\<exists>w'. set_secret (\<lambda>_ _ p. Inr (rev p)) [] (replicate 12 0) (calm []) ''k'' ''hi'' (world_of fsm_default) = (Inr 204, w')
    \<and> api_get_secret (\<lambda>_ _ c. Inr (rev c)) [] ''k'' (w_fsm w') = Some (Inr (''k'', ''hi''))"
proof -
  let ?seal = "\<lambda>_ _ p. Inr (rev p) :: (string, bytes) result"
  obtain w' where w: "set_secret ?seal [] (replicate 12 0) (calm []) ''k'' ''hi'' (world_of fsm_default) = (Inr 204, w')"
    by (simp add: set_secret_def key_encrypt_def api_propose_def calm_simps)
  have "from_utf8 (as_bytes ''hi'') = Inr ''hi''" by (simp add: from_utf8_def utf8_width_def char_of_def as_bytes_def bit_iff_odd)
  then show ?thesis using secret_roundtrip [of ?seal "[]" "replicate 12 0" ?seal, OF _ _ _ w refl] w by simp
qed


section \<open>Volumes\<close>

text \<open>
  (C38) Deleting a volume looks at its state before the provider destroys it and not
  afterwards: when a volume is attached to a node while the provider works, the request succeeds
  all the same, and the state forgets a volume that a node has attached.
\<close>

theorem delete_volume_race:
  assumes "hm_get (f_volumes (w_fsm w)) name = Some v" "v_state v = VReady" "hm_get (f_nodes (w_fsm w)) k = Some n"
    and "oc_others (env (w_clock w)) = [VolumeAttached name k]" "oc_others (env (Suc (w_clock w))) = []"
    and "oc_raft_error (env (Suc (w_clock w))) = None"
    and "delete_volume (Some (Inr ())) env name w = (r, w')"
  shows "map_option v_state (hm_get (f_volumes (w_fsm (tick env [ADestroy name] w))) name) = Some (VAttached (n_mill_id n))
    \<and> r = Inr 204 \<and> hm_get (f_volumes (w_fsm w')) name = None"
proof -
  have a: "hm_get (f_volumes (w_fsm (tick env [ADestroy name] w))) name = Some (v\<lparr> v_state := VAttached (n_mill_id n) \<rparr>)"
    by (simp add: now_outcome_def assms apply_all_def)
  have "r = Inr 204" "w_fsm w' = (w_fsm (tick env [ADestroy name] w))\<lparr> f_volumes := hm_remove name (f_volumes (w_fsm (tick env [ADestroy name] w))) \<rparr>"
    using assms(7) by (auto simp: delete_volume_def assms(1,2,5,6) api_propose_def propose_eq now_outcome_def)
  then show ?thesis using a by simp
qed

definition racing :: env where
  "racing k = (calm [] k)\<lparr> oc_others := (if k = 0 then [VolumeAttached ''data'' 1] else []) \<rparr>"

definition volume_world :: world where
  "volume_world = world_of (fsm_default\<lparr> f_nodes := [(1, node1)], f_volumes := [(''data'', \<lparr> v_cloud_id = ''vol'', v_state = VReady \<rparr>)] \<rparr>)"

theorem delete_volume_race_witness:
  "\<exists>r w'. delete_volume (Some (Inr ())) racing ''data'' volume_world = (r, w') \<and> r = Inr 204
    \<and> map_option v_state (hm_get (f_volumes (w_fsm (tick racing [ADestroy ''data''] volume_world))) ''data'') = Some (VAttached ''n1'')"
proof -
  obtain r w' where d: "delete_volume (Some (Inr ())) racing ''data'' volume_world = (r, w')" by force
  show ?thesis
    using delete_volume_race [OF _ _ _ _ _ _ d, of "\<lparr> v_cloud_id = ''vol'', v_state = VReady \<rparr>" 1 node1] d
    by (simp add: volume_world_def racing_def world_of_def node1_def calm_def)
qed


section \<open>Requests\<close>

lemma does_any: "does P m \<Longrightarrow> does (\<lambda>_. True) m"
  by (erule does_mono) simp

lemmas evolves_step = evolves_any [OF evolves_call [OF does_any]]

lemma evolves_json [intro]: "evolves (\<lambda>_. True) w (send_json_event env e d w)"
  by (rule evolves_event) simp

lemma evolves_api_propose: "evolves (\<lambda>_. True) w (snd (api_propose env c w))"
proof -
  have "snd (api_propose env c w) = snd (propose env c w)"
    by (auto simp: api_propose_def split: prod.split sum.split response.split)
  then show ?thesis by (simp add: evolves_call does)
qed

lemma evolves_try_services:
  assumes "\<And>name d. does (\<lambda>_. True) (f name d)"
  shows "evolves (\<lambda>_. True) w (snd (try_services env f xs b w))"
proof (induction xs arbitrary: b w)
  case (Cons x xs)
  obtain name d where x: "x = (name, d)" by (cases x)
  obtain r w1 where r: "f name d w = (r, w1)" by force
  have "evolves (\<lambda>_. True) w w1" by (rule doesD [OF assms r])
  note this [THEN evolves_trans, OF evolves_trans [OF evolves_json Cons]] this [THEN evolves_trans, OF Cons]
  then show ?case by (simp add: x r split: sum.split)
qed simp

lemma does_roll_out: "does (\<lambda>_. True) (roll_out cx env old plan)"
  unfolding roll_out_def
proof (intro does_and_then does_for_each does_any [OF does_stop_service] doesI, goal_cases)
  case (1 u w)
  obtain b w1 where b: "try_services env (deploy_service cx env) (dp_added plan) False w = (b, w1)" by force
  obtain c w2 where c: "try_services env (rolling_update cx env) (dp_changed plan) b w1 = (c, w2)" by force
  have "evolves (\<lambda>_. True) w w1" "evolves (\<lambda>_. True) w1 w2"
    using evolves_try_services [of "deploy_service cx env" w env "dp_added plan" False]
      evolves_try_services [of "rolling_update cx env" w1 env "dp_changed plan" b] does_any [OF does_deploy_service]
      does_any [OF does_rolling_update] by (simp_all add: b c)
  then have e: "evolves (\<lambda>_. True) w w2" by (rule evolves_trans)
  have "evolves (\<lambda>_. True) w2 (case old of Some old \<Rightarrow> if c then ignored (propose env (Deploy old)) w2 else w2 | None \<Rightarrow> w2)"
    by (auto split: option.split intro!: evolves_ignored does)
  then show ?case using e evolves_json by (auto simp: b c Let_def intro: evolves_trans)
qed

lemma evolves_run_deploy: "evolves (\<lambda>_. True) w (snd (run_deploy cx env c w))"
  unfolding run_deploy_def Let_def
  by (rule evolves_call) (intro does does_roll_out evolves_any [OF evolves_eager_pull] evolves_json TrueI)

lemma does_run_restart: "does (\<lambda>_. True) (run_restart cx env name)"
  unfolding run_restart_def by (intro does does_any [OF does_rolling_update] evolves_json)

lemma evolves_drain: "evolves (\<lambda>_. True) w (snd (drain_node cx env k w))"
proof -
  have f: "evolves (\<lambda>_. True) w (fold (drain_alloc cx env m) xs w)" for m xs w
    by (induction xs arbitrary: w) (auto intro: evolves_trans evolves_drain_alloc)
  show ?thesis unfolding drain_node_def
    by (rule evolves_call) (intro does evolves_json TrueI evolves_any [OF evolves_detach_all]; simp add: f split: prod.split)
qed

lemma evolves_spawn_task: "evolves (\<lambda>_. True) w (snd (snd (spawn_task psize pdur decrypt env q m w)))"
proof -
  obtain a w1 where a: "resolve_task_request psize env q w = (a, w1)" by force
  have e1: "evolves (\<lambda>_. True) w w1" using a
    by (auto simp: resolve_task_request_def split: option.splits sum.splits prod.splits intro: doesD [OF does_draw])
  obtain sfx w2 where d: "draw_suffix env w1 = (sfx, w2)" by force
  have e2: "evolves (\<lambda>_. True) w w2" using e1 doesD [OF does_draw d] by (rule evolves_trans)
  have pl: "does (\<lambda>_. True) (place_task env plan i)" for plan i
    unfolding place_task_def by (intro does) (auto simp: does_def)
  have la: "does (\<lambda>_. True) (launch_task decrypt env plan t defs i n)" for plan t defs i n
    unfolding launch_task_def by (intro does TrueI)
  have e3: "evolves (\<lambda>_. True) w w3" if "place_task env plan i w2 = (r, w3)" for plan i r w3
    by (rule evolves_trans [OF e2 doesD [OF pl that]])
  have e4: "evolves (\<lambda>_. True) w w4"
    if "place_task env plan i w2 = (r, w3)" "launch_task decrypt env plan t defs i n w3 = (r', w4)" for plan i r w3 t defs n r' w4
    by (rule evolves_trans [OF e3 [OF that(1)] doesD [OF la that(2)]])
  show ?thesis using e1 e2 e3 e4 by (auto simp: spawn_task_def a d Let_def split: sum.split prod.split)
qed

lemma evolves_kill_task: "evolves (\<lambda>_. True) w (snd (kill_task env i w))"
  by (auto simp: kill_task_def split: option.split bool.split intro!: evolves_call does)

lemma evolves_report_failure: "evolves (\<lambda>_. True) w (snd x) \<Longrightarrow> evolves (\<lambda>_. True) w (report_failure env x)"
  by (cases x) (auto simp: report_failure_def split: sum.split intro: evolves_trans)

lemma evolves_set_secret: "evolves (\<lambda>_. True) w (snd (set_secret seal key nonce env name v w))"
  by (auto simp: set_secret_def split: sum.split intro: evolves_api_propose)

lemma evolves_delete_volume: "evolves (\<lambda>_. True) w (snd (delete_volume driver env name w))"
proof -
  have t: "evolves (\<lambda>_. True) w (tick env [ADestroy name] w)" by (rule evolves_tick) simp
  show ?thesis
    by (auto simp: delete_volume_def split: option.split volume_state.split sum.split
      intro: t evolves_api_propose evolves_trans [OF t evolves_api_propose])
qed

lemma evolves_delete_node: "evolves (\<lambda>_. True) w (snd (delete_node env i w))"
proof (cases "raft_id_for (w_fsm w) i")
  case (Some k)
  obtain r w' where r: "remove_node env k w = (r, w')" by force
  have "evolves (\<lambda>_. True) w w'" using r unfolding remove_node_def by (rule doesD [rotated]) (intro does TrueI)
  then show ?thesis by (simp add: delete_node_def Some r split: sum.split node_error.split)
qed (simp add: delete_node_def)

lemma evolves_post_join: "evolves (\<lambda>_. True) w (snd (snd (post_join je env q js w)))"
proof -
  have t: "evolves (\<lambda>_. True) w (tick env as w)" for w as by (rule evolves_tick) (simp add: list_all_iff)
  have r: "evolves (\<lambda>_. True) w (snd (register_joined env q w))" for w
    unfolding register_joined_def by (rule evolves_api_propose)
  have e: "evolves (\<lambda>_. True) w (snd (snd (enter_raft je env q js w)))" for js w
    using t [of w "[]"] evolves_trans [OF t [of w "[]"] t] evolves_trans [OF t [of w "[]"] evolves_trans [OF t r]]
    by (auto simp: enter_raft_def Let_def split: option.split prod.split) (metis snd_conv)
  show ?thesis using e t evolves_trans [OF t e] by (auto simp: post_join_def Let_def split: option.split)
qed

lemmas evolves_requests = evolves_run_deploy does_run_restart [THEN evolves_call] evolves_drain evolves_spawn_task
  evolves_kill_task evolves_set_secret evolves_delete_volume evolves_delete_node evolves_post_join evolves_api_propose

lemma evolves_handle_write: "evolves (\<lambda>_. True) (ap_world ap) (ap_world (snd (handle_write ac env req ap)))"
proof (cases req)
  case (PostDeploy body)
  then show ?thesis by (auto simp: handle_write_def on_world_def post_deploy_def Let_def split: sum.split
        intro: evolves_report_failure evolves_requests)
next
  case (PostRestart service)
  then show ?thesis by (auto simp: handle_write_def on_world_def post_restart_def Let_def split: option.split
        intro: evolves_report_failure evolves_requests)
next
  case (PostSpawnTask q)
  obtain r m w' where r: "spawn_task (ac_psize ac) (ac_pdur ac) (cx_decrypt (ac_deploy ac)) env q (ap_metrics ap) (ap_world ap) = (r, m, w')"
    by (metis prod_cases3)
  have "evolves (\<lambda>_. True) (ap_world ap) w'" using evolves_spawn_task r by (metis snd_conv)
  then show ?thesis by (simp add: handle_write_def post_spawn_task_def PostSpawnTask r Let_def)
next
  case (DeleteTask i)
  then show ?thesis using evolves_kill_task [of "ap_world ap" env i]
    by (simp add: handle_write_def on_world_def delete_task_def Let_def split: prod.split) (metis snd_conv)
next
  case (PostJoin q)
  then show ?thesis using evolves_post_join [of "ap_world ap" "ac_join ac" env q "ap_join ap"]
    by (auto simp: handle_write_def Let_def split: prod.split)
qed (auto simp: handle_write_def on_world_def delete_secret_def post_drain_def Let_def split: option.split intro: evolves_requests)


definition ac1 :: api_ctx where
  "ac1 = \<lparr> ac_auth_token = ''t'', ac_ct_eq = (=), ac_linearizable = True, ac_leader = Some 1, ac_valid = (\<lambda>_. True),
     ac_seal = (\<lambda>_ _ p. Inr (rev p)), ac_unseal = (\<lambda>_ _ c. Inr (rev c)), ac_key = [], ac_nonce = replicate 12 0,
     ac_hcl = (\<lambda>_. Inl []), ac_psize = (\<lambda>_. Inl []), ac_pdur = (\<lambda>_. Inl []), ac_deploy = ctx1, ac_destroy = None,
     ac_join = join_env1 \<rparr>"

definition app1 :: "live_metrics \<Rightarrow> app" where
  "app1 m = \<lparr> ap_world = world_of fsm_default, ap_metrics = m, ap_join = join_side1, ap_timers = [] \<rparr>"


end
