(* ===== verification/Decimal.thy ===== *)
theory Decimal
  imports F64 Strings
begin

text \<open>
  Floating-point numbers as decimal text, as the Rust library prints and reads them:
  \<^verbatim>\<open>Display\<close> gives the shortest decimal that rounds to the number, the closest of those, without
  an exponent; \<^verbatim>\<open>FromStr\<close> rounds the decimal it reads. A number reads back as printed.
  Zero has no sign here.
\<close>

section \<open>Printing\<close>

definition pow10 :: "int \<Rightarrow> rat" where
  "pow10 k = (if 0 \<le> k then 10 ^ nat k else 1 / 10 ^ nat (- k))"

text \<open>The number of digits before the point; for a number below one, zeros after it count negative.\<close>

definition dec_exponent :: "rat \<Rightarrow> int" where
  "dec_exponent x =
    (if 1 \<le> x then int (length (show_nat (nat \<lfloor>x\<rfloor>)))
     else 1 - int (length (show_nat (nat (\<lceil>1 / x\<rceil> - 1)))))"

text \<open>The decimals of \<open>n\<close> digits next to \<open>x\<close> that round to it.\<close>

definition dec_candidates :: "rat \<Rightarrow> nat \<Rightarrow> nat list" where
  "dec_candidates x n =
    (let s = pow10 (int n - dec_exponent x); lo = nat \<lfloor>x * s\<rfloor>
     in filter (\<lambda>c. f64_round (of_nat c / s) = Fin x) [lo, lo + 1])"

fun closest :: "rat \<Rightarrow> nat list \<Rightarrow> nat" where
  "closest y [a, b] = (if y - of_nat a < of_nat b - y then a else b)"
| "closest y (a # _) = a"
| "closest y [] = 0"

text \<open>
  The shortest decimal: digits and the number of them after the point. Seventeen digits are enough
  for every number; the exact value stands for the case that they were not.
\<close>

definition shortest_dec :: "rat \<Rightarrow> nat \<times> nat" where
  "shortest_dec x =
    (case List.find (\<lambda>n. dec_candidates x n \<noteq> []) [1..<18] of
       Some n \<Rightarrow>
         let e = int n - dec_exponent x; c = closest (x * pow10 e) (dec_candidates x n)
         in if 0 \<le> e then (c, nat e) else (c * 10 ^ nat (- e), 0)
     | None \<Rightarrow> (nat \<lfloor>x * 10 ^ 1074\<rfloor>, 1074))"

definition strip_zeros :: "string \<Rightarrow> string" where
  "strip_zeros s = rev (dropWhile (\<lambda>c. c = CHR ''0'') (rev s))"

definition pad_zeros :: "nat \<Rightarrow> string \<Rightarrow> string" where
  "pad_zeros f s = replicate (f - length s) (CHR ''0'') @ s"

definition show_dec :: "nat \<Rightarrow> nat \<Rightarrow> string" where
  "show_dec c f =
    (let fr = strip_zeros (pad_zeros f (show_nat (c mod 10 ^ f)))
     in show_nat (c div 10 ^ f) @ (if fr = [] then [] else CHR ''.'' # fr))"

definition show_pos :: "rat \<Rightarrow> string" where
  "show_pos x = (case shortest_dec x of (c, f) \<Rightarrow> show_dec c f)"

fun show_f64 :: "f64 \<Rightarrow> string" where
  "show_f64 NaN = ''NaN''"
| "show_f64 PInf = ''inf''"
| "show_f64 NInf = ''-inf''"
| "show_f64 (Fin x) = (if x = 0 then ''0'' else if x < 0 then CHR ''-'' # show_pos (- x) else show_pos x)"


section \<open>Reading\<close>

definition read_exponent :: "string \<Rightarrow> int option" where
  "read_exponent s =
    (case s of
       [] \<Rightarrow> Some 0
     | c # t \<Rightarrow>
        if c \<noteq> CHR ''e'' \<and> c \<noteq> CHR ''E'' then None
        else let (neg, ds) = (case t of d # u \<Rightarrow> if d = CHR ''-'' then (True, u) else if d = CHR ''+'' then (False, u) else (False, t)
                              | [] \<Rightarrow> (False, []))
             in if ds = [] then None else map_option (\<lambda>n. if neg then - int n else int n) (parse_digits 0 ds))"

definition read_dec :: "string \<Rightarrow> rat option" where
  "read_dec s =
    (let whole = takeWhile is_digit s; t = dropWhile is_digit s;
         (frac, u) = (case t of c # v \<Rightarrow> if c = CHR ''.'' then (takeWhile is_digit v, dropWhile is_digit v) else ([], t)
                      | [] \<Rightarrow> ([], []))
     in if whole = [] \<and> frac = [] then None
        else Option.bind (parse_digits 0 (whole @ frac)) (\<lambda>m.
             map_option (\<lambda>e. of_nat m * pow10 (e - int (length frac))) (read_exponent u)))"

definition parse_f64 :: "string \<Rightarrow> f64 option" where
  "parse_f64 s =
    (let (neg, t) = (case s of c # u \<Rightarrow> if c = CHR ''-'' then (True, u) else if c = CHR ''+'' then (False, u) else (False, s)
                     | [] \<Rightarrow> (False, []));
         l = map ascii_lower t
     in map_option (\<lambda>a. if neg then f64_neg a else a)
          (if l = ''inf'' \<or> l = ''infinity'' then Some PInf
           else if l = ''nan'' then Some NaN
           else map_option f64_round (read_dec t)))"


section \<open>Numbers read back as printed\<close>

lemma digit_0: "CHR ''0'' = digit 0"
  by (simp add: digit_def char_of_def bit_iff_odd)

lemma strip_zeros_split: "\<exists>z. s = strip_zeros s @ replicate z (CHR ''0'')"
proof -
  let ?r = "takeWhile (\<lambda>c. c = CHR ''0'') (rev s)"
  have "?r = replicate (length ?r) (CHR ''0'')"
    by (rule replicate_eqI [symmetric, THEN sym]) (auto dest: set_takeWhileD)
  moreover have "rev s = ?r @ dropWhile (\<lambda>c. c = CHR ''0'') (rev s)" by simp
  then have "s = strip_zeros s @ rev ?r" unfolding strip_zeros_def by (metis rev_append rev_rev_ident)
  ultimately show ?thesis by (metis rev_replicate)
qed

lemma parse_digits_zeros: "parse_digits a (replicate z (CHR ''0'')) = Some (a * 10 ^ z)"
  by (induction z arbitrary: a) (simp_all add: digit_0 mult.assoc)

lemma parse_digits_pad: "parse_digits 0 (pad_zeros f s) = parse_digits 0 s"
  by (simp add: pad_zeros_def parse_digits_append parse_digits_zeros)

lemma parse_digits_shift: "parse_digits 0 s = Some n \<Longrightarrow> parse_digits a s = Some (a * 10 ^ length s + n)"
proof (induction s arbitrary: n rule: rev_induct)
  case (snoc c s)
  from snoc.prems obtain m where m: "parse_digits 0 s = Some m" "is_digit c" "n = m * 10 + digit_val c"
    by (auto simp: parse_digits_append split: Option.bind_splits if_splits)
  then show ?case using snoc.IH [OF m(1)] by (simp add: parse_digits_append algebra_simps)
qed simp

lemma show_nat_length: "0 < f \<Longrightarrow> m < 10 ^ f \<Longrightarrow> length (show_nat m) \<le> f"
proof (induction m arbitrary: f rule: show_nat.induct)
  case (1 m)
  show ?case
  proof (cases "m < 10")
    case True
    then show ?thesis using 1(2) by (subst show_nat.simps) simp
  next
    case False
    obtain g where g: "f = Suc g" "0 < g" using 1(2,3) False by (cases f; cases "f - 1") auto
    have "m div 10 < 10 ^ g" using 1(3) unfolding g by (simp add: less_mult_imp_div_less mult.commute)
    then have "length (show_nat (m div 10)) \<le> g" using 1(1) False g by blast
    then show ?thesis using False unfolding g by (subst show_nat.simps) simp
  qed
qed

lemma pad_length: "0 < f \<Longrightarrow> m < 10 ^ f \<Longrightarrow> length (pad_zeros f (show_nat m)) = f"
  using show_nat_length by (simp add: pad_zeros_def)

lemma pow10_simps [simp]: "pow10 0 = 1" "pow10 (- int n) = 1 / 10 ^ n" "pow10 (int n) = 10 ^ n"
  by (simp_all add: pow10_def)

lemma not_digit_point [simp]: "\<not> is_digit CHR ''.''"
  by (simp add: is_digit_def)

lemma takeWhile_digits:
  "\<forall>c\<in>set s. is_digit c \<Longrightarrow> takeWhile is_digit (s @ CHR ''.'' # t) = s"
  "\<forall>c\<in>set s. is_digit c \<Longrightarrow> dropWhile is_digit (s @ CHR ''.'' # t) = CHR ''.'' # t"
  "\<forall>c\<in>set s. is_digit c \<Longrightarrow> takeWhile is_digit s = s"
  "\<forall>c\<in>set s. is_digit c \<Longrightarrow> dropWhile is_digit s = []"
  by (induction s) auto

text \<open>The digits after the point: those of the remainder without the zeros at the end.\<close>

lemma frac_digits:
  assumes "fr = strip_zeros (pad_zeros f (show_nat m))" "m < 10 ^ f"
  obtains k where "parse_digits 0 fr = Some k" "of_nat k / 10 ^ length fr = (of_nat m / 10 ^ f :: rat)" "\<forall>c\<in>set fr. is_digit c"
proof -
  let ?p = "pad_zeros f (show_nat m)"
  obtain z where z: "?p = fr @ replicate z (CHR ''0'')" using strip_zeros_split [of ?p] assms(1) by auto
  have p: "parse_digits 0 ?p = Some m" by (simp add: parse_digits_pad parse_digits_show)
  then obtain k where k: "parse_digits 0 fr = Some k" "m = k * 10 ^ z"
    unfolding z parse_digits_append by (auto simp: parse_digits_zeros split: Option.bind_splits)
  have "is_digit c" if "c \<in> set ?p" for c
    using that show_nat_digits by (auto simp: pad_zeros_def digit_0)
  then have d: "\<forall>c\<in>set fr. is_digit c" unfolding z by auto
  have "of_nat k / 10 ^ length fr = (of_nat m / 10 ^ f :: rat)"
  proof (cases "f = 0")
    case True
    then have "k = 0" "m = 0" using assms(2) k(2) by simp_all
    then show ?thesis by simp
  next
    case False
    then have "length fr + z = f" using pad_length [of f m] assms(2) unfolding z by simp
    then have "(10 :: rat) ^ f = 10 ^ length fr * 10 ^ z" by (metis power_add)
    then show ?thesis by (simp add: k(2))
  qed
  then show thesis using that k(1) d by blast
qed

lemma read_show_dec: "read_dec (show_dec c f) = Some (of_nat c / 10 ^ f)"
proof -
  define q m fr where "q = c div 10 ^ f" and "m = c mod 10 ^ f" and "fr = strip_zeros (pad_zeros f (show_nat m))"
  have m: "m < 10 ^ f" by (simp add: m_def)
  obtain k where k: "parse_digits 0 fr = Some k" "of_nat k / 10 ^ length fr = (of_nat m / 10 ^ f :: rat)" "\<forall>c\<in>set fr. is_digit c"
    using frac_digits [OF fr_def m] .
  have q: "\<forall>c\<in>set (show_nat q). is_digit c" using show_nat_digits by blast
  have c: "of_nat c / 10 ^ f = of_nat q + (of_nat m / 10 ^ f :: rat)"
  proof -
    have "c = q * 10 ^ f + m" by (simp only: q_def m_def div_mult_mod_eq)
    then have "of_nat c = (of_nat (q * 10 ^ f + m) :: rat)" by (rule arg_cong)
    then show ?thesis by (simp add: add_divide_distrib)
  qed
  have p: "parse_digits 0 (show_nat q @ fr) = Some (q * 10 ^ length fr + k)"
    by (simp add: parse_digits_append parse_digits_show parse_digits_shift [OF k(1)])
  have v: "of_nat (q * 10 ^ length fr + k) * (1 / 10 ^ length fr) = of_nat c / (10 ^ f :: rat)"
    unfolding c k(2) [symmetric] by (simp add: add_divide_distrib)
  have s: "show_dec c f = show_nat q @ (if fr = [] then [] else CHR ''.'' # fr)"
    by (simp add: show_dec_def q_def m_def fr_def Let_def)
  note w = takeWhile_digits [OF q] and r = takeWhile_digits(3,4) [OF k(3)]
  have e: "read_exponent [] = Some 0" by (simp add: read_exponent_def)
  show ?thesis
  proof (cases "fr = []")
    case True
    then have "read_dec (show_nat q) = Some (of_nat q)" unfolding read_dec_def w(3,4) by (simp add: e parse_digits_show)
    then show ?thesis using v k(1) True by (simp add: s)
  next
    case False
    have "read_dec (show_nat q @ CHR ''.'' # fr) = Some (of_nat (q * 10 ^ length fr + k) * (1 / 10 ^ length fr))"
      unfolding read_dec_def w(1,2) by (simp add: r e p)
    then show ?thesis using False unfolding s v by simp
  qed
qed


section \<open>The shortest decimal rounds to the number\<close>

text \<open>Every finite number is a multiple of the smallest positive one.\<close>

lemma dyadic_decimal:
  assumes "- int N \<le> l" "0 < of_int j * pow2 l"
  obtains k :: nat where "of_int j * pow2 l * 10 ^ N = (of_nat k :: rat)"
proof -
  have "pow2 l = of_int (2 ^ nat (l + int N)) * pow2 (- int N)" using pow2_multiple [OF assms(1)] by simp
  moreover have "pow2 (- int N) * 10 ^ N = (5 ^ N :: rat)"
  proof -
    have "(10 :: rat) ^ N = 2 ^ N * 5 ^ N" by (simp flip: power_mult_distrib)
    then show ?thesis by (simp add: pow2_def)
  qed
  ultimately have e: "of_int j * pow2 l * 10 ^ N = of_int (j * 2 ^ nat (l + int N) * 5 ^ N)" by (simp add: mult.assoc)
  have "0 \<le> of_int j * pow2 l * (10 ^ N :: rat)" using assms(2) by simp
  then have "0 \<le> j * 2 ^ nat (l + int N) * 5 ^ N" unfolding e by (simp only: of_int_0_le_iff)
  then show thesis using that [of "nat (j * 2 ^ nat (l + int N) * 5 ^ N)"] unfolding e by (metis of_nat_nat)
qed

lemma representable_multiple:
  assumes "0 < x" "f64_round x = Fin x" "N = (1074 :: nat)"
  obtains k :: nat where "x * 10 ^ N = of_nat k"
proof -
  have r: "round_pos x = x" using assms(1,2) by (auto simp: f64_round_def Let_def split: if_splits)
  define l where "l = max (ilog2 x - 52) (-1074)"
  have l: "- int N \<le> l" by (simp add: l_def assms(3))
  obtain j where j: "x = of_int j * pow2 l"
    using r unfolding round_pos_def quantum_def l_def by metis
  show thesis using dyadic_decimal [OF l, of j] assms(1) that unfolding j by blast
qed

lemma closest_mem: "cs \<noteq> [] \<Longrightarrow> closest y cs \<in> set cs"
  by (induction y cs rule: closest.induct) auto

lemma shortest_rounds:
  assumes "0 < x" "f64_round x = Fin x" "shortest_dec x = (c, f)"
  shows "f64_round (of_nat c / 10 ^ f) = Fin x"
proof (cases "List.find (\<lambda>n. dec_candidates x n \<noteq> []) [1..<18]")
  case None
  define N :: nat where "N = 1074"
  obtain k where k: "x * 10 ^ N = of_nat k" using representable_multiple [OF assms(1,2) N_def] .
  have "shortest_dec x = (nat \<lfloor>x * 10 ^ N\<rfloor>, N)" by (simp only: shortest_dec_def None option.case N_def)
  then have "c = k" "f = N" using assms(3) by (simp_all add: k)
  moreover have "of_nat k / 10 ^ N = x" unfolding k [symmetric] by simp
  ultimately show ?thesis using assms(2) by simp
next
  case (Some n)
  let ?e = "int n - dec_exponent x" and ?c = "closest (x * pow10 (int n - dec_exponent x)) (dec_candidates x n)"
  have "dec_candidates x n \<noteq> []" using Some by (auto simp: find_Some_iff)
  then have "?c \<in> set (dec_candidates x n)" by (rule closest_mem)
  then have r: "f64_round (of_nat ?c / pow10 ?e) = Fin x" by (auto simp: dec_candidates_def Let_def)
  have "(c, f) = (if 0 \<le> ?e then (?c, nat ?e) else (?c * 10 ^ nat (- ?e), 0))"
    using assms(3) by (simp only: shortest_dec_def Some option.case Let_def)
  then have "of_nat c / 10 ^ f = of_nat ?c / pow10 ?e" by (auto simp: pow10_def split: if_splits)
  then show ?thesis using r by simp
qed


section \<open>Round trip\<close>

definition is_f64 :: "f64 \<Rightarrow> bool" where
  "is_f64 a \<longleftrightarrow> (case a of Fin x \<Rightarrow> f64_round x = Fin x | _ \<Rightarrow> True)"

lemma show_pos_digit: "\<exists>c t. show_pos x = c # t \<and> is_digit c"
proof -
  obtain c f where cf: "shortest_dec x = (c, f)" by force
  obtain d t where d: "show_nat (c div 10 ^ f) = d # t" by (cases "show_nat (c div 10 ^ f)") auto
  then have "is_digit d" using show_nat_digits [of d "c div 10 ^ f"] by simp
  then show ?thesis by (simp add: show_pos_def cf show_dec_def d Let_def)
qed

lemma digit_head:
  assumes "is_digit c"
  shows "c \<noteq> CHR ''-''" "c \<noteq> CHR ''+''" "map ascii_lower (c # t) \<noteq> ''inf''" "map ascii_lower (c # t) \<noteq> ''infinity''"
    "map ascii_lower (c # t) \<noteq> ''nan''"
  using assms by (auto simp: is_digit_def ascii_lower_def)

lemma read_show_pos:
  assumes "0 < x" "f64_round x = Fin x"
  shows "map_option f64_round (read_dec (show_pos x)) = Some (Fin x)"
proof -
  obtain c f where cf: "shortest_dec x = (c, f)" by force
  show ?thesis using shortest_rounds [OF assms cf] by (simp add: show_pos_def cf read_show_dec)
qed

lemma f64_round_neg: "f64_round x = Fin x \<Longrightarrow> f64_round (- x) = Fin (- x)"
  by (auto simp: f64_round_def Let_def split: if_splits)

lemma show_f64_roundtrip:
  assumes "is_f64 a"
  shows "parse_f64 (show_f64 a) = Some a"
proof (cases a)
  case (Fin x)
  have x: "f64_round x = Fin x" using assms by (simp add: is_f64_def Fin)
  consider "x = 0" | "0 < x" | "x < 0" by linarith
  then show ?thesis
  proof cases
    case 1
    then show ?thesis by (simp add: Fin parse_f64_def read_dec_def is_digit_def digit_val_def read_exponent_def ascii_lower_def)
  next
    case 2
    obtain c t where c: "show_pos x = c # t" "is_digit c" using show_pos_digit by blast
    show ?thesis using read_show_pos [OF 2 x] 2 digit_head [OF c(2)] unfolding Fin parse_f64_def
      by (simp add: c(1) Let_def)
  next
    case 3
    obtain c t where c: "show_pos (- x) = c # t" "is_digit c" using show_pos_digit by blast
    show ?thesis using read_show_pos [of "- x"] f64_round_neg [OF x] 3 digit_head [OF c(2)] unfolding Fin parse_f64_def
      by (auto simp: c(1) Let_def)
  qed
qed (simp_all add: parse_f64_def ascii_lower_def char_of_def bit_iff_odd)

end
