(* ===== verification/Containers.thy ===== *)
theory Containers
  imports Secondary Decimal
begin

text \<open>
  The client of the container runtime, \<^verbatim>\<open>crates/containerd\<close>: the runtime specification and the
  labels of a container, its start with the clean-up of every failure, its stop and removal, what
  a restart reads from the labels, images and statistics. The service is a parameter: it answers a
  request from the requests so far. Paths are those of \<^verbatim>\<open>config/src/types/data_dir.rs\<close>.
\<close>

text \<open>\<^verbatim>\<open>Result::ok\<close>.\<close>

definition res_ok :: "('e, 'a) result \<Rightarrow> 'a option" where
  "res_ok r = (case r of Inr a \<Rightarrow> Some a | Inl _ \<Rightarrow> None)"


section \<open>Paths\<close>

text \<open>\<^verbatim>\<open>Path::join\<close>: an absolute path replaces what it is joined to.\<close>

definition path_join :: "string \<Rightarrow> string \<Rightarrow> string" where
  "path_join base p =
    (if starts_with p ''/'' then p
     else if base = [] \<or> ends_with base ''/'' then base @ p
     else base @ ''/'' @ p)"

definition logs_dir :: "string \<Rightarrow> string" where
  "logs_dir dd = path_join dd ''logs''"

definition volumes_dir :: "string \<Rightarrow> string" where
  "volumes_dir dd = path_join dd ''volumes''"

definition ephemeral_dir :: "string \<Rightarrow> string" where
  "ephemeral_dir dd = path_join dd ''ephemeral''"

definition volume_host_path :: "string \<Rightarrow> container_volume \<Rightarrow> string" where
  "volume_host_path dd vol =
    (if cv_ephemeral vol then path_join (ephemeral_dir dd) (cv_name vol)
     else path_join (volumes_dir dd) (cv_name vol))"


section \<open>Errors\<close>

datatype grpc_code = NotFoundCode | AlreadyExistsCode | OtherCode nat

record grpc_status =
  gs_code :: grpc_code
  gs_message :: string

datatype cd_error =
    CdConnect string string
  | CdGrpc grpc_status
  | CdImagePull string string
  | CdNotFound string
  | CdAlreadyExists string
  | CdSpecBuild string
  | CdLogIo string
  | CdMetricsDecode string
  | CdIo string


section \<open>The specification and the labels\<close>

record image_info =
  im_chain_id :: string
  im_default_command :: "string list"
  im_default_env :: "string list"

record oci_mount =
  om_destination :: string
  om_typ :: "string option"
  om_source :: "string option"
  om_options :: "string list"

datatype namespace_type = NsPid | NsIpc | NsUts | NsMount | NsNetwork

record oci_spec =
  os_version :: string
  os_args :: "string list"
  os_env :: "string list"
  os_cwd :: string
  os_root :: "string \<times> bool"
  os_quota :: int
  os_period :: u64
  os_limit :: int
  os_swap :: int
  os_namespaces :: "(namespace_type \<times> string option) list option"
  os_mounts :: "oci_mount list"

definition merged_env :: "container_spec \<Rightarrow> image_info \<Rightarrow> (string, string) hash_map" where
  "merged_env spec image_defaults =
    fold (\<lambda>(k, v) m. hm_insert k v m) (cs_env spec)
      (fold (\<lambda>entry m. case split_once entry ''='' of Some (k, v) \<Rightarrow> hm_insert k v m | None \<Rightarrow> m)
        (im_default_env image_defaults) [])"

definition build_volume_mount :: "string \<Rightarrow> container_volume \<Rightarrow> oci_mount" where
  "build_volume_mount dd vol = \<lparr> om_destination = cv_path vol, om_typ = Some ''bind'',
     om_source = Some (volume_host_path dd vol), om_options = [''rbind'', ''rw''] \<rparr>"

text \<open>
  \<open>netns\<close> is the environment variable, \<open>defaults\<close> the mounts of the specification library and
  \<open>build\<close> the error of its builders, if there is one.
\<close>

definition build_oci_spec ::
  "string option \<Rightarrow> oci_mount list \<Rightarrow> (oci_spec \<Rightarrow> string option) \<Rightarrow> string \<Rightarrow> container_spec \<Rightarrow> image_info \<Rightarrow>
   (cd_error, oci_spec) result" where
  "build_oci_spec netns defaults build dd spec image_defaults =
    (let memory_limit = sint (cs_memory spec);
         oci = \<lparr> os_version = ''1.1.0'',
           os_args = (case cs_command spec of Some cmd \<Rightarrow> cmd | None \<Rightarrow> im_default_command image_defaults),
           os_env = map (\<lambda>(k, v). k @ ''='' @ v) (merged_env spec image_defaults),
           os_cwd = ''/'', os_root = (''rootfs'', False),
           os_quota = f64_to_i64 (f64_mul (cs_cpu spec) (Fin 100000)), os_period = 100000,
           os_limit = memory_limit, os_swap = memory_limit,
           os_namespaces = map_option (\<lambda>path. [(NsPid, None), (NsIpc, None), (NsUts, None), (NsMount, None),
             (NsNetwork, Some path)]) netns,
           os_mounts = filter (\<lambda>m. \<not> (om_destination m = ''/sys/fs/cgroup'' \<and> om_typ m = Some ''cgroup'')) defaults
             @ map (build_volume_mount dd) (cs_volumes spec) \<rparr>
     in case build oci of Some e \<Rightarrow> Inl (CdSpecBuild e) | None \<Rightarrow> Inr oci)"

text \<open>The printers and parsers of JSON that the labels use.\<close>

record label_codec =
  lc_volumes :: "container_volume list \<Rightarrow> (string, string) result"
  lc_parse_volumes :: "string \<Rightarrow> (string, container_volume list) result"
  lc_command :: "string list \<Rightarrow> (string, string) result"
  lc_parse_command :: "string \<Rightarrow> (string, string list) result"

definition label_if_ok :: "string \<Rightarrow> (string, string) result \<Rightarrow> (string, string) hash_map \<Rightarrow> (string, string) hash_map" where
  "label_if_ok k r labels = (case r of Inr json \<Rightarrow> hm_insert k json labels | Inl _ \<Rightarrow> labels)"

definition build_labels :: "label_codec \<Rightarrow> container_spec \<Rightarrow> (string, string) hash_map" where
  "build_labels lc spec =
    (let labels = hm_insert ''mill.alloc-id'' (cs_alloc_id spec) (hm_insert ''mill.managed'' ''true'' []);
         labels = (case cs_host_port spec of Some port \<Rightarrow> hm_insert ''mill.host-port'' (show_word port) labels | None \<Rightarrow> labels);
         labels = hm_insert ''mill.cpu'' (show_f64 (cs_cpu spec)) labels;
         labels = hm_insert ''mill.memory'' (show_word (cs_memory spec)) labels;
         labels = (if cs_volumes spec \<noteq> [] then label_if_ok ''mill.volumes'' (lc_volumes lc (cs_volumes spec)) labels else labels);
         labels = hm_insert ''mill.kind'' (show_alloc_kind (cs_kind spec)) labels;
         labels = (case cs_timeout spec of
                     Some timeout \<Rightarrow> hm_insert ''mill.timeout'' (show_nat (timeout div 10 ^ 9)) labels
                   | None \<Rightarrow> labels)
     in case cs_command spec of Some cmd \<Rightarrow> label_if_ok ''mill.command'' (lc_command lc cmd) labels | None \<Rightarrow> labels)"


section \<open>The service\<close>

record container_meta =
  cm_id :: string
  cm_image :: string
  cm_spec :: oci_spec
  cm_snapshot_key :: string
  cm_labels :: "(string, string) hash_map"

datatype cd_op =
    OpGetImage string
  | OpRead string
  | OpPrepare string string
  | OpMounts string
  | OpCreateContainer container_meta
  | OpCreateTask string "string list" string string
  | OpStart string
  | OpKill string nat
  | OpWait string
  | OpDeleteTask string
  | OpDeleteContainer string
  | OpRemoveSnapshot string
  | OpGetContainer string
  | OpList string
  | OpMetrics "string list"
  | OpMkDirs string
  | OpRemoveFile string
  | OpMkFifo string
  | OpRemoveDirs string

text \<open>What was done so far, and whether it succeeded.\<close>

type_synonym history = "(cd_op \<times> bool) list"

datatype jvalue =
    JvNull | JvBool bool | JvNumber string | JvString string | JvArray "jvalue list" | JvObject "(string \<times> jvalue) list"

record cgroup_metrics =
  cg_cpu :: "(u64 \<times> u64) option"
  cg_memory :: "(u64 \<times> u64) option"

record metric =
  mt_id :: string
  mt_data :: "bytes option"

text \<open>
  The answers of the service and of the file system, the decoders and the host. An image is a record
  that may be missing, with a digest that may be missing; content comes in pieces; \<open>dm_in_time\<close> says
  whether a container exits within ten seconds of the first signal.
\<close>

record daemon =
  dm_unit :: "history \<Rightarrow> cd_op \<Rightarrow> grpc_status option"
  dm_mounts :: "history \<Rightarrow> cd_op \<Rightarrow> (grpc_status, string list) result"
  dm_image :: "history \<Rightarrow> string \<Rightarrow> (grpc_status, string option option) result"
  dm_content :: "history \<Rightarrow> string \<Rightarrow> (grpc_status, (grpc_status, bytes) result list) result"
  dm_wait :: "history \<Rightarrow> string \<Rightarrow> (grpc_status, u32) result"
  dm_in_time :: "history \<Rightarrow> bool"
  dm_container :: "history \<Rightarrow> string \<Rightarrow> (grpc_status, container_meta option) result"
  dm_list :: "history \<Rightarrow> string \<Rightarrow> (grpc_status, container_meta list) result"
  dm_metrics :: "history \<Rightarrow> string list \<Rightarrow> (grpc_status, metric list) result"
  dm_exists :: "history \<Rightarrow> string \<Rightarrow> bool"
  dm_io :: "history \<Rightarrow> cd_op \<Rightarrow> string option"
  dm_json :: "bytes \<Rightarrow> (string, jvalue) result"
  dm_sha256 :: "bytes \<Rightarrow> string"
  dm_decode :: "bytes \<Rightarrow> (string, cgroup_metrics) result"
  dm_arch :: string
  dm_netns :: "string option"
  dm_default_mounts :: "oci_mount list"
  dm_build :: "oci_spec \<Rightarrow> string option"
  dm_labels :: label_codec

definition unit_call :: "daemon \<Rightarrow> cd_op \<Rightarrow> history \<Rightarrow> grpc_status option \<times> history" where
  "unit_call dm op h = (dm_unit dm h op, h @ [(op, dm_unit dm h op = None)])"

definition io_call :: "daemon \<Rightarrow> cd_op \<Rightarrow> history \<Rightarrow> string option \<times> history" where
  "io_call dm op h = (dm_io dm h op, h @ [(op, dm_io dm h op = None)])"

text \<open>A deletion of something that is not there succeeds.\<close>

definition delete_call :: "daemon \<Rightarrow> cd_op \<Rightarrow> history \<Rightarrow> grpc_status option \<times> history" where
  "delete_call dm op h =
    (case unit_call dm op h of
       (Some status, h') \<Rightarrow> (if gs_code status = NotFoundCode then None else Some status, h')
     | (None, h') \<Rightarrow> (None, h'))"

definition cd_delete_task :: "daemon \<Rightarrow> string \<Rightarrow> history \<Rightarrow> grpc_status option \<times> history" where
  "cd_delete_task dm cid = delete_call dm (OpDeleteTask cid)"

definition cd_delete_snapshot :: "daemon \<Rightarrow> string \<Rightarrow> history \<Rightarrow> grpc_status option \<times> history" where
  "cd_delete_snapshot dm cid = delete_call dm (OpRemoveSnapshot cid)"

definition cd_delete_container :: "daemon \<Rightarrow> string \<Rightarrow> history \<Rightarrow> grpc_status option \<times> history" where
  "cd_delete_container dm cid = delete_call dm (OpDeleteContainer cid)"


section \<open>Log pipes\<close>

definition create_fifo :: "daemon \<Rightarrow> string \<Rightarrow> history \<Rightarrow> (cd_error, unit) result \<times> history" where
  "create_fifo dm path h =
    (case (if dm_exists dm h path then io_call dm (OpRemoveFile path) h else (None, h)) of
       (Some e, h) \<Rightarrow> (Inl (CdLogIo e), h)
     | (None, h) \<Rightarrow>
        (case io_call dm (OpMkFifo path) h of
           (Some e, h) \<Rightarrow> (Inl (CdLogIo e), h)
         | (None, h) \<Rightarrow> (Inr (), h)))"

definition setup_fifos :: "daemon \<Rightarrow> string \<Rightarrow> string \<Rightarrow> history \<Rightarrow> (cd_error, string \<times> string) result \<times> history" where
  "setup_fifos dm log_base_dir alloc_id h =
    (let log_dir = path_join log_base_dir alloc_id;
         stdout_path = path_join log_dir ''stdout'';
         stderr_path = path_join log_dir ''stderr''
     in case io_call dm (OpMkDirs log_dir) h of
          (Some e, h) \<Rightarrow> (Inl (CdLogIo e), h)
        | (None, h) \<Rightarrow>
           (case create_fifo dm stdout_path h of
              (Inl e, h) \<Rightarrow> (Inl e, h)
            | (Inr _, h) \<Rightarrow>
               (case create_fifo dm stderr_path h of
                  (Inl e, h) \<Rightarrow> (Inl e, h)
                | (Inr _, h) \<Rightarrow> (Inr (stdout_path, stderr_path), h))))"

definition cleanup_fifos :: "daemon \<Rightarrow> string \<Rightarrow> string \<Rightarrow> history \<Rightarrow> history" where
  "cleanup_fifos dm log_base_dir alloc_id h = snd (io_call dm (OpRemoveDirs (path_join log_base_dir alloc_id)) h)"

definition reconnect_fifos :: "daemon \<Rightarrow> string \<Rightarrow> string \<Rightarrow> history \<Rightarrow> bool" where
  "reconnect_fifos dm log_base_dir alloc_id h =
    (let log_dir = path_join log_base_dir alloc_id
     in dm_exists dm h (path_join log_dir ''stdout'') \<and> dm_exists dm h (path_join log_dir ''stderr''))"


section \<open>Images\<close>

fun jv_get :: "jvalue \<Rightarrow> string \<Rightarrow> jvalue option" where
  "jv_get (JvObject m) k = hm_get m k"
| "jv_get _ k = None"

text \<open>\<^verbatim>\<open>value[key]\<close>, null where there is no such key.\<close>

definition jv_index :: "jvalue \<Rightarrow> string \<Rightarrow> jvalue" where
  "jv_index v k = (case jv_get v k of Some w \<Rightarrow> w | None \<Rightarrow> JvNull)"

fun as_str :: "jvalue \<Rightarrow> string option" where
  "as_str (JvString s) = Some s"
| "as_str _ = None"

fun as_array :: "jvalue \<Rightarrow> jvalue list option" where
  "as_array (JvArray vs) = Some vs"
| "as_array _ = None"

definition str_array :: "jvalue \<Rightarrow> string list" where
  "str_array v = (case as_array v of Some vs \<Rightarrow> List.map_filter as_str vs | None \<Rightarrow> [])"

definition current_oci_arch :: "string \<Rightarrow> string" where
  "current_oci_arch arch =
    (if arch = ''x86_64'' then ''amd64'' else if arch = ''aarch64'' then ''arm64''
     else if arch = ''arm'' then ''arm'' else arch)"

fun read_pieces :: "bytes \<Rightarrow> (grpc_status, bytes) result list \<Rightarrow> (grpc_status, bytes) result" where
  "read_pieces data [] = Inr data"
| "read_pieces data (Inl e # _) = Inl e"
| "read_pieces data (Inr p # rest) = read_pieces (data @ p) rest"

definition read_content :: "daemon \<Rightarrow> string \<Rightarrow> history \<Rightarrow> (cd_error, bytes) result \<times> history" where
  "read_content dm digest h =
    (let r = res_bind (dm_content dm h digest) (read_pieces [])
     in (map_sum CdGrpc id r, h @ [(OpRead digest, is_ok r)]))"

definition is_platform :: "string \<Rightarrow> jvalue \<Rightarrow> bool" where
  "is_platform arch m =
    (let plat = jv_get m ''platform''
     in Option.bind (Option.bind plat (\<lambda>p. jv_get p ''os'')) as_str = Some ''linux''
       \<and> Option.bind (Option.bind plat (\<lambda>p. jv_get p ''architecture'')) as_str = Some arch)"

definition platform_digest :: "string \<Rightarrow> jvalue \<Rightarrow> string option" where
  "platform_digest arch manifest =
    Option.bind (List.find (is_platform arch) (case as_array (jv_index manifest ''manifests'') of Some ms \<Rightarrow> ms | None \<Rightarrow> []))
      (\<lambda>m. as_str (jv_index m ''digest''))"

definition read_json :: "daemon \<Rightarrow> string \<Rightarrow> string \<Rightarrow> string \<Rightarrow> history \<Rightarrow> (cd_error, jvalue) result \<times> history" where
  "read_json dm img what digest h =
    (case read_content dm digest h of
       (Inl e, h) \<Rightarrow> (Inl e, h)
     | (Inr bs, h) \<Rightarrow> (map_sum (\<lambda>e. CdImagePull img (''invalid '' @ what @ '' JSON: '' @ e)) id (dm_json dm bs), h))"

definition resolve_manifest :: "daemon \<Rightarrow> string \<Rightarrow> jvalue \<Rightarrow> history \<Rightarrow> (cd_error, jvalue) result \<times> history" where
  "resolve_manifest dm img manifest h =
    (if jv_get manifest ''manifests'' \<noteq> None then
       (let arch = current_oci_arch (dm_arch dm)
        in case platform_digest arch manifest of
             None \<Rightarrow> (Inl (CdImagePull img (''no linux/'' @ arch @ '' manifest found in image index'')), h)
           | Some digest \<Rightarrow> read_json dm img ''platform manifest'' digest h)
     else (Inr manifest, h))"

definition chain_id :: "(bytes \<Rightarrow> string) \<Rightarrow> string list \<Rightarrow> string" where
  "chain_id sha256 diff_ids =
    foldl (\<lambda>c d. ''sha256:'' @ sha256 (as_bytes (c @ '' '' @ d))) (hd diff_ids) (tl diff_ids)"

definition info_of_config :: "daemon \<Rightarrow> string \<Rightarrow> jvalue \<Rightarrow> (cd_error, image_info) result" where
  "info_of_config dm img config =
    (case as_array (jv_index (jv_index config ''rootfs'') ''diff_ids'') of
       None \<Rightarrow> Inl (CdImagePull img ''image config missing rootfs.diff_ids'')
     | Some vs \<Rightarrow>
        let diff_ids = List.map_filter as_str vs; img_config = jv_index config ''config''
        in if diff_ids = [] then Inl (CdImagePull img ''image has no layers'')
           else Inr \<lparr> im_chain_id = chain_id (dm_sha256 dm) diff_ids,
             im_default_command = str_array (jv_index img_config ''Entrypoint'') @ str_array (jv_index img_config ''Cmd''),
             im_default_env = str_array (jv_index img_config ''Env'') \<rparr>)"

definition info_of_manifest :: "daemon \<Rightarrow> string \<Rightarrow> jvalue \<Rightarrow> history \<Rightarrow> (cd_error, image_info) result \<times> history" where
  "info_of_manifest dm img manifest h =
    (case as_str (jv_index (jv_index manifest ''config'') ''digest'') of
       None \<Rightarrow> (Inl (CdImagePull img ''manifest missing config.digest''), h)
     | Some config_digest \<Rightarrow>
        (case read_json dm img ''image config'' config_digest h of
           (Inl e, h) \<Rightarrow> (Inl e, h)
         | (Inr config, h) \<Rightarrow> (info_of_config dm img config, h)))"

definition read_image_info :: "daemon \<Rightarrow> string \<Rightarrow> history \<Rightarrow> (cd_error, image_info) result \<times> history" where
  "read_image_info dm img h =
    (let r = dm_image dm h img; h = h @ [(OpGetImage img, is_ok r)]
     in case r of
          Inl e \<Rightarrow> (Inl (CdGrpc e), h)
        | Inr None \<Rightarrow> (Inl (CdImagePull img ''image record missing''), h)
        | Inr (Some None) \<Rightarrow> (Inl (CdImagePull img ''image has no manifest target''), h)
        | Inr (Some (Some digest)) \<Rightarrow>
           (case read_json dm img ''manifest'' digest h of
              (Inl e, h) \<Rightarrow> (Inl e, h)
            | (Inr manifest, h) \<Rightarrow>
               (case resolve_manifest dm img manifest h of
                  (Inl e, h) \<Rightarrow> (Inl e, h)
                | (Inr manifest, h) \<Rightarrow> info_of_manifest dm img manifest h)))"

definition is_cached :: "daemon \<Rightarrow> string \<Rightarrow> history \<Rightarrow> (cd_error, bool) result" where
  "is_cached dm img h =
    (case dm_image dm h img of
       Inr _ \<Rightarrow> Inr True
     | Inl status \<Rightarrow> if gs_code status = NotFoundCode then Inr False else Inl (CdGrpc status))"

text \<open>\<^verbatim>\<open>pull\<close>, with the outcomes of the two ways to pull: the service is asked first, and \<^verbatim>\<open>ctr\<close> if it cannot.\<close>

definition cd_pull :: "(string, unit) result \<Rightarrow> (string, unit) result \<Rightarrow> string \<Rightarrow> (cd_error, unit) result" where
  "cd_pull transfer ctr img =
    (case transfer of
       Inr _ \<Rightarrow> Inr ()
     | Inl reason \<Rightarrow>
        if str_find reason ''not implemented'' \<noteq> None \<or> str_find reason ''Unimplemented'' \<noteq> None
        then map_sum (CdImagePull img) id ctr
        else Inl (CdImagePull img reason))"


section \<open>Containers\<close>

definition container_id :: "alloc_id \<Rightarrow> string" where
  "container_id alloc_id = ''mill-'' @ alloc_id"

text \<open>The writable snapshot; one that is left from an earlier attempt is used again.\<close>

definition prepare_rootfs :: "daemon \<Rightarrow> string \<Rightarrow> string \<Rightarrow> history \<Rightarrow> (cd_error, string list) result \<times> history" where
  "prepare_rootfs dm cid parent h =
    (let r = dm_mounts dm h (OpPrepare cid parent); h = h @ [(OpPrepare cid parent, is_ok r)]
     in case r of
          Inr mounts \<Rightarrow> (Inr mounts, h)
        | Inl status \<Rightarrow>
           if gs_code status = AlreadyExistsCode then
             (let r = dm_mounts dm h (OpMounts cid) in (map_sum CdGrpc id r, h @ [(OpMounts cid, is_ok r)]))
           else (Inl (CdGrpc status), h))"

definition register_container :: "daemon \<Rightarrow> container_spec \<Rightarrow> oci_spec \<Rightarrow> history \<Rightarrow> (cd_error, unit) result \<times> history" where
  "register_container dm spec oci h =
    (let cid = container_id (cs_alloc_id spec)
     in case unit_call dm (OpCreateContainer \<lparr> cm_id = cid, cm_image = cs_image spec, cm_spec = oci,
               cm_snapshot_key = cid, cm_labels = build_labels (dm_labels dm) spec \<rparr>) h of
          (Some status, h) \<Rightarrow>
            (Inl (if gs_code status = AlreadyExistsCode then CdAlreadyExists (cs_alloc_id spec) else CdGrpc status), h)
        | (None, h) \<Rightarrow> (Inr (), h))"

definition run_task :: "daemon \<Rightarrow> string \<Rightarrow> alloc_id \<Rightarrow> string list \<Rightarrow> string \<times> string \<Rightarrow> history \<Rightarrow> (cd_error, unit) result \<times> history" where
  "run_task dm log_base_dir alloc_id mounts pipes h =
    (let cid = container_id alloc_id;
         undo = (\<lambda>h. cleanup_fifos dm log_base_dir alloc_id (snd (cd_delete_snapshot dm cid (snd (cd_delete_container dm cid h)))))
     in case unit_call dm (OpCreateTask cid mounts (fst pipes) (snd pipes)) h of
          (Some status, h) \<Rightarrow> (Inl (CdGrpc status), undo h)
        | (None, h) \<Rightarrow>
           (case unit_call dm (OpStart cid) h of
              (Some status, h) \<Rightarrow> (Inl (CdGrpc status), undo (snd (cd_delete_task dm cid h)))
            | (None, h) \<Rightarrow> (Inr (), h)))"

definition start_prepared ::
  "daemon \<Rightarrow> string \<Rightarrow> container_spec \<Rightarrow> oci_spec \<Rightarrow> string list \<Rightarrow> history \<Rightarrow> (cd_error, unit) result \<times> history" where
  "start_prepared dm dd spec oci mounts h =
    (case register_container dm spec oci h of
       (Inl e, h) \<Rightarrow> (Inl e, h)
     | (Inr _, h) \<Rightarrow>
        (case setup_fifos dm (logs_dir dd) (cs_alloc_id spec) h of
           (Inl e, h) \<Rightarrow> (Inl e, snd (cd_delete_container dm (container_id (cs_alloc_id spec)) h))
         | (Inr pipes, h) \<Rightarrow> run_task dm (logs_dir dd) (cs_alloc_id spec) mounts pipes h))"

definition create_and_start :: "daemon \<Rightarrow> string \<Rightarrow> container_spec \<Rightarrow> history \<Rightarrow> (cd_error, unit) result \<times> history" where
  "create_and_start dm dd spec h =
    (case read_image_info dm (cs_image spec) h of
       (Inl e, h) \<Rightarrow> (Inl e, h)
     | (Inr info, h) \<Rightarrow>
        (case build_oci_spec (dm_netns dm) (dm_default_mounts dm) (dm_build dm) dd spec info of
           Inl e \<Rightarrow> (Inl e, h)
         | Inr oci \<Rightarrow>
            (case prepare_rootfs dm (container_id (cs_alloc_id spec)) (im_chain_id info) h of
               (Inl e, h) \<Rightarrow> (Inl e, h)
             | (Inr mounts, h) \<Rightarrow> start_prepared dm dd spec oci mounts h)))"

text \<open>What the waiter in the background sends as the exit code.\<close>

definition exit_of_wait :: "(grpc_status, u32) result \<Rightarrow> i32" where
  "exit_of_wait r = (case r of Inr exit_status \<Rightarrow> exit_status | Inl _ \<Rightarrow> - 1)"

definition wait_call :: "daemon \<Rightarrow> string \<Rightarrow> history \<Rightarrow> (cd_error, i32) result \<times> history" where
  "wait_call dm cid h = (let r = dm_wait dm h cid in (map_sum CdGrpc id r, h @ [(OpWait cid, is_ok r)]))"

definition cd_stop :: "daemon \<Rightarrow> alloc_id \<Rightarrow> history \<Rightarrow> (cd_error, i32) result \<times> history" where
  "cd_stop dm alloc_id h =
    (let cid = container_id alloc_id
     in case unit_call dm (OpKill cid 15) h of
          (Some status, h) \<Rightarrow> (Inl (if gs_code status = NotFoundCode then CdNotFound alloc_id else CdGrpc status), h)
        | (None, h) \<Rightarrow>
           if dm_in_time dm h then wait_call dm cid h
           else (case unit_call dm (OpKill cid 9) (h @ [(OpWait cid, False)]) of
                   (Some status, h) \<Rightarrow> (Inl (CdGrpc status), h)
                 | (None, h) \<Rightarrow> wait_call dm cid h))"

definition cd_remove :: "daemon \<Rightarrow> string \<Rightarrow> alloc_id \<Rightarrow> history \<Rightarrow> (cd_error, unit) result \<times> history" where
  "cd_remove dm dd alloc_id h =
    (let cid = container_id alloc_id
     in case cd_delete_container dm cid (snd (cd_delete_task dm cid h)) of
          (Some status, h) \<Rightarrow> (Inl (if gs_code status = NotFoundCode then CdNotFound alloc_id else CdGrpc status), h)
        | (None, h) \<Rightarrow> (Inr (), cleanup_fifos dm (logs_dir dd) alloc_id (snd (cd_delete_snapshot dm cid h))))"

definition list_managed :: "daemon \<Rightarrow> history \<Rightarrow> (cd_error, alloc_id list) result" where
  "list_managed dm h =
    map_sum CdGrpc (List.map_filter (\<lambda>c. hm_get (cm_labels c) ''mill.alloc-id''))
      (dm_list dm h (''labels.'' @ [CHR 0x22] @ ''mill.managed'' @ [CHR 0x22] @ ''==true''))"

definition get_container :: "daemon \<Rightarrow> alloc_id \<Rightarrow> history \<Rightarrow> (cd_error, container_meta) result" where
  "get_container dm alloc_id h =
    (case dm_container dm h (container_id alloc_id) of
       Inl status \<Rightarrow> Inl (if gs_code status = NotFoundCode then CdNotFound alloc_id else CdGrpc status)
     | Inr None \<Rightarrow> Inl (CdNotFound alloc_id)
     | Inr (Some c) \<Rightarrow> Inr c)"

definition recover_labels :: "label_codec \<Rightarrow> string \<Rightarrow> (string, string) hash_map \<Rightarrow> recovered_container" where
  "recover_labels lc img labels = \<lparr>
     rc_kind = (case hm_get labels ''mill.kind'' of
                  Some s \<Rightarrow> if s = ''task'' then KTask else KService | None \<Rightarrow> KService),
     rc_timeout = map_option (\<lambda>n. n * 10 ^ 9) (Option.bind (hm_get labels ''mill.timeout'') (parse_unsigned (2 ^ 64))),
     rc_command = Option.bind (hm_get labels ''mill.command'') (\<lambda>s. res_ok (lc_parse_command lc s)),
     rc_host_port = map_option word_of_nat (Option.bind (hm_get labels ''mill.host-port'') (parse_unsigned (2 ^ 16))),
     rc_cpu = (case Option.bind (hm_get labels ''mill.cpu'') parse_f64 of Some c \<Rightarrow> c | None \<Rightarrow> Fin 0),
     rc_memory = (case Option.bind (hm_get labels ''mill.memory'') (parse_unsigned (2 ^ 64)) of Some n \<Rightarrow> word_of_nat n | None \<Rightarrow> 0),
     rc_image = img,
     rc_volumes = (case Option.bind (hm_get labels ''mill.volumes'') (\<lambda>s. res_ok (lc_parse_volumes lc s)) of
                     Some vs \<Rightarrow> vs | None \<Rightarrow> []) \<rparr>"

definition cd_recover_info :: "daemon \<Rightarrow> history \<Rightarrow> alloc_id \<Rightarrow> (cd_error, recovered_container) result" where
  "cd_recover_info dm h alloc_id =
    map_sum id (\<lambda>c. recover_labels (dm_labels dm) (cm_image c) (cm_labels c)) (get_container dm alloc_id h)"


section \<open>Statistics\<close>

definition decode_metric :: "daemon \<Rightarrow> alloc_id \<Rightarrow> metric \<Rightarrow> (cd_error, container_stats) result" where
  "decode_metric dm alloc_id m =
    (case mt_data m of
       None \<Rightarrow> Inl (CdMetricsDecode ''missing metric data'')
     | Some data \<Rightarrow>
        (case dm_decode dm data of
           Inl e \<Rightarrow> Inl (CdMetricsDecode (''failed to decode cgroups: '' @ e))
         | Inr cg \<Rightarrow> Inr \<lparr> ct_alloc_id = alloc_id,
             ct_cpu_usage = (case cg_cpu cg of Some (user, system) \<Rightarrow> f64_div (f64_of_u64 (user + system)) (Fin 1000000) | None \<Rightarrow> Fin 0),
             ct_memory_usage = (case cg_memory cg of Some (usage, _) \<Rightarrow> usage | None \<Rightarrow> 0) \<rparr>))"

definition cd_collect :: "daemon \<Rightarrow> alloc_id \<Rightarrow> history \<Rightarrow> (cd_error, container_stats) result" where
  "cd_collect dm alloc_id h =
    (case dm_metrics dm h [''id=='' @ container_id alloc_id] of
       Inl e \<Rightarrow> Inl (CdGrpc e)
     | Inr metrics \<Rightarrow>
        (case List.find (\<lambda>m. mt_id m = container_id alloc_id) metrics of
           None \<Rightarrow> Inl (CdNotFound alloc_id)
         | Some m \<Rightarrow> decode_metric dm alloc_id m))"

definition stats_of_metric :: "daemon \<Rightarrow> metric \<Rightarrow> container_stats option" where
  "stats_of_metric dm m = Option.bind (strip_prefix (mt_id m) ''mill-'') (\<lambda>i. res_ok (decode_metric dm i m))"

definition cd_collect_all :: "daemon \<Rightarrow> history \<Rightarrow> (cd_error, container_stats list) result" where
  "cd_collect_all dm h = map_sum CdGrpc (List.map_filter (stats_of_metric dm)) (dm_metrics dm h [])"


section \<open>Where volumes are mounted\<close>

lemma path_join_relative: "\<not> contains_char p (CHR ''/'') \<Longrightarrow> path_join b p = (if b = [] \<or> ends_with b ''/'' then b @ p else b @ ''/'' @ p)"
  by (auto simp: path_join_def starts_with_iff contains_char_def)

lemma dir_not_slash:
  "volumes_dir dd \<noteq> [] \<and> \<not> ends_with (volumes_dir dd) ''/''" "ephemeral_dir dd \<noteq> [] \<and> \<not> ends_with (ephemeral_dir dd) ''/''"
  by (auto simp: volumes_dir_def ephemeral_dir_def path_join_def starts_with_def ends_with_def)

lemma volume_path_plain:
  "\<not> contains_char (cv_name v) (CHR ''/'') \<Longrightarrow>
    volume_host_path dd v = (if cv_ephemeral v then ephemeral_dir dd else volumes_dir dd) @ ''/'' @ cv_name v"
  using dir_not_slash [of dd] by (simp add: volume_host_path_def path_join_relative)

lemma split_first:
  "xs @ x # ys = xs' @ x # ys' \<Longrightarrow> x \<notin> set xs \<Longrightarrow> x \<notin> set xs' \<Longrightarrow> xs = xs' \<and> ys = ys'"
proof (induction xs arbitrary: xs')
  case Nil
  then show ?case by (cases xs') auto
next
  case (Cons z xs)
  then show ?case by (cases xs') auto
qed

lemma split_last_slash:
  assumes "a @ ''/'' @ p = b @ ''/'' @ q" "CHR ''/'' \<notin> set p" "CHR ''/'' \<notin> set q"
  shows "a = b \<and> p = q"
proof -
  have "rev p @ CHR ''/'' # rev a = rev q @ CHR ''/'' # rev b" using arg_cong [OF assms(1), of rev] by simp
  then have "rev p = rev q \<and> rev a = rev b" by (rule split_first) (use assms(2,3) in simp_all)
  then show ?thesis by simp
qed

lemma dirs_differ: "volumes_dir dd \<noteq> ephemeral_dir dd"
  by (auto simp: volumes_dir_def ephemeral_dir_def path_join_def starts_with_def)

text \<open>
  Volumes whose names have no slash never share a directory of the host: each is mounted from
  a directory of its name below that of its kind. A name that begins with a slash is
  mounted from that path of the host itself, wherever the data of mill are, and nothing checks names.
\<close>

theorem volume_paths:
  assumes "\<not> contains_char (cv_name v) (CHR ''/'')" "\<not> contains_char (cv_name w) (CHR ''/'')"
  shows "(volume_host_path dd v = volume_host_path dd w \<longleftrightarrow> cv_name v = cv_name w \<and> cv_ephemeral v = cv_ephemeral w)
    \<and> volume_host_path dd (u\<lparr> cv_name := CHR ''/'' # cv_name v \<rparr>) = CHR ''/'' # cv_name v"
proof
  show "volume_host_path dd (u\<lparr> cv_name := CHR ''/'' # cv_name v \<rparr>) = CHR ''/'' # cv_name v"
    by (simp add: volume_host_path_def path_join_def starts_with_def)
  let ?d = "\<lambda>v. if cv_ephemeral v then ephemeral_dir dd else volumes_dir dd"
  have s: "CHR ''/'' \<notin> set (cv_name v)" "CHR ''/'' \<notin> set (cv_name w)" using assms by (simp_all add: contains_char_def)
  show "volume_host_path dd v = volume_host_path dd w \<longleftrightarrow> cv_name v = cv_name w \<and> cv_ephemeral v = cv_ephemeral w"
  proof
    assume "volume_host_path dd v = volume_host_path dd w"
    then have "?d v @ ''/'' @ cv_name v = ?d w @ ''/'' @ cv_name w" 
      using volume_path_plain [OF assms(1)] volume_path_plain [OF assms(2)] by simp
    then have "?d v = ?d w \<and> cv_name v = cv_name w" using s by (rule split_last_slash)
    then show "cv_name v = cv_name w \<and> cv_ephemeral v = cv_ephemeral w"
      using dirs_differ [of dd] by (auto split: if_splits)
  qed (simp add: volume_host_path_def)
qed

definition vol1 :: container_volume where
  "vol1 = \<lparr> cv_name = ''etc'', cv_path = ''/data'', cv_ephemeral = False \<rparr>"

theorem volume_paths_witness:
  "volume_host_path ''/var/lib/mill'' vol1 \<noteq> volume_host_path ''/var/lib/mill'' (vol1\<lparr> cv_ephemeral := True \<rparr>)
    \<and> volume_host_path ''/var/lib/mill'' (vol1\<lparr> cv_name := ''/etc'' \<rparr>) = ''/etc''"
  using volume_paths [of vol1 "vol1\<lparr> cv_ephemeral := True \<rparr>" "''/var/lib/mill''" vol1] by (simp add: vol1_def contains_char_def)


section \<open>What the labels carry over a restart\<close>

definition codec_ok :: "label_codec \<Rightarrow> container_spec \<Rightarrow> bool" where
  "codec_ok lc spec \<longleftrightarrow>
    (case lc_volumes lc (cs_volumes spec) of Inr s \<Rightarrow> lc_parse_volumes lc s = Inr (cs_volumes spec) | Inl _ \<Rightarrow> False)
    \<and> (case cs_command spec of
         None \<Rightarrow> True
       | Some c \<Rightarrow> (case lc_command lc c of Inr s \<Rightarrow> lc_parse_command lc s = Inr c | Inl _ \<Rightarrow> False))"

definition label_opt :: "string \<Rightarrow> string option \<Rightarrow> (string, string) hash_map \<Rightarrow> (string, string) hash_map" where
  "label_opt k v m = (case v of Some x \<Rightarrow> hm_insert k x m | None \<Rightarrow> m)"

lemma label_opt_get: "hm_get (label_opt k v m) x = (if x = k \<and> v \<noteq> None then v else hm_get m x)"
  by (auto simp: label_opt_def split: option.split)

lemma label_if_ok_opt: "label_if_ok k r m = label_opt k (res_ok r) m"
  by (simp add: label_if_ok_def label_opt_def res_ok_def split: sum.split)

lemma opt_labels:
  "(case v of Some x \<Rightarrow> hm_insert k (f x) m | None \<Rightarrow> m) = label_opt k (map_option f v) m"
  "(case v of Some x \<Rightarrow> label_opt k (g x) m | None \<Rightarrow> m) = label_opt k (Option.bind v g) m"
  "(if b then label_opt k u m else m) = label_opt k (if b then u else None) m"
  by (simp_all add: label_opt_def split: option.split)

lemma insert_label: "hm_insert k x m = label_opt k (Some x) m"
  by (simp add: label_opt_def)

lemma build_labels_opt:
  "build_labels lc spec =
    label_opt ''mill.command'' (Option.bind (cs_command spec) (\<lambda>c. res_ok (lc_command lc c)))
    (label_opt ''mill.timeout'' (map_option (\<lambda>t. show_nat (t div 10 ^ 9)) (cs_timeout spec))
    (label_opt ''mill.kind'' (Some (show_alloc_kind (cs_kind spec)))
    (label_opt ''mill.volumes'' (if cs_volumes spec \<noteq> [] then res_ok (lc_volumes lc (cs_volumes spec)) else None)
    (label_opt ''mill.memory'' (Some (show_word (cs_memory spec)))
    (label_opt ''mill.cpu'' (Some (show_f64 (cs_cpu spec)))
    (label_opt ''mill.host-port'' (map_option (\<lambda>p. show_word p) (cs_host_port spec))
    (label_opt ''mill.alloc-id'' (Some (cs_alloc_id spec)) (label_opt ''mill.managed'' (Some ''true'') []))))))))"
  unfolding build_labels_def Let_def label_if_ok_opt opt_labels unfolding insert_label ..

lemma labels_get:
  "hm_get (build_labels lc spec) ''mill.kind'' = Some (show_alloc_kind (cs_kind spec))"
  "hm_get (build_labels lc spec) ''mill.cpu'' = Some (show_f64 (cs_cpu spec))"
  "hm_get (build_labels lc spec) ''mill.memory'' = Some (show_word (cs_memory spec))"
  "hm_get (build_labels lc spec) ''mill.alloc-id'' = Some (cs_alloc_id spec)"
  "hm_get (build_labels lc spec) ''mill.host-port'' = map_option (\<lambda>p. show_word p) (cs_host_port spec)"
  "hm_get (build_labels lc spec) ''mill.timeout'' = map_option (\<lambda>t. show_nat (t div 10 ^ 9)) (cs_timeout spec)"
  "hm_get (build_labels lc spec) ''mill.volumes'' = (if cs_volumes spec \<noteq> [] then res_ok (lc_volumes lc (cs_volumes spec)) else None)"
  "hm_get (build_labels lc spec) ''mill.command'' = Option.bind (cs_command spec) (\<lambda>c. res_ok (lc_command lc c))"
  unfolding build_labels_opt label_opt_get by simp_all

lemma parse_show_word: "parse_unsigned (2 ^ LENGTH('a)) (show_word w) = Some (unat w)" for w :: "'a::len word"
  using unsigned_less [of w, where ?'a = nat] by (rule parse_unsigned_show)

text \<open>
  (C28) What a node recovers about a container after a restart is what it was started with: the labels
  that were written read back to the same kind, command, port, processor share, memory and
  volumes; a timeout is cut to whole seconds, and the environment and the port inside are not kept.
\<close>

theorem recover_roundtrip:
  assumes "dm_container dm h (container_id (cs_alloc_id spec)) = Inr (Some c)" "cm_image c = cs_image spec"
    and "cm_labels c = build_labels (dm_labels dm) spec" "codec_ok (dm_labels dm) spec" "is_f64 (cs_cpu spec)"
    and "case cs_timeout spec of Some t \<Rightarrow> t div 10 ^ 9 < 2 ^ 64 | None \<Rightarrow> True"
  shows "map_sum id (recovered_spec (cs_alloc_id spec)) (cd_recover_info dm h (cs_alloc_id spec)) =
    Inr (spec\<lparr> cs_timeout := map_option (\<lambda>t. t div 10 ^ 9 * 10 ^ 9) (cs_timeout spec), cs_env := [],
      cs_port := map_option (\<lambda>_. 0) (cs_host_port spec) \<rparr>)"
proof -
  let ?r = "recover_labels (dm_labels dm) (cm_image c) (cm_labels c)"
  have "rc_kind ?r = cs_kind spec" by (cases "cs_kind spec") (simp_all add: recover_labels_def assms(3) labels_get)
  moreover have "rc_timeout ?r = map_option (\<lambda>t. t div 10 ^ 9 * 10 ^ 9) (cs_timeout spec)"
    using assms(6) parse_unsigned_show [of _ "2 ^ 64"]
    by (cases "cs_timeout spec") (simp_all add: recover_labels_def assms(3) labels_get)
  moreover have "rc_command ?r = cs_command spec"
    using assms(4) by (auto simp: recover_labels_def assms(3) labels_get codec_ok_def res_ok_def split: option.splits sum.splits)
  moreover have "rc_host_port ?r = cs_host_port spec"
    using parse_show_word [where 'a = 16] by (cases "cs_host_port spec") (simp_all add: recover_labels_def assms(3) labels_get)
  moreover have "rc_cpu ?r = cs_cpu spec"
    by (simp add: recover_labels_def assms(3) labels_get show_f64_roundtrip [OF assms(5)])
  moreover have "rc_memory ?r = cs_memory spec"
    using parse_show_word [where 'a = 64] by (simp add: recover_labels_def assms(3) labels_get)
  moreover have "rc_volumes ?r = cs_volumes spec"
    using assms(4) by (auto simp: recover_labels_def assms(3) labels_get codec_ok_def res_ok_def split: option.splits sum.splits)
  moreover have "rc_image ?r = cs_image spec" by (simp add: recover_labels_def assms(2))
  ultimately show ?thesis using assms(1)
    by (simp add: cd_recover_info_def get_container_def recovered_spec_def)
qed


section \<open>What a failed start leaves\<close>

text \<open>What a container has, as far as the history tells.\<close>

datatype resource = RSnapshot | RContainer | RLogs | RTask

fun held_step :: "cd_op \<times> bool \<Rightarrow> resource set \<Rightarrow> resource set" where
  "held_step (OpPrepare _ _, True) rs = insert RSnapshot rs"
| "held_step (OpCreateContainer _, True) rs = insert RContainer rs"
| "held_step (OpMkDirs _, True) rs = insert RLogs rs"
| "held_step (OpCreateTask _ _ _ _, True) rs = insert RTask rs"
| "held_step (OpRemoveSnapshot _, True) rs = rs - {RSnapshot}"
| "held_step (OpDeleteContainer _, True) rs = rs - {RContainer}"
| "held_step (OpRemoveDirs _, True) rs = rs - {RLogs}"
| "held_step (OpDeleteTask _, True) rs = rs - {RTask}"
| "held_step _ rs = rs"

definition held :: "history \<Rightarrow> resource set" where
  "held h = fold held_step h {}"

lemma held_append [simp]: "held (h @ xs) = fold held_step xs (held h)"
  by (simp add: held_def)

fun deletes :: "cd_op \<Rightarrow> bool" where
  "deletes (OpRemoveSnapshot _) = True"
| "deletes (OpDeleteContainer _) = True"
| "deletes (OpRemoveDirs _) = True"
| "deletes (OpDeleteTask _) = True"
| "deletes _ = False"

definition deletes_work :: "daemon \<Rightarrow> bool" where
  "deletes_work dm \<longleftrightarrow> (\<forall>h op. deletes op \<longrightarrow> dm_unit dm h op = None \<and> dm_io dm h op = None)"

fun is_create_task :: "cd_op \<Rightarrow> bool" where
  "is_create_task (OpCreateTask _ _ _ _) = True"
| "is_create_task _ = False"

definition tried :: "history \<Rightarrow> bool" where
  "tried h \<longleftrightarrow> list_ex (\<lambda>(op, _). is_create_task op) h"

lemma tried_append [simp]: "tried (h @ xs) \<longleftrightarrow> tried h \<or> list_ex (\<lambda>(op, _). is_create_task op) xs"
  by (simp add: tried_def)

lemma tried_Nil [simp]: "\<not> tried []"
  by (simp add: tried_def)

lemma held_Nil [simp]: "held [] = {}"
  by (simp add: held_def)

text \<open>Reading an image takes nothing.\<close>

lemma read_content_held: "read_content dm d h = (r, h') \<Longrightarrow> held h' = held h \<and> tried h' = tried h"
  by (auto simp: read_content_def Let_def)

lemma read_json_held: "read_json dm img what d h = (r, h') \<Longrightarrow> held h' = held h \<and> tried h' = tried h"
  by (auto simp: read_json_def split: prod.splits sum.splits dest: read_content_held)

lemma resolve_manifest_held: "resolve_manifest dm img m h = (r, h') \<Longrightarrow> held h' = held h \<and> tried h' = tried h"
  by (auto simp: resolve_manifest_def Let_def split: if_splits option.splits dest: read_json_held)

lemma info_of_manifest_held: "info_of_manifest dm img m h = (r, h') \<Longrightarrow> held h' = held h \<and> tried h' = tried h"
  by (auto simp: info_of_manifest_def split: option.splits prod.splits sum.splits dest: read_json_held)

lemma read_image_info_held:
  assumes "read_image_info dm img h = (r, h')"
  shows "held h' = held h \<and> tried h' = tried h"
proof -
  define h0 where "h0 = h @ [(OpGetImage img, is_ok (dm_image dm h img))]"
  have h0: "held h0 = held h" "tried h0 = tried h" by (simp_all add: h0_def)
  show ?thesis
  proof (cases "h' = h0")
    case False
    then obtain d where d: "dm_image dm h img = Inr (Some (Some d))"
      using assms by (auto simp: read_image_info_def Let_def h0_def split: sum.splits option.splits)
    then have h0': "h0 = h @ [(OpGetImage img, True)]" by (simp add: h0_def)
    obtain a h1 where a: "read_json dm img ''manifest'' d h0 = (a, h1)" by force
    note h1 = read_json_held [OF a]
    show ?thesis
    proof (cases a)
      case (Inl e)
      then show ?thesis using assms h0 h1 by (simp add: read_image_info_def Let_def d a flip: h0')
    next
      case (Inr m)
      obtain b h2 where b: "resolve_manifest dm img m h1 = (b, h2)" by force
      note h2 = resolve_manifest_held [OF b]
      show ?thesis
        using assms h0 h1 h2 info_of_manifest_held [of dm img _ h2 r h']
        by (cases b) (simp_all add: read_image_info_def Let_def d a b Inr flip: h0')
    qed
  qed (simp add: h0)
qed

text \<open>The steps of a start.\<close>

lemma prepare_rootfs_held:
  assumes "prepare_rootfs dm cid p h = (r, h')"
  shows "held h' \<subseteq> insert RSnapshot (held h)" "tried h' = tried h"
    "is_ok r \<Longrightarrow> RSnapshot \<in> held h' \<or> (OpPrepare cid p, False) \<in> set h'"
  using assms by (auto simp: prepare_rootfs_def Let_def is_ok_iff split: sum.splits if_splits)

lemma register_container_held:
  assumes "register_container dm spec oci h = (r, h')"
  shows "held h' = (if is_ok r then insert RContainer (held h) else held h)" "tried h' = tried h" "set h \<subseteq> set h'"
  using assms by (auto simp: register_container_def unit_call_def Let_def is_ok_iff split: option.splits if_splits)

lemma create_fifo_held: "create_fifo dm p h = (r, h') \<Longrightarrow> held h' = held h \<and> tried h' = tried h \<and> set h \<subseteq> set h'"
  by (auto simp: create_fifo_def io_call_def split: option.splits if_splits prod.splits)

lemma mkdirs_held: "held_step (OpMkDirs p, b) rs - {RLogs} = rs - {RLogs}"
  by (cases b) auto

lemma setup_fifos_held:
  assumes "setup_fifos dm d i h = (r, h')"
  shows "held h' - {RLogs} = held h - {RLogs}" "tried h' = tried h" "set h \<subseteq> set h'"
proof -
  let ?p = "path_join d i"
  define h1 where "h1 = h @ [(OpMkDirs ?p, dm_io dm h (OpMkDirs ?p) = None)]"
  have h1: "held h1 - {RLogs} = held h - {RLogs}" "tried h1 = tried h" "set h \<subseteq> set h1"
    by (auto simp: h1_def mkdirs_held simp del: held_step.simps)
  have io: "io_call dm (OpMkDirs ?p) h = (dm_io dm h (OpMkDirs ?p), h1)" by (simp add: io_call_def h1_def)
  obtain a h2 where a: "create_fifo dm (path_join ?p ''stdout'') h1 = (a, h2)" by force
  obtain b h3 where b: "create_fifo dm (path_join ?p ''stderr'') h2 = (b, h3)" by force
  note h2 = create_fifo_held [OF a] and h3 = create_fifo_held [OF b]
  have "h' = h1 \<or> h' = h2 \<or> h' = h3"
    using assms unfolding setup_fifos_def Let_def io prod.case a b
    by (cases "dm_io dm h (OpMkDirs ?p)"; cases a; cases b) (simp_all add: a b)
  then show "held h' - {RLogs} = held h - {RLogs}" "tried h' = tried h" "set h \<subseteq> set h'" using h1 h2 h3 by auto
qed

lemma undo_held:
  assumes "deletes_work dm"
  shows "snd (cd_delete_task dm cid h) = h @ [(OpDeleteTask cid, True)]"
    "snd (cd_delete_container dm cid h) = h @ [(OpDeleteContainer cid, True)]"
    "snd (cd_delete_snapshot dm cid h) = h @ [(OpRemoveSnapshot cid, True)]"
    "cleanup_fifos dm d i h = h @ [(OpRemoveDirs (path_join d i), True)]"
  using assms by (simp_all add: deletes_work_def cd_delete_task_def cd_delete_container_def cd_delete_snapshot_def
      delete_call_def unit_call_def cleanup_fifos_def io_call_def)

lemma run_task_held:
  assumes "deletes_work dm" "run_task dm d i mounts pipes h = (Inl e, h')"
  shows "held h' \<subseteq> held h - {RSnapshot, RContainer, RLogs}" "tried h'"
  using assms(2) by (auto simp: run_task_def Let_def unit_call_def undo_held [OF assms(1)] split: option.splits)

lemma failed_start_cases:
  assumes "create_and_start dm dd spec h = (Inl e, h')" "read_image_info dm (cs_image spec) h = (a, h1)"
  shows "h' = h1 \<or> (\<exists>info :: image_info. \<exists>b. prepare_rootfs dm (container_id (cs_alloc_id spec)) (im_chain_id info) h1 = (b, h'))
    \<or> (\<exists>info :: image_info. \<exists>oci mounts h2.
        prepare_rootfs dm (container_id (cs_alloc_id spec)) (im_chain_id info) h1 = (Inr mounts, h2)
        \<and> start_prepared dm dd spec oci mounts h2 = (Inl e, h'))"
proof (cases a)
  case (Inr info)
  obtain r h2 where p: "prepare_rootfs dm (container_id (cs_alloc_id spec)) (im_chain_id info) h1 = (r, h2)" by force
  show ?thesis
  proof (cases "build_oci_spec (dm_netns dm) (dm_default_mounts dm) (dm_build dm) dd spec info")
    case (Inr oci)
    show ?thesis
    proof (cases r)
      case (Inl x)
      then have "h' = h2" using assms \<open>a = Inr info\<close> Inr by (simp add: create_and_start_def p)
      then show ?thesis using p by blast
    next
      case (Inr mounts)
      then have "start_prepared dm dd spec oci mounts h2 = (Inl e, h')"
        using assms \<open>a = Inr info\<close> \<open>build_oci_spec _ _ _ _ _ _ = _\<close> by (simp add: create_and_start_def p)
      then show ?thesis using p Inr by blast
    qed
  qed (use assms Inr in \<open>simp add: create_and_start_def\<close>)
qed (use assms in \<open>simp add: create_and_start_def\<close>)


definition json1 :: jvalue where
  "json1 = JvObject [(''config'', JvObject [(''digest'', JvString ''c'')]),
     (''rootfs'', JvObject [(''diff_ids'', JvArray [JvString ''layer''])])]"

definition codec1 :: label_codec where
  "codec1 = \<lparr> lc_volumes = (\<lambda>_. Inr ''[]''), lc_parse_volumes = (\<lambda>_. Inr []),
     lc_command = (\<lambda>_. Inl []), lc_parse_command = (\<lambda>_. Inl []) \<rparr>"

definition daemon1 :: "(cd_op \<Rightarrow> grpc_status option) \<Rightarrow> (cd_op \<Rightarrow> string option) \<Rightarrow> container_meta option \<Rightarrow> daemon" where
  "daemon1 unit io c = \<lparr> dm_unit = (\<lambda>_. unit), dm_mounts = (\<lambda>_ _. Inr [''overlay'']), dm_image = (\<lambda>_ _. Inr (Some (Some ''m''))),
     dm_content = (\<lambda>_ _. Inr []), dm_wait = (\<lambda>_ _. Inr 0), dm_in_time = (\<lambda>_. True), dm_container = (\<lambda>_ _. Inr c),
     dm_list = (\<lambda>_ _. Inr []), dm_metrics = (\<lambda>_ _. Inr []), dm_exists = (\<lambda>_ _. False), dm_io = (\<lambda>_. io),
     dm_json = (\<lambda>_. Inr json1), dm_sha256 = (\<lambda>_. []), dm_decode = (\<lambda>_. Inl []), dm_arch = ''x86_64'', dm_netns = None,
     dm_default_mounts = [], dm_build = (\<lambda>_. None), dm_labels = codec1 \<rparr>"

definition spec2 :: container_spec where
  "spec2 = \<lparr> cs_alloc_id = ''web-1'', cs_kind = KService, cs_timeout = Some 1500000000, cs_command = None, cs_image = ''nginx'',
     cs_env = [], cs_port = Some 80, cs_host_port = Some 10000, cs_cpu = Fin 1, cs_memory = 1024, cs_volumes = [] \<rparr>"

fun start_fails :: "cd_op \<Rightarrow> grpc_status option" where
  "start_fails (OpStart _) = Some \<lparr> gs_code = OtherCode 13, gs_message = ''runc'' \<rparr>"
| "start_fails _ = None"

fun fifo_fails :: "cd_op \<Rightarrow> string option" where
  "fifo_fails (OpMkFifo _) = Some ''no space''"
| "fifo_fails _ = None"

lemmas run1_simps = create_and_start_def read_image_info_def read_json_def read_content_def resolve_manifest_def
  info_of_manifest_def info_of_config_def str_array_def jv_index_def json1_def daemon1_def build_oci_spec_def prepare_rootfs_def
  start_prepared_def register_container_def unit_call_def setup_fifos_def create_fifo_def io_call_def run_task_def
  cd_delete_task_def cd_delete_container_def cd_delete_snapshot_def delete_call_def cleanup_fifos_def Let_def spec2_def

lemma deletes_work1: "deletes_work (daemon1 start_fails (\<lambda>_. None) None)" "deletes_work (daemon1 (\<lambda>_. None) fifo_fails None)"
proof -
  have "deletes op \<Longrightarrow> start_fails op = None \<and> fifo_fails op = None" for op by (cases op) auto
  then show "deletes_work (daemon1 start_fails (\<lambda>_. None) None)" "deletes_work (daemon1 (\<lambda>_. None) fifo_fails None)"
    by (simp_all add: deletes_work_def daemon1_def)
qed


definition no_log_io :: "(cd_error, 'a) result \<Rightarrow> bool" where
  "no_log_io r \<longleftrightarrow> (\<forall>x. r \<noteq> Inl (CdLogIo x))"

lemma no_log_io_simps [simp]:
  "no_log_io (Inr a)" "no_log_io (Inl (CdGrpc g))" "no_log_io (Inl (CdImagePull i m))" "no_log_io (Inl (CdSpecBuild m))"
  "no_log_io (Inl (CdAlreadyExists m))" "no_log_io (map_sum CdGrpc f r)" "no_log_io (map_sum (\<lambda>e. CdImagePull i (k e)) f q)"
  "\<not> no_log_io (Inl (CdLogIo x))"
  by (auto simp: no_log_io_def map_sum_def split: sum.splits)

lemma read_json_error: "no_log_io (fst (read_json dm img what d h))"
proof -
  obtain r h' where r: "read_content dm d h = (r, h')" by force
  then have "no_log_io r" by (auto simp: read_content_def Let_def)
  then show ?thesis by (cases r; cases "dm_json dm (projr r)") (auto simp: read_json_def r no_log_io_def)
qed

lemma info_of_manifest_error: "no_log_io (fst (info_of_manifest dm img m h))"
proof (cases "as_str (jv_index (jv_index m ''config'') ''digest'')")
  case (Some d)
  obtain r h' where r: "read_json dm img ''image config'' d h = (r, h')" by force
  have "no_log_io r" using read_json_error [of dm img "''image config''" d h] r by simp
  then show ?thesis
    by (cases r) (auto simp: info_of_manifest_def Some r no_log_io_def info_of_config_def Let_def split: option.splits)
qed (simp add: info_of_manifest_def)

lemma resolve_manifest_error: "no_log_io (fst (resolve_manifest dm img m h))"
  using read_json_error by (simp add: resolve_manifest_def Let_def split: option.split)

lemma read_image_info_error: "no_log_io (fst (read_image_info dm img h))"
proof -
  let ?h = "h @ [(OpGetImage img, is_ok (dm_image dm h img))]"
  have "no_log_io (fst (case read_json dm img ''manifest'' d h1 of (Inl e, h) \<Rightarrow> (Inl e, h)
    | (Inr m, h) \<Rightarrow> (case resolve_manifest dm img m h of (Inl e, h) \<Rightarrow> (Inl e, h)
       | (Inr m, h) \<Rightarrow> info_of_manifest dm img m h)))" for d h1
  proof -
    obtain a h2 where a: "read_json dm img ''manifest'' d h1 = (a, h2)" by force
    have na: "no_log_io a" using read_json_error [of dm img "''manifest''" d h1] a by simp
    show ?thesis
    proof (cases a)
      case (Inr m)
      obtain b h3 where b: "resolve_manifest dm img m h2 = (b, h3)" by force
      have "no_log_io b" using resolve_manifest_error [of dm img m h2] b by simp
      then show ?thesis using info_of_manifest_error by (cases b) (simp_all add: a b Inr no_log_io_def)
    qed (use na in \<open>simp add: a no_log_io_def\<close>)
  qed
  then show ?thesis by (simp add: read_image_info_def Let_def split: sum.split option.split)
qed

text \<open>
  (C39) When the log pipes of a container cannot be made, the start removes the container
  and leaves its snapshot: the one it prepared, or the one it found.
\<close>

theorem failed_pipes_leave_snapshot:
  assumes "deletes_work dm" "create_and_start dm dd spec [] = (Inl (CdLogIo x), h')"
  shows "RContainer \<notin> held h' \<and> (RSnapshot \<in> held h' \<or> (\<exists>p. (OpPrepare (container_id (cs_alloc_id spec)) p, False) \<in> set h'))"
proof -
  let ?cid = "container_id (cs_alloc_id spec)"
  obtain a h1 where i: "read_image_info dm (cs_image spec) [] = (a, h1)" by force
  have "no_log_io a" using read_image_info_error [of dm "cs_image spec" "[]"] i by simp
  then obtain info where a: "a = Inr info" using assms(2) by (cases a) (auto simp: create_and_start_def i)
  obtain oci where o1: "build_oci_spec (dm_netns dm) (dm_default_mounts dm) (dm_build dm) dd spec info = Inr oci"
    using assms(2) by (auto simp: create_and_start_def i a build_oci_spec_def Let_def split: option.splits)
  obtain b h2 where b: "prepare_rootfs dm ?cid (im_chain_id info) h1 = (b, h2)" by force
  have "no_log_io b" using b by (auto simp: prepare_rootfs_def Let_def split: sum.splits if_splits)
  then obtain mounts where m: "b = Inr mounts" using assms(2) by (cases b) (auto simp: create_and_start_def i a o1 b)
  have st: "start_prepared dm dd spec oci mounts h2 = (Inl (CdLogIo x), h')"
    using assms(2) by (simp add: create_and_start_def i a o1 b m)
  obtain c h3 where c: "register_container dm spec oci h2 = (c, h3)" by force
  have "no_log_io c" using c by (auto simp: register_container_def unit_call_def Let_def split: option.splits if_splits)
  then obtain u where u: "c = Inr u" using st by (cases c) (auto simp: start_prepared_def c)
  obtain f h4 where f: "setup_fifos dm (logs_dir dd) (cs_alloc_id spec) h3 = (f, h4)" by force
  have "\<exists>y. f = Inl y"
    using st by (cases f) (auto simp: start_prepared_def c u f run_task_def Let_def unit_call_def split: option.splits)
  then have h': "h' = h4 @ [(OpDeleteContainer ?cid, True)]"
    using st by (auto simp: start_prepared_def c u f undo_held [OF assms(1)])
  note s = setup_fifos_held [OF f] and r = register_container_held [OF c] and p = prepare_rootfs_held(3) [OF b]
  have "RSnapshot \<in> held h4 \<longleftrightarrow> RSnapshot \<in> held h2" using s(1) r(1) by (auto simp: u)
  then show ?thesis using p s(3) r(3) by (auto simp: h' m)
qed

theorem failed_pipes_leave_snapshot_witness:
  "\<exists>h'. create_and_start (daemon1 (\<lambda>_. None) fifo_fails None) ''/var/lib/mill'' spec2 [] = (Inl (CdLogIo ''no space''), h')
    \<and> RContainer \<notin> held h'"
proof -
  obtain h' where r: "create_and_start (daemon1 (\<lambda>_. None) fifo_fails None) ''/var/lib/mill'' spec2 [] = (Inl (CdLogIo ''no space''), h')"
    by (simp add: run1_simps)
  then show ?thesis using failed_pipes_leave_snapshot [OF deletes_work1(2) r] by blast
qed

definition meta1 :: container_meta where
  "meta1 = \<lparr> cm_id = ''mill-web-1'', cm_image = ''nginx'',
     cm_spec = projr (build_oci_spec None [] (\<lambda>_. None) ''/'' spec2 \<lparr> im_chain_id = [], im_default_command = [], im_default_env = [] \<rparr>),
     cm_snapshot_key = ''mill-web-1'', cm_labels = build_labels codec1 spec2 \<rparr>"

theorem recover_roundtrip_witness:
  "map_sum id (recovered_spec ''web-1'') (cd_recover_info (daemon1 (\<lambda>_. None) (\<lambda>_. None) (Some meta1)) [] ''web-1'') =
    Inr (spec2\<lparr> cs_timeout := Some 1000000000, cs_env := [], cs_port := Some 0 \<rparr>)"
proof -
  let ?dm = "daemon1 (\<lambda>_. None) (\<lambda>_. None) (Some meta1)"
  have "dm_container ?dm [] (container_id (cs_alloc_id spec2)) = Inr (Some meta1)" "cm_image meta1 = cs_image spec2"
    "cm_labels meta1 = build_labels (dm_labels ?dm) spec2" "codec_ok (dm_labels ?dm) spec2" "is_f64 (cs_cpu spec2)"
    by (simp_all add: daemon1_def meta1_def codec_ok_def codec1_def is_f64_def) (simp_all add: spec2_def)
  from recover_roundtrip [OF this] show ?thesis by (simp add: spec2_def)
qed

end
