(* ===== verification/Mesh.thy ===== *)
theory Mesh
  imports Text Decimal
begin

text \<open>
  The private network of the nodes, \<^verbatim>\<open>crates/net/src/wireguard\<close>: the commands that make the
  interface and its peers, the list of peers read from the output of \<^verbatim>\<open>wg\<close>, subnets, and the
  file of the private key. What a command does is a parameter: it answers from the commands so far.
  The readers of addresses are those of the standard library.
\<close>

unbundle bit_operations_syntax

section \<open>Addresses read from text\<close>

text \<open>A decimal octet has at most three digits and no leading zero.\<close>

definition parse_octet :: "string \<Rightarrow> nat option" where
  "parse_octet s =
    (if s = [] \<or> length s > 3 \<or> (length s > 1 \<and> hd s = CHR ''0'') then None
     else Option.bind (parse_digits 0 s) (\<lambda>n. if n < 256 then Some n else None))"

definition v4_of_octets :: "nat list \<Rightarrow> 32 word" where
  "v4_of_octets os = word_of_nat (foldl (\<lambda>a b. a * 256 + b) 0 os)"

definition parse_v4 :: "string \<Rightarrow> 32 word option" where
  "parse_v4 s =
    (case map parse_octet (split_char CHR ''.'' s) of
       [Some a, Some b, Some c, Some d] \<Rightarrow> Some (v4_of_octets [a, b, c, d])
     | _ \<Rightarrow> None)"

text \<open>The front of a string that is an IPv4 address: three octets and points, then the digits that follow.\<close>

definition read_v4 :: "string \<Rightarrow> (32 word \<times> string) option" where
  "read_v4 s =
    (case split_char CHR ''.'' s of
       a # b # c # d # rest \<Rightarrow>
         let e = takeWhile is_digit d
         in map_option (\<lambda>w. (w, join_with ''.'' (drop (length e) d # rest))) (parse_v4 (join_with ''.'' [a, b, c, e]))
     | _ \<Rightarrow> None)"

text \<open>A group of an IPv6 address, one to four hexadecimal digits.\<close>

definition read_group :: "string \<Rightarrow> (nat \<times> string) option" where
  "read_group s =
    (let ds = takeWhile (\<lambda>c. hex_val c \<noteq> None) s
     in if ds = [] \<or> length ds > 4 then None
        else map_option (\<lambda>n. (n, drop (length ds) s)) (parse_hex_digits 0 ds))"

definition read_separator :: "bool \<Rightarrow> string \<Rightarrow> string option" where
  "read_separator first s = (if first then Some s else strip_prefix s '':'')"

text \<open>At most so many groups, the last two of which may be an IPv4 address; whether they were, and the rest.\<close>

fun read_groups :: "bool \<Rightarrow> nat \<Rightarrow> string \<Rightarrow> nat list \<times> bool \<times> string" where
  "read_groups first 0 s = ([], False, s)"
| "read_groups first (Suc n) s =
    (case (if 1 \<le> n then Option.bind (read_separator first s) read_v4 else None) of
       Some (w, t) \<Rightarrow> ([unat (drop_bit 16 w), unat (w AND 0xFFFF)], True, t)
     | None \<Rightarrow>
        (case Option.bind (read_separator first s) read_group of
           Some (g, t) \<Rightarrow> (case read_groups False n t of (gs, v4, u) \<Rightarrow> (g # gs, v4, u))
         | None \<Rightarrow> ([], False, s)))"

definition v6_of_segments :: "nat list \<Rightarrow> 128 word" where
  "v6_of_segments gs = word_of_nat (foldl (\<lambda>a b. a * 65536 + b) 0 gs)"

definition read_v6 :: "string \<Rightarrow> (128 word \<times> string) option" where
  "read_v6 s =
    (case read_groups True 8 s of (head, v4, t) \<Rightarrow>
       if length head = 8 then Some (v6_of_segments head, t)
       else if v4 then None
       else Option.bind (strip_prefix t ''::'') (\<lambda>u.
         case read_groups True (8 - (length head + 1)) u of (tail, _, r) \<Rightarrow>
           Some (v6_of_segments (head @ replicate (8 - length head - length tail) 0 @ tail), r)))"

definition parse_v6 :: "string \<Rightarrow> 128 word option" where
  "parse_v6 s = (case read_v6 s of Some (w, r) \<Rightarrow> if r = [] then Some w else None | None \<Rightarrow> None)"

definition parse_ip_addr :: "string \<Rightarrow> ip_addr option" where
  "parse_ip_addr s = (case parse_v4 s of Some w \<Rightarrow> Some (V4 w) | None \<Rightarrow> map_option V6 (parse_v6 s))"

definition parse_port :: "string \<Rightarrow> u16 option" where
  "parse_port s =
    (if s = [] then None
     else Option.bind (parse_digits 0 s) (\<lambda>n. if n < 65536 then Some (word_of_nat n) else None))"

text \<open>An IPv6 address is in brackets, with a scope that is not kept.\<close>

definition parse_scope :: "string \<Rightarrow> string option" where
  "parse_scope s =
    (case strip_prefix s ''%'' of
       None \<Rightarrow> Some s
     | Some t \<Rightarrow>
        let ds = takeWhile is_digit t
        in if ds = [] then None
           else Option.bind (parse_digits 0 ds) (\<lambda>n. if n < 2 ^ 32 then Some (drop (length ds) t) else None))"

definition parse_socket_addr :: "string \<Rightarrow> socket_addr option" where
  "parse_socket_addr s =
    (case Option.bind (split_once s '':'') (\<lambda>(ip, port).
            Option.bind (parse_v4 ip) (\<lambda>w. map_option (\<lambda>p. \<lparr> sa_ip = V4 w, sa_port = p \<rparr>) (parse_port port))) of
       Some a \<Rightarrow> Some a
     | None \<Rightarrow>
        Option.bind (strip_prefix s ''['') (\<lambda>t.
        Option.bind (read_v6 t) (\<lambda>(w, u).
        Option.bind (parse_scope u) (\<lambda>u.
        Option.bind (strip_prefix u '']:'') (\<lambda>port.
        map_option (\<lambda>p. \<lparr> sa_ip = V6 w, sa_port = p \<rparr>) (parse_port port))))))"


section \<open>Commands\<close>

datatype net_error =
    NetCommand string string
  | CommandNotFound string
  | NetBind string string
  | NetIo string
  | DnsProtocol string
  | InvalidAddress string

record cmd =
  co_program :: string
  co_args :: "string list"
  co_stdin :: "string option"

text \<open>How a command ends: it does not exist, cannot be run, or exits with its success and its output as text.\<close>

datatype proc_outcome = NoProgram | ProcError string | Exited bool string string

type_synonym host = "cmd list \<Rightarrow> cmd \<Rightarrow> proc_outcome"

definition run_cmd :: "host \<Rightarrow> cmd \<Rightarrow> cmd list \<Rightarrow> (net_error, string) result \<times> cmd list" where
  "run_cmd host c h =
    ((case host h c of
        NoProgram \<Rightarrow> Inl (CommandNotFound (co_program c))
      | ProcError e \<Rightarrow> Inl (NetIo e)
      | Exited success out err \<Rightarrow>
          if \<not> success then Inl (NetCommand (co_program c) (str_trim err)) else Inr (str_trim out)),
     h @ [c])"

definition run_command :: "host \<Rightarrow> string \<Rightarrow> string list \<Rightarrow> cmd list \<Rightarrow> (net_error, string) result \<times> cmd list" where
  "run_command host program args = run_cmd host \<lparr> co_program = program, co_args = args, co_stdin = None \<rparr>"

definition run_command_stdin ::
  "host \<Rightarrow> string \<Rightarrow> string list \<Rightarrow> string \<Rightarrow> cmd list \<Rightarrow> (net_error, string) result \<times> cmd list" where
  "run_command_stdin host program args data =
    run_cmd host \<lparr> co_program = program, co_args = args, co_stdin = Some data \<rparr>"

fun run_all :: "host \<Rightarrow> cmd list \<Rightarrow> cmd list \<Rightarrow> (net_error, unit) result \<times> cmd list" where
  "run_all host [] h = (Inr (), h)"
| "run_all host (c # cs) h =
    (case run_cmd host c h of
       (Inl e, h) \<Rightarrow> (Inl e, h)
     | (Inr _, h) \<Rightarrow> run_all host cs h)"

definition generate_keypair :: "host \<Rightarrow> cmd list \<Rightarrow> (net_error, string \<times> string) result \<times> cmd list" where
  "generate_keypair host h =
    (case run_command host ''wg'' [''genkey''] h of
       (Inl e, h) \<Rightarrow> (Inl e, h)
     | (Inr private_key, h) \<Rightarrow>
        (case run_command_stdin host ''wg'' [''pubkey''] private_key h of
           (Inl e, h) \<Rightarrow> (Inl e, h)
         | (Inr public_key, h) \<Rightarrow> (Inr (private_key, public_key), h)))"


section \<open>The private key\<close>

text \<open>
  The file of the key with its mode, if it is there. Saving it goes through the states of
  \<open>save_key\<close> in turn: the file is written with the mode that new files get, then the mode is set,
  384, which is 600 in octal.
\<close>

record key_file =
  kf_content :: string
  kf_mode :: nat

definition save_key :: "nat \<Rightarrow> string \<Rightarrow> key_file option list" where
  "save_key default_mode private_key =
    [Some \<lparr> kf_content = private_key, kf_mode = default_mode \<rparr>,
     Some \<lparr> kf_content = private_key, kf_mode = 384 \<rparr>]"

text \<open>The keys and the states that the file goes through; without a path there is no file.\<close>

definition load_or_generate_keypair ::
  "host \<Rightarrow> nat \<Rightarrow> bool \<Rightarrow> key_file option \<Rightarrow> cmd list \<Rightarrow>
   (net_error, string \<times> string) result \<times> key_file option list \<times> cmd list" where
  "load_or_generate_keypair host default_mode has_path file h =
    (if \<not> has_path then (case generate_keypair host h of (r, h) \<Rightarrow> (r, [], h))
     else case file of
            Some f \<Rightarrow>
              (let private_key = str_trim (kf_content f)
               in case run_command_stdin host ''wg'' [''pubkey''] private_key h of
                    (Inl e, h) \<Rightarrow> (Inl e, [], h)
                  | (Inr public_key, h) \<Rightarrow> (Inr (private_key, public_key), [], h))
          | None \<Rightarrow>
              (case generate_keypair host h of
                 (Inl e, h) \<Rightarrow> (Inl e, [], h)
               | (Inr (private_key, public_key), h) \<Rightarrow>
                   (Inr (private_key, public_key), save_key default_mode private_key, h)))"


section \<open>Subnets\<close>

definition network_address :: "ip_addr \<Rightarrow> 8 word \<Rightarrow> ip_addr" where
  "network_address ip prefix_len =
    (case ip of
       V4 bits \<Rightarrow> V4 (bits AND (if 32 \<le> prefix_len then -1 else push_bit (32 - unat prefix_len) (-1)))
     | V6 bits \<Rightarrow> V6 (bits AND (if 128 \<le> prefix_len then -1 else push_bit (128 - unat prefix_len) (-1))))"

definition parse_subnet_first_ip :: "string \<Rightarrow> (net_error, ip_addr \<times> 8 word) result" where
  "parse_subnet_first_ip subnet =
    (case split_char CHR ''/'' subnet of
       [base, len] \<Rightarrow>
         (case (parse_v4 base, parse_unsigned 256 len) of
            (Some ip, Some prefix_len) \<Rightarrow> Inr (V4 (ip + 1), word_of_nat prefix_len)
          | _ \<Rightarrow> Inl (InvalidAddress subnet))
     | _ \<Rightarrow> Inl (InvalidAddress subnet))"


section \<open>The interface\<close>

record peer_info =
  pi_node_id :: node_id
  pi_public_key :: string
  pi_endpoint :: "socket_addr option"
  pi_tunnel_ip :: ip_addr

definition shell :: "string \<Rightarrow> string list \<Rightarrow> cmd" where
  "shell program args = \<lparr> co_program = program, co_args = args, co_stdin = None \<rparr>"

definition peer_cmd :: "string \<Rightarrow> peer_info \<Rightarrow> cmd" where
  "peer_cmd iface peer = shell ''wg'' ([''set'', iface, ''peer'', pi_public_key peer]
     @ (case pi_endpoint peer of Some ep \<Rightarrow> [''endpoint'', show_socket_addr ep] | None \<Rightarrow> [])
     @ [''allowed-ips'', show_ip (pi_tunnel_ip peer) @ ''/32''])"

definition wg_add_peer :: "host \<Rightarrow> string \<Rightarrow> peer_info \<Rightarrow> cmd list \<Rightarrow> (net_error, unit) result \<times> cmd list" where
  "wg_add_peer host iface peer = run_all host [peer_cmd iface peer]"

definition wg_remove_peer :: "host \<Rightarrow> string \<Rightarrow> string \<Rightarrow> cmd list \<Rightarrow> (net_error, unit) result \<times> cmd list" where
  "wg_remove_peer host iface public_key = run_all host [shell ''wg'' [''set'', iface, ''peer'', public_key, ''remove'']]"

text \<open>The interface is made anew: one that is left from an earlier run is removed, whether it is there or not.\<close>

definition bring_up :: "host \<Rightarrow> string \<Rightarrow> u16 \<Rightarrow> string \<Rightarrow> ip_addr \<Rightarrow> 8 word \<Rightarrow> cmd list \<Rightarrow> (net_error, unit) result \<times> cmd list" where
  "bring_up host iface listen_port private_key tunnel_ip prefix_len h =
    run_all host
      [shell ''ip'' [''link'', ''add'', iface, ''type'', ''wireguard''],
       \<lparr> co_program = ''wg'', co_args = [''set'', iface, ''private-key'', ''/dev/stdin'', ''listen-port'', show_word listen_port],
         co_stdin = Some private_key \<rparr>,
       shell ''ip'' [''addr'', ''add'', show_ip tunnel_ip @ ''/'' @ show_word prefix_len, ''dev'', iface],
       shell ''ip'' [''link'', ''set'', iface, ''up'']]
      (snd (run_command host ''ip'' [''link'', ''del'', iface] h))"

definition add_subnet_route :: "host \<Rightarrow> string \<Rightarrow> string \<Rightarrow> cmd list \<Rightarrow> cmd list" where
  "add_subnet_route host iface subnet h = snd (run_command host ''ip'' [''route'', ''add'', subnet, ''dev'', iface] h)"

definition wg_init ::
  "host \<Rightarrow> nat \<Rightarrow> bool \<Rightarrow> key_file option \<Rightarrow> string \<Rightarrow> u16 \<Rightarrow> string \<Rightarrow> cmd list \<Rightarrow>
   (net_error, string \<times> ip_addr) result \<times> key_file option list \<times> cmd list" where
  "wg_init host default_mode has_path file iface listen_port subnet h =
    (case load_or_generate_keypair host default_mode has_path file h of
       (Inl e, fs, h) \<Rightarrow> (Inl e, fs, h)
     | (Inr (private_key, public_key), fs, h) \<Rightarrow>
        (case parse_subnet_first_ip subnet of
           Inl e \<Rightarrow> (Inl e, fs, h)
         | Inr (tunnel_ip, prefix_len) \<Rightarrow>
            (case bring_up host iface listen_port private_key tunnel_ip prefix_len h of
               (Inl e, h) \<Rightarrow> (Inl e, fs, h)
             | (Inr _, h) \<Rightarrow> (Inr (public_key, tunnel_ip), fs, add_subnet_route host iface subnet h))))"

definition wg_join ::
  "host \<Rightarrow> nat \<Rightarrow> bool \<Rightarrow> key_file option \<Rightarrow> string \<Rightarrow> u16 \<Rightarrow> ip_addr \<Rightarrow> 8 word \<Rightarrow> peer_info list \<Rightarrow> cmd list \<Rightarrow>
   (net_error, string \<times> ip_addr) result \<times> key_file option list \<times> cmd list" where
  "wg_join host default_mode has_path file iface listen_port tunnel_ip prefix_len peers h =
    (case load_or_generate_keypair host default_mode has_path file h of
       (Inl e, fs, h) \<Rightarrow> (Inl e, fs, h)
     | (Inr (private_key, public_key), fs, h) \<Rightarrow>
        (case bring_up host iface listen_port private_key tunnel_ip prefix_len h of
           (Inl e, h) \<Rightarrow> (Inl e, fs, h)
         | (Inr _, h) \<Rightarrow>
            (case run_all host (map (peer_cmd iface) peers) h of
               (Inl e, h) \<Rightarrow> (Inl e, fs, h)
             | (Inr _, h) \<Rightarrow> (Inr (public_key, tunnel_ip), fs, h))))"

definition wg_add_subnet_route :: "host \<Rightarrow> string \<Rightarrow> ip_addr \<Rightarrow> 8 word \<Rightarrow> cmd list \<Rightarrow> cmd list" where
  "wg_add_subnet_route host iface tunnel_ip prefix_len =
    add_subnet_route host iface (show_ip (network_address tunnel_ip prefix_len) @ ''/'' @ show_word prefix_len)"

definition wg_teardown :: "host \<Rightarrow> string \<Rightarrow> cmd list \<Rightarrow> (net_error, unit) result \<times> cmd list" where
  "wg_teardown host iface = run_all host [shell ''ip'' [''link'', ''del'', iface]]"

definition parse_peer :: "string list \<Rightarrow> (net_error, peer_info) result" where
  "parse_peer fs =
    (case (if fs ! 2 = ''(none)'' then Inr None
           else case parse_socket_addr (fs ! 2) of Some a \<Rightarrow> Inr (Some a) | None \<Rightarrow> Inl (InvalidAddress (fs ! 2))) of
       Inl e \<Rightarrow> Inl e
     | Inr endpoint \<Rightarrow>
        (case parse_ip_addr (hd (split_char CHR ''/'' (hd (split_char CHR '','' (fs ! 3))))) of
           None \<Rightarrow> Inl (InvalidAddress (fs ! 3))
         | Some tunnel_ip \<Rightarrow>
            Inr \<lparr> pi_node_id = [], pi_public_key = hd fs, pi_endpoint = endpoint, pi_tunnel_ip = tunnel_ip \<rparr>))"

fun peers_of_lines :: "string list \<Rightarrow> (net_error, peer_info list) result" where
  "peers_of_lines [] = Inr []"
| "peers_of_lines (l # ls) =
    (let fs = split_char CHR 0x09 l
     in if length fs < 4 then peers_of_lines ls
        else case parse_peer fs of
               Inl e \<Rightarrow> Inl e
             | Inr p \<Rightarrow> map_sum id (\<lambda>ps. p # ps) (peers_of_lines ls))"

definition list_peers :: "host \<Rightarrow> string \<Rightarrow> cmd list \<Rightarrow> (net_error, peer_info list) result \<times> cmd list" where
  "list_peers host iface h =
    (case run_command host ''wg'' [''show'', iface, ''dump''] h of
       (Inl e, h) \<Rightarrow> (Inl e, h)
     | (Inr output, h) \<Rightarrow> (peers_of_lines (drop 1 (str_lines output)), h))"

text \<open>\<^verbatim>\<open>Duration::from_secs_f64\<close>, to the nearest nanosecond; it panics on what is no duration.\<close>

fun from_secs_f64 :: "f64 \<Rightarrow> duration option" where
  "from_secs_f64 (Fin x) =
    (if 0 \<le> x \<and> round_half_even (x * 10 ^ 9) < 2 ^ 64 * 10 ^ 9 then Some (nat (round_half_even (x * 10 ^ 9))) else None)"
| "from_secs_f64 _ = None"

definition line_millis :: "string \<Rightarrow> f64 option" where
  "line_millis line =
    Option.bind (str_find line ''time='') (\<lambda>time_idx.
      case split_whitespace (drop (time_idx + 5) line) of ms_str # _ \<Rightarrow> parse_f64 ms_str | [] \<Rightarrow> None)"

text \<open>The answer of a ping; \<open>None\<close> is a panic.\<close>

definition wg_ping :: "host \<Rightarrow> string \<Rightarrow> ip_addr \<Rightarrow> cmd list \<Rightarrow> (net_error, duration option) result option \<times> cmd list" where
  "wg_ping host iface tunnel_ip h =
    (case run_command host ''ping'' [''-c'', ''1'', ''-W'', ''3'', ''-I'', iface, show_ip tunnel_ip] h of
       (Inl e, h) \<Rightarrow> (Some (Inl e), h)
     | (Inr output, h) \<Rightarrow>
        ((case List.map_filter line_millis (str_lines output) of
            [] \<Rightarrow> Some (Inr None)
          | ms # _ \<Rightarrow> map_option (\<lambda>d. Inr (Some d)) (from_secs_f64 (f64_div ms (Fin 1000)))), h))"


section \<open>Addresses read back as printed\<close>

lemma split_char_append: "d \<notin> set x \<Longrightarrow> split_char d (x @ d # s) = x # split_char d s"
  by (induction x) (auto split: list.split)

lemma split_char_none: "d \<notin> set x \<Longrightarrow> split_char d x = [x]"
  by (induction x) (auto split: list.split)

lemma split_join: "xs \<noteq> [] \<Longrightarrow> \<forall>x\<in>set xs. d \<notin> set x \<Longrightarrow> split_char d (join_with [d] xs) = xs"
  by (induction "[d]" xs rule: join_with.induct) (simp_all add: split_char_append split_char_none)

lemma show_nat_head: "0 < n \<Longrightarrow> hd (show_nat n) \<noteq> CHR ''0''"
proof (induction n rule: show_nat.induct)
  case (1 n)
  show ?case
  proof (cases "n < 10")
    case True
    have "digit n = CHR ''0'' \<Longrightarrow> n = 0" using True digit_val_digit [of n] by (metis digit_0 digit_val_digit zero_less_numeral)
    then show ?thesis using True 1(2) by (subst show_nat.simps) auto
  next
    case False
    then have "hd (show_nat (n div 10)) \<noteq> CHR ''0''" using 1(1) by simp
    then show ?thesis using False by (subst show_nat.simps) (simp add: hd_append)
  qed
qed

lemma parse_octet_show: "n < 256 \<Longrightarrow> parse_octet (show_nat n) = Some n"
proof -
  assume n: "n < 256"
  have "length (show_nat n) \<le> 3" using show_nat_length [of 3 n] n by simp
  moreover have "hd (show_nat n) \<noteq> CHR ''0''" if "length (show_nat n) > 1"
    using that show_nat_head [of n] by (cases "n = 0") (simp_all add: show_nat.simps [of 0])
  ultimately show ?thesis using n by (auto simp: parse_octet_def parse_digits_show)
qed

lemma octet_nat: "unat (drop_bit i w AND 0xFF) = unat w div 2 ^ i mod 256" for w :: "32 word"
proof -
  have m: "(0xFF :: 32 word) = mask 8" by (simp add: mask_eq_exp_minus_1)
  have "unat (take_bit 8 (drop_bit i w)) = unat w div 2 ^ i mod 256"
    using unsigned_less [of w, where ?'a = nat] unfolding unsigned_take_bit_eq unsigned_drop_bit_eq
    by (simp add: take_bit_eq_mod drop_bit_eq_div)
  then show ?thesis unfolding m take_bit_eq_mask [symmetric] .
qed

lemma octets_nat: "v4_octets w = map (\<lambda>i. unat w div 2 ^ i mod 256) [24, 16, 8, 0]"
  unfolding v4_octets_def octet_nat ..

lemma four_octets:
  fixes x :: nat
  assumes "x < 2 ^ 32"
  shows "foldl (\<lambda>a b. a * 256 + b) 0 (map (\<lambda>i. x div 2 ^ i mod 256) [24, 16, 8, 0]) = x"
proof -
  have "x div 16777216 < 256" using assms by simp
  then have m: "x div 16777216 mod 256 = x div 16777216" by (rule mod_less)
  have d: "x div 16777216 = x div 65536 div 256" "x div 65536 = x div 256 div 256" by (simp_all add: div_mult2_eq [symmetric])
  have e: "x div 16777216 * 256 + x div 65536 mod 256 = x div 65536" "x div 65536 * 256 + x div 256 mod 256 = x div 256"
    "x div 256 * 256 + x mod 256 = x"
    using div_mult_mod_eq [of "x div 65536" 256] div_mult_mod_eq [of "x div 256" 256] div_mult_mod_eq [of x 256] d by simp_all
  have "foldl (\<lambda>a b. a * 256 + b) 0 (map (\<lambda>i. x div 2 ^ i mod 256) [24, 16, 8, 0]) =
      ((x div 16777216 mod 256 * 256 + x div 65536 mod 256) * 256 + x div 256 mod 256) * 256 + x mod 256" by simp
  also have "\<dots> = x" by (simp only: m e)
  finally show ?thesis .
qed

lemma v4_of_octets: "v4_of_octets (v4_octets w) = w"
proof -
  have "foldl (\<lambda>a b. a * 256 + b) 0 (v4_octets w) = unat w"
    unfolding octets_nat using unsigned_less [of w, where ?'a = nat] by (intro four_octets) simp
  then show ?thesis by (simp add: v4_of_octets_def)
qed

lemma v4_octets_small: "\<forall>n\<in>set (v4_octets w). n < 256"
  by (simp add: octets_nat)

lemma digits_no: "\<not> is_digit d \<Longrightarrow> d \<notin> set (show_nat n)"
  using show_nat_digits by blast

lemma parse_v4_show: "parse_v4 (show_v4 w) = Some w"
proof -
  have s: "split_char CHR ''.'' (show_v4 w) = map show_nat (v4_octets w)"
    unfolding show_v4_def by (rule split_join) (auto simp: v4_octets_def is_digit_def intro!: digits_no)
  obtain a b c d where o: "v4_octets w = [a, b, c, d]" by (simp add: v4_octets_def)
  have "a < 256" "b < 256" "c < 256" "d < 256" using v4_octets_small [of w] by (simp_all add: o)
  then show ?thesis using v4_of_octets [of w] by (simp add: parse_v4_def s o parse_octet_show)
qed

lemma join_chars: "c \<in> set (join_with sep xs) \<Longrightarrow> c \<in> set sep \<or> (\<exists>x\<in>set xs. c \<in> set x)"
  by (induction sep xs rule: join_with.induct) auto

lemma show_v4_chars: "c \<in> set (show_v4 w) \<Longrightarrow> is_digit c \<or> c = CHR ''.''"
  unfolding show_v4_def using show_nat_digits by (auto dest!: join_chars)

lemma str_find_char: "d \<notin> set a \<Longrightarrow> str_find (a @ d # b) [d] = Some (length a)"
  by (induction a) (auto simp: starts_with_def)

lemma parse_socket_addr_show: "sa_ip a = V4 w \<Longrightarrow> parse_socket_addr (show_socket_addr a) = Some a"
proof -
  assume a: "sa_ip a = V4 w"
  have "CHR '':'' \<notin> set (show_v4 w)" using show_v4_chars [of "CHR '':''" w] by (auto simp: is_digit_def)
  then have "split_once (show_v4 w @ CHR '':'' # show_word (sa_port a)) '':'' = Some (show_v4 w, show_word (sa_port a))"
    by (simp add: split_once_def str_find_char)
  moreover have "parse_port (show_word (sa_port a)) = Some (sa_port a)"
    using unsigned_less [of "sa_port a", where ?'a = nat] by (simp add: parse_port_def parse_digits_show)
  ultimately show ?thesis using a by (simp add: parse_socket_addr_def parse_v4_show)
qed



section \<open>Peers\<close>

text \<open>The line of a peer in the output of \<^verbatim>\<open>wg show dump\<close>, as its manual has it.\<close>

definition dump_line :: "peer_info \<Rightarrow> string" where
  "dump_line p = join_with [CHR 0x09] [pi_public_key p, ''(none)'',
     (case pi_endpoint p of Some a \<Rightarrow> show_socket_addr a | None \<Rightarrow> ''(none)''), show_ip (pi_tunnel_ip p) @ ''/32'',
     ''0'', ''0'', ''0'', ''off'']"

fun is_v4 :: "ip_addr \<Rightarrow> bool" where
  "is_v4 (V4 _) = True"
| "is_v4 (V6 _) = False"

definition plain_peer :: "peer_info \<Rightarrow> bool" where
  "plain_peer p \<longleftrightarrow> CHR 0x09 \<notin> set (pi_public_key p) \<and> CHR 0x0A \<notin> set (pi_public_key p) \<and> is_v4 (pi_tunnel_ip p)
    \<and> (case pi_endpoint p of Some a \<Rightarrow> is_v4 (sa_ip a) | None \<Rightarrow> True)"

lemma show_addr_chars:
  "is_v4 ip \<Longrightarrow> c \<in> set (show_ip ip) \<Longrightarrow> is_digit c \<or> c = CHR ''.''"
  "is_v4 (sa_ip a) \<Longrightarrow> c \<in> set (show_socket_addr a) \<Longrightarrow> is_digit c \<or> c = CHR ''.'' \<or> c = CHR '':''"
  by (cases ip; auto dest: show_v4_chars) (cases "sa_ip a"; auto dest: show_v4_chars show_nat_digits)

definition dump_fields :: "peer_info \<Rightarrow> string list" where
  "dump_fields p = [pi_public_key p, ''(none)'',
     (case pi_endpoint p of Some a \<Rightarrow> show_socket_addr a | None \<Rightarrow> ''(none)''), show_ip (pi_tunnel_ip p) @ ''/32'',
     ''0'', ''0'', ''0'', ''off'']"

lemma field_chars:
  assumes "plain_peer p" "d = CHR 0x09 \<or> d = CHR 0x0A"
  shows "\<forall>x\<in>set (dump_fields p). d \<notin> set x"
proof -
  have n: "\<not> is_digit d" "d \<noteq> CHR ''.''" "d \<noteq> CHR '':''" using assms(2) by (auto simp: is_digit_def)
  have "d \<notin> set (show_ip (pi_tunnel_ip p))" using assms(1) n show_addr_chars(1) unfolding plain_peer_def by blast
  moreover have "d \<notin> set (show_socket_addr a)" if "pi_endpoint p = Some a" for a
    using assms(1) n show_addr_chars(2) [of a d] that unfolding plain_peer_def by auto
  moreover have "d \<notin> set (pi_public_key p)" using assms unfolding plain_peer_def by auto
  moreover have "d \<notin> set ''(none)''" "d \<notin> set ''off''" "d \<notin> set ''/32''" "d \<noteq> CHR ''0''" using assms(2) by auto
  ultimately show ?thesis by (auto simp: dump_fields_def split: option.split)
qed

lemma dump_line_fields: "dump_line p = join_with [CHR 0x09] (dump_fields p)"
  by (simp add: dump_line_def dump_fields_def)

lemma split_dump: "plain_peer p \<Longrightarrow> split_char CHR 0x09 (dump_line p) = dump_fields p"
  unfolding dump_line_fields by (rule split_join) (simp_all add: field_chars, simp add: dump_fields_def)

lemma dump_line_end: "dump_line p \<noteq> [] \<and> last (dump_line p) = CHR ''f''"
  by (simp add: dump_line_def)

lemma dump_line_newline: "plain_peer p \<Longrightarrow> CHR 0x0A \<notin> set (dump_line p)"
  using field_chars [of p "CHR 0x0A"] unfolding dump_line_fields by (auto dest!: join_chars)

lemma parse_dump: "plain_peer p \<Longrightarrow> parse_peer (dump_fields p) = Inr (p\<lparr> pi_node_id := [] \<rparr>)"
proof -
  assume p: "plain_peer p"
  obtain w where w: "pi_tunnel_ip p = V4 w" using p by (auto simp: plain_peer_def elim: is_v4.elims)
  let ?a = "show_v4 w @ ''/32''"
  have "CHR '','' \<notin> set ?a" "CHR ''/'' \<notin> set (show_v4 w)"
    using show_v4_chars [of "CHR '',''" w] show_v4_chars [of "CHR ''/''" w] by (auto simp: is_digit_def)
  then have ip: "parse_ip_addr (hd (split_char CHR ''/'' (hd (split_char CHR '','' ?a)))) = Some (V4 w)"
    by (simp add: split_char_none split_char_append parse_ip_addr_def parse_v4_show)
  have f: "dump_fields p ! 3 = ?a" "hd (dump_fields p) = pi_public_key p" by (simp_all add: dump_fields_def w)
  show ?thesis
  proof (cases "pi_endpoint p")
    case None
    then have "dump_fields p ! 2 = ''(none)''" by (simp add: dump_fields_def)
    then show ?thesis by (simp add: parse_peer_def f ip None w)
  next
    case (Some a)
    then obtain v where v: "sa_ip a = V4 v" using p by (auto simp: plain_peer_def elim: is_v4.elims)
    have "CHR ''('' \<notin> set (show_socket_addr a)" using show_addr_chars(2) [of a "CHR ''(''"] v by (auto simp: is_digit_def)
    then have "show_socket_addr a \<noteq> ''(none)''" by (metis list.set_intros(1))
    moreover have "dump_fields p ! 2 = show_socket_addr a" by (simp add: dump_fields_def Some)
    ultimately show ?thesis using parse_socket_addr_show [OF v] by (simp add: parse_peer_def f ip Some w del: show_socket_addr.simps)
  qed
qed

lemma peers_of_dump: "\<forall>p\<in>set ps. plain_peer p \<Longrightarrow> peers_of_lines (map dump_line ps) = Inr (map (\<lambda>p. p\<lparr> pi_node_id := [] \<rparr>) ps)"
  by (induction ps) (simp_all add: split_dump parse_dump Let_def, simp add: dump_fields_def)

lemma strip_cr_dump: "strip_cr (dump_line p) = dump_line p"
  using dump_line_end [of p] by (simp add: strip_cr_def)

lemma lines_of_dump:
  assumes "CHR 0x0A \<notin> set header" "\<forall>p\<in>set ps. plain_peer p"
  shows "drop 1 (str_lines (join_with [CHR 0x0A] (header # map dump_line ps))) = map dump_line ps"
proof -
  have s: "split_char CHR 0x0A (join_with [CHR 0x0A] (header # map dump_line ps)) = header # map dump_line ps"
    by (rule split_join) (use assms dump_line_newline in auto)
  show ?thesis
  proof (cases ps rule: rev_cases)
    case Nil
    then show ?thesis using s by (simp add: str_lines_def)
  next
    case (snoc qs q)
    have "butlast (header # map dump_line ps) = header # map dump_line qs" "last (header # map dump_line ps) = dump_line q"
      by (simp_all add: snoc butlast_append)
    then show ?thesis unfolding str_lines_def s Let_def using dump_line_end [of q]
      by (simp add: strip_cr_dump snoc comp_def)
  qed
qed


definition peer1 :: peer_info where
  "peer1 = \<lparr> pi_node_id = ''n2'', pi_public_key = ''key2'', pi_endpoint = Some \<lparr> sa_ip = V4 0xC0000207, sa_port = 51820 \<rparr>,
     pi_tunnel_ip = V4 0x0A630002 \<rparr>"

definition host1 :: host where
  "host1 h c = Exited True (join_with [CHR 0x0A] [''wg0'', dump_line peer1]) []"

lemma ws_len_less: "s \<noteq> [] \<Longrightarrow> last s = CHR ''f'' \<Longrightarrow> ws_len s < length s"
proof (induction s rule: ws_len.induct)
  case (2 c cs)
  then show ?case by (cases cs; cases "tl cs") (auto simp: Let_def)
qed simp

lemma trim_start_f: "s \<noteq> [] \<Longrightarrow> last s = CHR ''f'' \<Longrightarrow> trim_start s \<noteq> []"
proof (induction s rule: trim_start.induct)
  case (1 s)
  have "ws_len s < length s" using ws_len_less 1(2,3) by blast
  then have "drop (ws_len s) s \<noteq> []" "last (drop (ws_len s) s) = CHR ''f''" using 1(3) by simp_all
  then show ?case using 1 by (subst trim_start.simps) auto
qed

lemma trim_end_f: "s \<noteq> [] \<Longrightarrow> last s = CHR ''f'' \<Longrightarrow> trim_end s = s"
proof (induction s)
  case (Cons c cs)
  then show ?case using trim_start_f [of "c # cs"] by (cases cs) auto
qed simp

lemma host1_prints:
  "run_command host1 ''wg'' [''show'', ''wg0'', ''dump''] [] =
    (Inr (join_with [CHR 0x0A] (''wg0'' # map dump_line [peer1])), [shell ''wg'' [''show'', ''wg0'', ''dump'']])"
proof -
  let ?s = "''wg0'' @ [CHR 0x0A] @ dump_line peer1"
  have "ws_len ?s = 0" by simp
  then have "trim_start ?s = ?s" by (subst trim_start.simps) (rule if_P)
  moreover have "trim_end ?s = ?s" by (rule trim_end_f) (use dump_line_end [of peer1] in simp_all)
  ultimately have "str_trim ?s = ?s" unfolding str_trim_def by (rule arg_cong [where f = trim_end, THEN trans])
  then show ?thesis by (simp add: run_command_def run_cmd_def host1_def shell_def)
qed


end
