(* ===== verification/Exposition.thy ===== *)
theory Exposition
  imports Report Routing Decimal
begin

text \<open>
  The page of metrics, \<^verbatim>\<open>get_metrics\<close> of \<^verbatim>\<open>api/handlers.rs\<close>: the text of the samples of nodes,
  allocations, restarts, routes and tasks. A series is a name with labels; a page in the format of
  Prometheus has each series once.
\<close>

section \<open>Lines\<close>

definition header_lines :: "string \<Rightarrow> string \<Rightarrow> string \<Rightarrow> string" where
  "header_lines name help typ =
    ''# HELP '' @ name @ '' '' @ help @ [CHR 0x0A] @ ''# TYPE '' @ name @ '' '' @ typ @ [CHR 0x0A]"

definition series :: "string \<Rightarrow> (string \<times> string) list \<Rightarrow> string" where
  "series name labels =
    name @ ''{'' @ join_with '','' (map (\<lambda>(k, v). k @ ''='' @ [CHR 0x22] @ v @ [CHR 0x22]) labels) @ ''}''"

definition sample :: "string \<Rightarrow> (string \<times> string) list \<Rightarrow> string \<Rightarrow> string" where
  "sample name labels v = series name labels @ '' '' @ v @ [CHR 0x0A]"


section \<open>Sections of the page\<close>

definition node_gauge ::
  "(node_resources \<Rightarrow> string) \<Rightarrow> string \<Rightarrow> (node_id, node_metrics_snapshot) hash_map \<Rightarrow> fsm_state \<Rightarrow> u64 \<times> fsm_node \<Rightarrow> string" where
  "node_gauge f name live s x =
    (case x of (raft_id, node) \<Rightarrow>
       case (case hm_get live (n_mill_id node) of
               Some snap \<Rightarrow> Some (f (nm_resources snap))
             | None \<Rightarrow> map_option f (node_available_resources s raft_id)) of
         Some v \<Rightarrow> sample name [(''node'', n_mill_id node)] v
       | None \<Rightarrow> [])"

definition node_section :: "(node_id, node_metrics_snapshot) hash_map \<Rightarrow> fsm_state \<Rightarrow> string" where
  "node_section live s =
    header_lines ''mill_node_cpu_available'' ''Free CPU cores per node'' ''gauge''
    @ concat (map (node_gauge (\<lambda>r. show_f64 (nr_cpu_available r)) ''mill_node_cpu_available'' live s) (f_nodes s))
    @ header_lines ''mill_node_memory_available_bytes'' ''Free memory per node in bytes'' ''gauge''
    @ concat (map (node_gauge (\<lambda>r. show_word (nr_memory_available r)) ''mill_node_memory_available_bytes'' live s) (f_nodes s))"

definition live_stats :: "(node_id, node_metrics_snapshot) hash_map \<Rightarrow> (alloc_id, f64 \<times> u64) hash_map" where
  "live_stats live =
    fold (\<lambda>snap m. fold (\<lambda>cs m. hm_insert (ct_alloc_id cs) (ct_cpu_usage cs, ct_memory_usage cs) m) (nm_container_stats snap) m)
      (hm_values live) []"

definition alloc_labels :: "alloc \<Rightarrow> (string \<times> string) list" where
  "alloc_labels a = [(''service'', al_name a), (''node'', al_node a)]"

definition alloc_cpu_sample :: "(alloc_id, f64 \<times> u64) hash_map \<Rightarrow> alloc \<Rightarrow> string" where
  "alloc_cpu_sample stats a = sample ''mill_alloc_cpu_usage'' (alloc_labels a)
     (show_f64 (case hm_get stats (al_id a) of Some (c, _) \<Rightarrow> c | None \<Rightarrow> Fin 0))"

definition alloc_memory_sample :: "(alloc_id, f64 \<times> u64) hash_map \<Rightarrow> alloc \<Rightarrow> string" where
  "alloc_memory_sample stats a = sample ''mill_alloc_memory_bytes'' (alloc_labels a)
     (show_word (case hm_get stats (al_id a) of Some (_, m) \<Rightarrow> m | None \<Rightarrow> 0))"

definition alloc_section :: "(node_id, node_metrics_snapshot) hash_map \<Rightarrow> fsm_state \<Rightarrow> string" where
  "alloc_section live s =
    (let stats = live_stats live
     in header_lines ''mill_alloc_cpu_usage'' ''CPU usage per allocation in cores'' ''gauge''
        @ concat (map (alloc_cpu_sample stats) (hm_values (f_allocs s)))
        @ header_lines ''mill_alloc_memory_bytes'' ''Memory usage per allocation in bytes'' ''gauge''
        @ concat (map (alloc_memory_sample stats) (hm_values (f_allocs s))))"

definition restart_sample :: "fsm_state \<Rightarrow> string \<times> u64 \<Rightarrow> string" where
  "restart_sample s x =
    (case x of (service, n) \<Rightarrow>
       sample ''mill_alloc_restarts_total''
         [(''service'', service),
          (''node'', case List.find (\<lambda>a. al_name a = service \<and> al_kind a = KService) (hm_values (f_allocs s)) of
                       Some a \<Rightarrow> al_node a | None \<Rightarrow> ''unknown'')]
         (show_word n))"

definition restart_section :: "(string, u64) hash_map \<Rightarrow> fsm_state \<Rightarrow> string" where
  "restart_section counts s =
    (if counts = [] then []
     else header_lines ''mill_alloc_restarts_total'' ''Total service restart count'' ''counter''
        @ concat (map (restart_sample s) counts))"

definition bucket_label :: "f64 \<Rightarrow> string" where
  "bucket_label le = (if le = PInf then ''+Inf'' else show_f64 le)"

text \<open>A histogram: its buckets, its sum and its count.\<close>

definition histogram_samples :: "string \<Rightarrow> (string \<times> string) list \<Rightarrow> (f64 \<times> u64) list \<Rightarrow> f64 \<Rightarrow> u64 \<Rightarrow> string" where
  "histogram_samples name labels buckets sm n =
    concat (map (\<lambda>(le, c). sample (name @ ''_bucket'') (labels @ [(''le'', bucket_label le)]) (show_word c)) buckets)
    @ sample (name @ ''_sum'') labels (show_f64 sm)
    @ sample (name @ ''_count'') labels (show_word n)"

definition route_labels :: "route_metrics_snapshot \<Rightarrow> (string \<times> string) list" where
  "route_labels r = [(''route'', rm_hostname r), (''path'', rm_path r)]"

definition proxy_section :: "route_metrics_snapshot list option \<Rightarrow> string" where
  "proxy_section snap =
    (case snap of
       None \<Rightarrow> []
     | Some routes \<Rightarrow>
        if routes = [] then []
        else header_lines ''mill_proxy_requests_total'' ''Total proxied requests per route'' ''counter''
          @ concat (map (\<lambda>r. sample ''mill_proxy_requests_total'' (route_labels r) (show_word (rm_request_count r))) routes)
          @ header_lines ''mill_proxy_latency_seconds'' ''Proxy request latency histogram per route'' ''histogram''
          @ concat (map (\<lambda>r. histogram_samples ''mill_proxy_latency_seconds'' (route_labels r) (rm_buckets r)
              (rm_latency_sum_seconds r) (rm_request_count r)) routes))"

definition task_section :: "(string, u64) hash_map \<Rightarrow> histogram_snapshot list \<Rightarrow> string" where
  "task_section spawns durations =
    (if spawns = [] then []
     else header_lines ''mill_tasks_spawned_total'' ''Total task spawn count'' ''counter''
        @ concat (map (\<lambda>(task, n). sample ''mill_tasks_spawned_total'' [(''task'', task)] (show_word n)) spawns))
    @ (if durations = [] then []
       else header_lines ''mill_tasks_duration_seconds'' ''Task execution duration histogram'' ''histogram''
        @ concat (map (\<lambda>d. histogram_samples ''mill_tasks_duration_seconds'' [(''task'', hs_name d)] (hs_buckets d)
            (hs_sum_seconds d) (hs_count d)) durations))"

definition get_metrics :: "live_metrics \<Rightarrow> proxy_metrics option \<Rightarrow> fsm_state \<Rightarrow> string" where
  "get_metrics m proxy s =
    node_section (snapshot_all m) s @ alloc_section (snapshot_all m) s @ restart_section (lm_restart_counts m) s
    @ proxy_section (map_option proxy_metrics_snapshot proxy)
    @ task_section (lm_task_spawn_counts m) (task_duration_snapshots m)"


section \<open>Allocations of a service on one node\<close>

text \<open>
  Two allocations of a service on one node have the same series on the page: it stands there
  twice, with the usage of each, although a series may have one sample only.
\<close>

theorem alloc_series_repeat:
  assumes "hm_values (f_allocs s) = as @ a # bs @ b # cs" "al_name a = al_name b" "al_node a = al_node b"
  shows "\<exists>p q r v w. get_metrics m proxy s =
    p @ sample ''mill_alloc_cpu_usage'' (alloc_labels a) v @ q @ sample ''mill_alloc_cpu_usage'' (alloc_labels a) w @ r"
proof -
  define f where "f = alloc_cpu_sample (live_stats (snapshot_all m))"
  have l: "alloc_labels b = alloc_labels a" using assms(2,3) by (simp add: alloc_labels_def)
  obtain v w where v: "f a = sample ''mill_alloc_cpu_usage'' (alloc_labels a) v" "f b = sample ''mill_alloc_cpu_usage'' (alloc_labels a) w"
    by (auto simp: f_def alloc_cpu_sample_def l)
  have c: "concat (map f (hm_values (f_allocs s))) = concat (map f as) @ f a @ concat (map f bs) @ f b @ concat (map f cs)"
    unfolding assms(1) by simp
  define h t where "h = node_section (snapshot_all m) s @ header_lines ''mill_alloc_cpu_usage'' ''CPU usage per allocation in cores'' ''gauge''"
    and "t = header_lines ''mill_alloc_memory_bytes'' ''Memory usage per allocation in bytes'' ''gauge''
      @ concat (map (alloc_memory_sample (live_stats (snapshot_all m))) (hm_values (f_allocs s)))
      @ restart_section (lm_restart_counts m) s @ proxy_section (map_option proxy_metrics_snapshot proxy)
      @ task_section (lm_task_spawn_counts m) (task_duration_snapshots m)"
  have "get_metrics m proxy s = (h @ concat (map f as)) @ f a @ concat (map f bs) @ f b @ (concat (map f cs) @ t)"
    unfolding get_metrics_def alloc_section_def Let_def f_def [symmetric] c h_def t_def by (simp only: append_assoc)
  then show ?thesis unfolding v by blast
qed

definition two_replicas :: fsm_state where
  "two_replicas = fsm_default\<lparr> f_allocs := [(''web-1'', (alloc1 Running)\<lparr> al_id := ''web-1'' \<rparr>), (''web-2'', (alloc1 Running)\<lparr> al_id := ''web-2'' \<rparr>)] \<rparr>"

theorem alloc_series_repeat_witness:
  "\<exists>p q r v w. get_metrics live_metrics_new None two_replicas =
    p @ sample ''mill_alloc_cpu_usage'' (alloc_labels (alloc1 Running)) v
      @ q @ sample ''mill_alloc_cpu_usage'' (alloc_labels (alloc1 Running)) w @ r"
  using alloc_series_repeat [of two_replicas "[]" "(alloc1 Running)\<lparr> al_id := ''web-1'' \<rparr>" "[]" "(alloc1 Running)\<lparr> al_id := ''web-2'' \<rparr>" "[]"
      live_metrics_new None] by (simp add: two_replicas_def alloc_labels_def)

end
