(* ===== verification/Cloud.thy ===== *)
theory Cloud
  imports Rpc
begin

text \<open>
  The driver of cloud volumes, \<^verbatim>\<open>crates/node/src/storage/digitalocean.rs\<close>: the requests it makes
  and what it makes of the replies. The service is a parameter that replies from the requests so far.
\<close>

section \<open>Requests and replies\<close>

record create_request =
  cr_size_gigabytes :: u64
  cr_name :: string
  cr_region :: string
  cr_filesystem_type :: string

record do_volume =
  dv_id :: string
  dv_name :: string
  dv_size_gigabytes :: u64

record do_action =
  da_type :: string
  da_droplet_id :: "u64 option"
  da_region :: "string option"

datatype do_request =
    DoList string
  | DoCreate create_request
  | DoDelete string
  | DoAction string do_action

text \<open>The request is not sent, is refused with a status and a text, has a body that is not understood, or succeeds.\<close>

datatype 'a do_reply = SendFailed string | Refused nat string | BadBody string | Good 'a

record cloud =
  cl_list :: "do_request list \<Rightarrow> string \<Rightarrow> do_volume list do_reply"
  cl_create :: "do_request list \<Rightarrow> create_request \<Rightarrow> do_volume do_reply"
  cl_unit :: "do_request list \<Rightarrow> do_request \<Rightarrow> unit do_reply"

record cloud_volume_info =
  ci_id :: string
  ci_name :: string
  ci_size_bytes :: u64

fun do_result :: "'a do_reply \<Rightarrow> (storage_error, 'a) result" where
  "do_result (SendFailed e) = Inl (SHttp e)"
| "do_result (Refused _ text) = Inl (SApi text)"
| "do_result (BadBody e) = Inl (SHttp e)"
| "do_result (Good a) = Inr a"


section \<open>Operations\<close>

definition do_list_volumes :: "cloud \<Rightarrow> string \<Rightarrow> do_request list \<Rightarrow> (storage_error, cloud_volume_info list) result \<times> do_request list" where
  "do_list_volumes cl region h =
    (let url = ''https://api.digitalocean.com/v2/volumes?region='' @ region
     in (map_sum id (map (\<lambda>v. \<lparr> ci_id = dv_id v, ci_name = dv_name v, ci_size_bytes = dv_size_gigabytes v * 0x40000000 \<rparr>))
           (do_result (cl_list cl h url)),
         h @ [DoList url]))"

definition volume_action :: "cloud \<Rightarrow> string \<Rightarrow> do_action \<Rightarrow> do_request list \<Rightarrow> (storage_error, unit) result \<times> do_request list" where
  "volume_action cl vol_id body h =
    (let req = DoAction (''https://api.digitalocean.com/v2/volumes/'' @ vol_id @ ''/actions'') body
     in (do_result (cl_unit cl h req), h @ [req]))"

definition create_impl :: "cloud \<Rightarrow> string \<Rightarrow> string \<Rightarrow> byte_size \<Rightarrow> do_request list \<Rightarrow> (storage_error, string) result \<times> do_request list" where
  "create_impl cl region name sz h =
    (let size_gib = max (sz div 0x40000000) 1;
         body = \<lparr> cr_size_gigabytes = size_gib, cr_name = name, cr_region = region, cr_filesystem_type = ''ext4'' \<rparr>
     in (map_sum id dv_id (do_result (cl_create cl h body)), h @ [DoCreate body]))"

definition destroy_impl :: "cloud \<Rightarrow> string \<Rightarrow> string \<Rightarrow> do_request list \<Rightarrow> (storage_error, unit) result \<times> do_request list" where
  "destroy_impl cl region name h =
    (let req = DoDelete (''https://api.digitalocean.com/v2/volumes?name='' @ name @ ''&region='' @ region);
         reply = cl_unit cl h req
     in (case reply of
           Refused status text \<Rightarrow> if status = 404 then Inl (SNotFound name) else do_result reply
         | _ \<Rightarrow> do_result reply, h @ [req]))"

definition attach_impl :: "cloud \<Rightarrow> string \<Rightarrow> string \<Rightarrow> string \<Rightarrow> do_request list \<Rightarrow> (storage_error, unit) result \<times> do_request list" where
  "attach_impl cl region name instance_id h =
    (case do_list_volumes cl region h of
       (Inl e, h) \<Rightarrow> (Inl e, h)
     | (Inr volumes, h) \<Rightarrow>
        (case List.find (\<lambda>v. ci_name v = name) volumes of
           None \<Rightarrow> (Inl (SNotFound name), h)
         | Some vol \<Rightarrow>
            (case parse_unsigned (2 ^ 64) instance_id of
               None \<Rightarrow> (Inl (SApi ''invalid droplet id''), h)
             | Some droplet_id \<Rightarrow>
                volume_action cl (ci_id vol)
                  \<lparr> da_type = ''attach'', da_droplet_id = Some (word_of_nat droplet_id), da_region = Some region \<rparr> h)))"

definition detach_impl :: "cloud \<Rightarrow> string \<Rightarrow> string \<Rightarrow> do_request list \<Rightarrow> (storage_error, unit) result \<times> do_request list" where
  "detach_impl cl region name h =
    (case do_list_volumes cl region h of
       (Inl e, h) \<Rightarrow> (Inl e, h)
     | (Inr volumes, h) \<Rightarrow>
        (case List.find (\<lambda>v. ci_name v = name) volumes of
           None \<Rightarrow> (Inl (SNotFound name), h)
         | Some vol \<Rightarrow>
            volume_action cl (ci_id vol) \<lparr> da_type = ''detach'', da_droplet_id = None, da_region = Some region \<rparr> h))"


section \<open>Sizes\<close>

lemma quotient_bounds: "q * k + r = x \<Longrightarrow> r < k \<Longrightarrow> q * k \<le> x \<and> x < (q + 1) * k \<and> (q * k = x \<longleftrightarrow> r = 0)" for x :: nat
  by auto

text \<open>
  A volume of at least one gibibyte is asked for in whole gibibytes, rounded down: it never
  exceeds the size of the configuration and falls short of it unless that is a multiple of a gibibyte.
\<close>

theorem created_size:
  assumes "create_impl cl region name sz h = (r, h')" "0x40000000 \<le> unat sz"
  shows "\<exists>req. h' = h @ [DoCreate req] \<and> cr_name req = name \<and> unat (cr_size_gigabytes req) * 0x40000000 \<le> unat sz
    \<and> unat sz < (unat (cr_size_gigabytes req) + 1) * 0x40000000
    \<and> (unat (cr_size_gigabytes req) * 0x40000000 = unat sz \<longleftrightarrow> unat sz mod 0x40000000 = 0)"
proof -
  have d: "unat (sz div 0x40000000) = unat sz div 0x40000000" by (simp add: unat_div)
  have "1 \<le> unat sz div 0x40000000" using assms(2) by simp
  then have "1 \<le> sz div 0x40000000" unfolding word_le_nat_alt d by simp
  then have m: "max (sz div 0x40000000) 1 = sz div 0x40000000" by simp
  define req where "req = \<lparr> cr_size_gigabytes = sz div 0x40000000, cr_name = name, cr_region = region, cr_filesystem_type = ''ext4'' \<rparr>"
  have "h' = h @ [DoCreate req]" using assms(1) by (auto simp: create_impl_def Let_def m req_def)
  moreover have "cr_name req = name" "unat (cr_size_gigabytes req) = unat sz div 0x40000000" by (simp_all add: req_def d)
  moreover note quotient_bounds [OF div_mult_mod_eq [of "unat sz" "0x40000000"] mod_less_divisor]
  ultimately show ?thesis by (intro exI [of _ req]) simp
qed

definition cloud1 :: cloud where
  "cloud1 = \<lparr> cl_list = (\<lambda>_ _. Good []), cl_create = (\<lambda>_ b. Good \<lparr> dv_id = ''v'', dv_name = cr_name b, dv_size_gigabytes = cr_size_gigabytes b \<rparr>),
     cl_unit = (\<lambda>_ _. Good ()) \<rparr>"

theorem created_size_witness:
  "\<exists>req. snd (create_impl cloud1 ''fra1'' ''data'' 0x60000000 []) = [DoCreate req] \<and> unat (cr_size_gigabytes req) * 0x40000000 \<noteq> 0x60000000"
proof -
  obtain r h' where c: "create_impl cloud1 ''fra1'' ''data'' 0x60000000 [] = (r, h')" by force
  show ?thesis using created_size [OF c] by (auto simp: c)
qed

end
