(* ===== verification/Daemon.thy ===== *)
theory Daemon
  imports Handlers Mesh
begin

text \<open>
  The start of a node, \<^verbatim>\<open>crates/node/src/daemon\<close>: a new cluster, a node that joins one, a node
  that starts again from its file, and a node that leaves. The functions are sequences of actions that
  end at the first failure. What fails, what the leader answers and what random and detected
  values are is the environment. A start is followed up to the point where the node waits for the
  signal to stop.
\<close>

section \<open>Identity\<close>

record peer_entry =
  pe_raft_id :: u64
  pe_advertise_addr :: string
  pe_tunnel_ip :: ip_addr
  pe_public_key :: string

record node_identity =
  ni_node_id :: string
  ni_raft_id :: u64
  ni_cluster_token :: string
  ni_rpc_port :: u16
  ni_advertise_addr :: string
  ni_provider :: "string option"
  ni_provider_token :: "string option"
  ni_region :: "string option"
  ni_wireguard_subnet :: string
  ni_peers :: "peer_entry list"
  ni_acme_email :: "string option"
  ni_acme_staging :: "bool option"

text \<open>The contact and the directory.\<close>

definition acme_config :: "node_identity \<Rightarrow> (string \<times> string) option" where
  "acme_config ident =
    map_option (\<lambda>email. (''mailto:'' @ email,
      if ni_acme_staging ident = Some True then ''https://acme-staging-v02.api.letsencrypt.org/directory''
      else ''https://acme-v02.api.letsencrypt.org/directory'')) (ni_acme_email ident)"

text \<open>The token and the region of the volume driver, if there is one.\<close>

definition build_volume_driver :: "string option \<Rightarrow> string option \<Rightarrow> string option \<Rightarrow> (string \<times> string) option" where
  "build_volume_driver provider token region =
    (case (provider, token, region) of
       (Some p, Some tok, Some reg) \<Rightarrow> if p = ''digitalocean'' then Some (tok, reg) else None
     | _ \<Rightarrow> None)"


section \<open>Actions\<close>

datatype daemon_act =
    DaSaveKey bytes
  | DaSaveIdentity node_identity
  | DaOpenRaft u64 peers
  | DaInitialize
  | DaSubsystems "(string \<times> string) option"
  | DaRegister command
  | DaSecondary "alloc_id list" ip_addr
  | DaPrimary bool
  | DaRaftListener socket_addr
  | DaRpcServer socket_addr
  | DaPostJoin join_request
  | DaWritePid
  | DaDrain string
  | DaRemoveNode string
  | DaDeleteIdentity
  | DaKill string

datatype daemon_error = DeNet net_error | DeNode node_error

text \<open>What others do: commands of the host, answers of the leader, the state that is restored, random and detected values.\<close>

record daemon_env =
  en_host :: host
  en_mode :: nat
  en_fails :: "daemon_act \<Rightarrow> node_error option"
  en_join_info :: "(node_error, join_info_response) result"
  en_leader_key :: "(node_error, bytes) result"
  en_load_key :: "(node_error, bytes) result"
  en_metadata :: "string option \<times> string option"
  en_node_id :: string
  en_token :: string
  en_key :: bytes
  en_resources :: node_resources
  en_fsm :: fsm_state
  en_pid :: "string option"

record dstate =
  ds_cmds :: "cmd list"
  ds_key_file :: "key_file option"
  ds_acts :: "(daemon_act \<times> bool) list"

text \<open>Failures of these are logged or left to a task in the background.\<close>

fun detached :: "daemon_act \<Rightarrow> bool" where
  "detached (DaRaftListener _) = True"
| "detached (DaRpcServer _) = True"
| "detached DaWritePid = True"
| "detached DaDeleteIdentity = True"
| "detached (DaKill _) = True"
| "detached _ = False"

fun perform :: "daemon_env \<Rightarrow> daemon_act list \<Rightarrow> dstate \<Rightarrow> (daemon_error, unit) result \<times> dstate" where
  "perform en [] d = (Inr (), d)"
| "perform en (a # as) d =
    (case (if detached a then None else en_fails en a) of
       Some e \<Rightarrow> (Inl (DeNode e), d\<lparr> ds_acts := ds_acts d @ [(a, False)] \<rparr>)
     | None \<Rightarrow> perform en as (d\<lparr> ds_acts := ds_acts d @ [(a, True)] \<rparr>))"

definition detect_cloud_metadata :: "daemon_env \<Rightarrow> string option \<Rightarrow> string option \<times> string option" where
  "detect_cloud_metadata en provider = 
    (if provider = Some ''digitalocean'' then map_prod (map_option str_trim) (map_option str_trim) (en_metadata en)
     else (None, None))"

text \<open>What runs in the end.\<close>

record running =
  rn_node_id :: string
  rn_raft_id :: u64
  rn_tunnel_ip :: ip_addr
  rn_volume_driver :: "(string \<times> string) option"

record daemon_opts =
  op_token :: "string option"
  op_advertise :: "string option"
  op_provider :: "string option"
  op_provider_token :: "string option"
  op_acme_email :: "string option"
  op_acme_staging :: bool

definition advertised :: "daemon_opts \<Rightarrow> string" where
  "advertised opts = (case op_advertise opts of Some a \<Rightarrow> a | None \<Rightarrow> ''0.0.0.0'')"

definition after_tunnel ::
  "((net_error, string \<times> ip_addr) result \<times> key_file option list \<times> cmd list) \<Rightarrow> dstate \<Rightarrow>
   (string \<times> ip_addr \<Rightarrow> dstate \<Rightarrow> (daemon_error, 'a) result \<times> dstate) \<Rightarrow> (daemon_error, 'a) result \<times> dstate" where
  "after_tunnel x d f =
    (case x of (r, fs, h) \<Rightarrow>
       let d = d\<lparr> ds_cmds := h, ds_key_file := (if fs = [] then ds_key_file d else last fs) \<rparr>
       in case r of Inl e \<Rightarrow> (Inl (DeNet e), d) | Inr y \<Rightarrow> f y d)"

definition after_acts ::
  "(daemon_error, unit) result \<times> dstate \<Rightarrow> (dstate \<Rightarrow> (daemon_error, 'a) result \<times> dstate) \<Rightarrow> (daemon_error, 'a) result \<times> dstate" where
  "after_acts x f = (case x of (Inl e, d) \<Rightarrow> (Inl e, d) | (Inr _, d) \<Rightarrow> f d)"


section \<open>A new cluster\<close>

definition daemon_init :: "daemon_env \<Rightarrow> daemon_opts \<Rightarrow> dstate \<Rightarrow> (daemon_error, running) result \<times> dstate" where
  "daemon_init en opts d =
    after_tunnel (wg_init (en_host en) (en_mode en) True (ds_key_file d) ''mill0'' 51820 ''10.99.0.0/16'' (ds_cmds d)) d
      (\<lambda>(public_key, tunnel_ip) d.
        let ident = \<lparr> ni_node_id = en_node_id en, ni_raft_id = 1,
              ni_cluster_token = (case op_token opts of Some t \<Rightarrow> t | None \<Rightarrow> en_token en), ni_rpc_port = 4400,
              ni_advertise_addr = advertised opts, ni_provider = op_provider opts, ni_provider_token = op_provider_token opts,
              ni_region = None, ni_wireguard_subnet = ''10.99.0.0/16'', ni_peers = [], ni_acme_email = op_acme_email opts,
              ni_acme_staging = (if op_acme_staging opts then Some True else None) \<rparr>;
            (instance_id, region) = detect_cloud_metadata en (op_provider opts);
            register = NodeRegister 1 (en_node_id en) \<lparr> sa_ip = tunnel_ip, sa_port = 4400 \<rparr> (en_resources en) (Some public_key)
              instance_id (Some \<lparr> sa_ip = tunnel_ip, sa_port = 4402 \<rparr>) (Some (advertised opts))
        in after_acts (perform en
             ([DaSaveKey (en_key en), DaSaveIdentity ident, DaOpenRaft 1 [], DaInitialize, DaSubsystems (acme_config ident)]
              @ (if region \<noteq> None then [DaSaveIdentity (ident\<lparr> ni_region := region \<rparr>)] else [])
              @ [DaRegister register, DaSecondary [] tunnel_ip, DaPrimary True,
                 DaRaftListener \<lparr> sa_ip = tunnel_ip, sa_port = 4401 \<rparr>, DaWritePid]) d)
             (\<lambda>d. (Inr \<lparr> rn_node_id = en_node_id en, rn_raft_id = 1, rn_tunnel_ip = tunnel_ip,
                rn_volume_driver = build_volume_driver (op_provider opts) (op_provider_token opts) region \<rparr>, d)))"


section \<open>A node that joins\<close>

definition tunnel_peer :: "join_peer_info \<Rightarrow> peer_info" where
  "tunnel_peer p = \<lparr> pi_node_id = [], pi_public_key = jp_public_key p, pi_endpoint = parse_socket_addr (jp_endpoint p),
     pi_tunnel_ip = jp_tunnel_ip p \<rparr>"

definition entry_of_peer :: "join_peer_info \<Rightarrow> peer_entry" where
  "entry_of_peer p = \<lparr> pe_raft_id = jp_raft_id p, pe_advertise_addr = jp_endpoint p, pe_tunnel_ip = jp_tunnel_ip p,
     pe_public_key = jp_public_key p \<rparr>"

definition raft_url :: "ip_addr \<Rightarrow> u16 \<Rightarrow> string" where
  "raft_url ip port = ''http://'' @ show_ip ip @ '':'' @ show_word port"

definition joined_identity :: "daemon_env \<Rightarrow> daemon_opts \<Rightarrow> string \<Rightarrow> join_info_response \<Rightarrow> node_identity" where
  "joined_identity en opts token ji = \<lparr> ni_node_id = en_node_id en, ni_raft_id = ji_next_raft_id ji, ni_cluster_token = token,
     ni_rpc_port = 4400, ni_advertise_addr = advertised opts, ni_provider = op_provider opts,
     ni_provider_token = op_provider_token opts, ni_region = snd (detect_cloud_metadata en (op_provider opts)),
     ni_wireguard_subnet = ji_subnet ji, ni_peers = map entry_of_peer (ji_peers ji), ni_acme_email = op_acme_email opts,
     ni_acme_staging = (if op_acme_staging opts then Some True else None) \<rparr>"

definition daemon_join :: "daemon_env \<Rightarrow> daemon_opts \<Rightarrow> string \<Rightarrow> dstate \<Rightarrow> (daemon_error, running) result \<times> dstate" where
  "daemon_join en opts token d =
    (case en_join_info en of
       Inl e \<Rightarrow> (Inl (DeNode e), d)
     | Inr ji \<Rightarrow>
        after_tunnel (wg_join (en_host en) (en_mode en) True (ds_key_file d) ''mill0'' 51820 (ji_tunnel_ip ji)
            (word_of_nat (ji_prefix_len ji)) (map tunnel_peer (ji_peers ji)) (ds_cmds d)) d
          (\<lambda>(public_key, _) d.
            case en_leader_key en of
              Inl e \<Rightarrow> (Inl (DeNode e), d)
            | Inr key \<Rightarrow>
               if length key \<noteq> 32
               then (Inl (DeNode (NInternal (''cluster key: expected 32 bytes, got '' @ show_nat (length key)))), d)
               else
                 let ident = joined_identity en opts token ji;
                     network = fold (\<lambda>p. set_peer (jp_raft_id p) (raft_url (jp_tunnel_ip p) (ji_api_port ji + 1))) (ji_peers ji) [];
                     req = \<lparr> jq_node_id = en_node_id en, jq_raft_id = ji_next_raft_id ji, jq_advertise_addr = advertised opts,
                       jq_tunnel_ip = ji_tunnel_ip ji, jq_public_key = public_key, jq_resources = en_resources en,
                       jq_instance_id = fst (detect_cloud_metadata en (op_provider opts)),
                       jq_rpc_address = Some \<lparr> sa_ip = ji_tunnel_ip ji, sa_port = 4402 \<rparr> \<rparr>
                 in after_acts (perform en
                      [DaSaveKey key, DaSaveIdentity ident, DaOpenRaft (ji_next_raft_id ji) network,
                       DaRaftListener \<lparr> sa_ip = ji_tunnel_ip ji, sa_port = 4401 \<rparr>, DaPostJoin req,
                       DaSubsystems (acme_config ident), DaSecondary [] (ji_tunnel_ip ji), DaPrimary True, DaWritePid] d)
                      (\<lambda>d. (Inr \<lparr> rn_node_id = en_node_id en, rn_raft_id = ji_next_raft_id ji, rn_tunnel_ip = ji_tunnel_ip ji,
                         rn_volume_driver = build_volume_driver (op_provider opts) (op_provider_token opts)
                           (snd (detect_cloud_metadata en (op_provider opts))) \<rparr>, d))))"


section \<open>A node that starts again\<close>

definition expected_allocs :: "fsm_state \<Rightarrow> node_id \<Rightarrow> alloc_id list" where
  "expected_allocs s mill_id =
    map al_id (filter (\<lambda>a. al_node a = mill_id \<and> \<not> is_terminal (al_status a)) (hm_values (f_allocs s)))"

definition saved_peer :: "peer_entry \<Rightarrow> peer_info" where
  "saved_peer p = \<lparr> pi_node_id = [], pi_public_key = pe_public_key p, pi_endpoint = parse_socket_addr (pe_advertise_addr p),
     pi_tunnel_ip = pe_tunnel_ip p \<rparr>"

definition start_identity :: "daemon_env \<Rightarrow> node_identity \<Rightarrow> dstate \<Rightarrow> (daemon_error, running) result \<times> dstate" where
  "start_identity en ident d =
    after_tunnel (wg_init (en_host en) (en_mode en) True (ds_key_file d) ''mill0'' 51820 (ni_wireguard_subnet ident) (ds_cmds d)) d
      (\<lambda>(_, tunnel_ip) d.
        let d = d\<lparr> ds_cmds := fold (\<lambda>p h. snd (wg_add_peer (en_host en) ''mill0'' (saved_peer p) h)) (ni_peers ident) (ds_cmds d) \<rparr>
        in case en_load_key en of
             Inl e \<Rightarrow> (Inl (DeNode e), d)
           | Inr _ \<Rightarrow>
              let network = fold (\<lambda>p. set_peer (pe_raft_id p) (raft_url (pe_tunnel_ip p) 4401)) (ni_peers ident) [];
                  rpc_addr = \<lparr> sa_ip = tunnel_ip, sa_port = 4402 \<rparr>
              in after_acts (perform en
                   [DaOpenRaft (ni_raft_id ident) network, DaSubsystems (acme_config ident),
                    DaSecondary (expected_allocs (en_fsm en) (ni_node_id ident)) tunnel_ip, DaRpcServer rpc_addr, DaPrimary False,
                    DaRaftListener \<lparr> sa_ip = tunnel_ip, sa_port = 4401 \<rparr>, DaWritePid] d)
                   (\<lambda>d. (Inr \<lparr> rn_node_id = ni_node_id ident, rn_raft_id = ni_raft_id ident, rn_tunnel_ip = tunnel_ip,
                      rn_volume_driver = build_volume_driver (ni_provider ident) (ni_provider_token ident) (ni_region ident) \<rparr>, d)))"

text \<open>What loading the file of the identity gives; \<open>boot\<close> first asks whether there is a file.\<close>

definition start_from_existing ::
  "daemon_env \<Rightarrow> (node_error, node_identity) result \<Rightarrow> dstate \<Rightarrow> (daemon_error, running) result \<times> dstate" where
  "start_from_existing en loaded d =
    (case loaded of Inl e \<Rightarrow> (Inl (DeNode e), d) | Inr ident \<Rightarrow> start_identity en ident d)"

definition boot ::
  "daemon_env \<Rightarrow> (node_error, node_identity) result option \<Rightarrow> dstate \<Rightarrow> (daemon_error, running) result \<times> dstate" where
  "boot en file d =
    (case file of
       None \<Rightarrow> (Inl (DeNode (NInternal ''No node.json found. Run `mill init` or `mill join` first.'')), d)
     | Some loaded \<Rightarrow> start_from_existing en loaded d)"


section \<open>A node that leaves\<close>

definition stop_daemon :: "daemon_env \<Rightarrow> daemon_act list" where
  "stop_daemon en = (case en_pid en of None \<Rightarrow> [] | Some s \<Rightarrow> if str_trim s = [] then [] else [DaKill (str_trim s)])"

definition daemon_leave ::
  "daemon_env \<Rightarrow> (node_error, node_identity) result \<Rightarrow> dstate \<Rightarrow> (daemon_error, unit) result \<times> dstate" where
  "daemon_leave en loaded d =
    (case loaded of Inl e \<Rightarrow> (Inl (DeNode e), d) | Inr ident \<Rightarrow>
     after_acts (perform en [DaDrain (ni_node_id ident), DaRemoveNode (ni_node_id ident)] d)
      (\<lambda>d. perform en (DaDeleteIdentity # stop_daemon en)
        (d\<lparr> ds_cmds := snd (wg_teardown (en_host en) ''mill0'' (ds_cmds d)) \<rparr>)))"


section \<open>What is done\<close>

abbreviation all_done :: "daemon_act list \<Rightarrow> (daemon_act \<times> bool) list" where
  "all_done as \<equiv> map (\<lambda>a. (a, True)) as"

lemma perform_done: "perform en as d = (Inr u, d') \<Longrightarrow> ds_acts d' = ds_acts d @ all_done as"
  by (induction as arbitrary: d) (auto split: option.splits)

lemma after_actsE:
  assumes "after_acts (perform en as d) f = (Inr x, d')"
  obtains d1 where "ds_acts d1 = ds_acts d @ all_done as" "f d1 = (Inr x, d')"
  using assms perform_done by (fastforce simp: after_acts_def split: prod.splits sum.splits)

lemma after_tunnelE:
  assumes "after_tunnel x d f = (Inr r, d')"
  obtains y fs h d1 where "x = (Inr y, fs, h)" "ds_acts d1 = ds_acts d" "f y d1 = (Inr r, d')"
proof -
  obtain q fs h where x: "x = (q, fs, h)" by (cases x)
  define d1 where "d1 = d\<lparr> ds_cmds := h, ds_key_file := (if fs = [] then ds_key_file d else last fs) \<rparr>"
  have a: "ds_acts d1 = ds_acts d" by (simp add: d1_def)
  show thesis
  proof (cases q)
    case (Inl e)
    then show thesis using assms by (simp add: after_tunnel_def x Let_def)
  next
    case (Inr y)
    then have "f y d1 = (Inr r, d')" using assms by (simp add: after_tunnel_def x Let_def d1_def)
    then show thesis using that [of y fs h d1] a x Inr by simp
  qed
qed

lemma daemon_join_done:
  assumes "daemon_join en opts token d = (Inr run, d')" and ji: "en_join_info en = Inr ji"
  obtains key network q where
    "ds_acts d' = ds_acts d @ all_done [DaSaveKey key, DaSaveIdentity (joined_identity en opts token ji),
       DaOpenRaft (ji_next_raft_id ji) network, DaRaftListener \<lparr> sa_ip = ji_tunnel_ip ji, sa_port = 4401 \<rparr>, DaPostJoin q,
       DaSubsystems (acme_config (joined_identity en opts token ji)), DaSecondary [] (ji_tunnel_ip ji), DaPrimary True, DaWritePid]"
    "jq_rpc_address q = Some \<lparr> sa_ip = ji_tunnel_ip ji, sa_port = 4402 \<rparr>" "jq_tunnel_ip q = ji_tunnel_ip ji"
    "rn_tunnel_ip run = ji_tunnel_ip ji" "rn_node_id run = en_node_id en"
  using assms(1) unfolding daemon_join_def ji sum.case
  by (elim after_tunnelE) (auto simp: Let_def simp del: perform.simps split: sum.splits if_splits prod.splits elim!: after_actsE intro: that)

lemma start_identity_done:
  assumes "start_identity en ident d = (Inr run, d')"
  obtains prefix_len where "parse_subnet_first_ip (ni_wireguard_subnet ident) = Inr (rn_tunnel_ip run, prefix_len)"
    "rn_node_id run = ni_node_id ident"
    "(DaRpcServer \<lparr> sa_ip = rn_tunnel_ip run, sa_port = 4402 \<rparr>, True) \<in> set (ds_acts d')"
  using assms unfolding start_identity_def
  by (elim after_tunnelE)
     (auto simp: Let_def wg_init_def simp del: perform.simps split: sum.splits prod.splits elim!: after_actsE intro: that)

lemma join_info_facts:
  assumes "get_join_info s = Inr ji"
  shows "ji_subnet ji = ''10.99.0.0/16''" "n \<in> set (hm_values (f_nodes s)) \<Longrightarrow> ji_tunnel_ip ji \<noteq> sa_ip (n_address n)"
proof -
  obtain a where a: "allocate_tunnel_ip (map jp_tunnel_ip (map join_peer (hm_values (f_nodes s)))) = Some a"
    and j: "ji_subnet ji = ''10.99.0.0/16''" "ji_tunnel_ip ji = a"
    using assms by (auto simp: get_join_info_def Let_def split: option.splits)
  have "a \<notin> set (map jp_tunnel_ip (map join_peer (hm_values (f_nodes s))))"
    using a by (auto simp: allocate_tunnel_ip_def find_Some_iff)
  moreover have "jp_tunnel_ip (join_peer m) = sa_ip (n_address m)" for m by (simp add: join_peer_def)
  ultimately show "ji_subnet ji = ''10.99.0.0/16''"
    "n \<in> set (hm_values (f_nodes s)) \<Longrightarrow> ji_tunnel_ip ji \<noteq> sa_ip (n_address n)"
    using j by (simp, force)
qed

lemma mesh_subnet_first: "parse_subnet_first_ip ''10.99.0.0/16'' = Inr (V4 0x0A630001, 16)"
  by (simp add: parse_subnet_first_ip_def parse_v4_def parse_octet_def parse_unsigned_def is_digit_def digit_val_def v4_of_octets_def)

text \<open>
  (C36) A node that joined a cluster whose first node is at 10.99.0.1 comes up at 10.99.0.1 itself when it
  starts again from the identity that the join saved, and not at the address that it was given and
  that the leader knows: the file has the subnet and not the address.
\<close>

theorem restart_takes_first_address:
  assumes "get_join_info s = Inr ji" "en_join_info en = Inr ji"
    and "n \<in> set (hm_values (f_nodes s))" "sa_ip (n_address n) = V4 0x0A630001"
    and "ds_acts d = []" "daemon_join en opts token d = (Inr run, d1)" "(DaSaveIdentity ident, True) \<in> set (ds_acts d1)"
    and "start_from_existing en' (Inr ident) d2 = (Inr run', d3)"
  shows "rn_node_id run' = rn_node_id run \<and> rn_tunnel_ip run' = sa_ip (n_address n) \<and> rn_tunnel_ip run' \<noteq> rn_tunnel_ip run"
proof -
  have id: "ident = joined_identity en opts token ji" "rn_tunnel_ip run = ji_tunnel_ip ji" "rn_node_id run = en_node_id en"
    by (rule daemon_join_done [OF assms(6,2)]; use assms(5,7) in simp)+
  have "start_identity en' ident d2 = (Inr run', d3)" using assms(8) by (simp add: start_from_existing_def)
  then obtain k where "parse_subnet_first_ip (ni_wireguard_subnet ident) = Inr (rn_tunnel_ip run', k)"
    "rn_node_id run' = ni_node_id ident" by (rule start_identity_done)
  moreover have "ni_wireguard_subnet ident = ''10.99.0.0/16''" "ni_node_id ident = en_node_id en"
    using id(1) join_info_facts(1) [OF assms(1)] by (simp_all add: joined_identity_def)
  ultimately have "rn_tunnel_ip run' = V4 0x0A630001" "rn_node_id run' = rn_node_id run"
    using id(3) mesh_subnet_first by simp_all
  then show ?thesis using id(2) join_info_facts(2) [OF assms(1,3)] assms(4) by simp
qed

text \<open>
  (C40) A node that has just joined has told the leader an address for remote calls, on which no server was
  started; the same node started again does start one.
\<close>

theorem joined_node_has_no_rpc_server:
  assumes "en_join_info en = Inr ji" "ds_acts d = []" "daemon_join en opts token d = (Inr run, d1)"
    and "start_from_existing en' (Inr ident) d2 = (Inr run', d3)"
  shows "(\<exists>q. (DaPostJoin q, True) \<in> set (ds_acts d1) \<and> jq_rpc_address q = Some \<lparr> sa_ip = rn_tunnel_ip run, sa_port = 4402 \<rparr>)
    \<and> (\<nexists>a b. (DaRpcServer a, b) \<in> set (ds_acts d1))
    \<and> (DaRpcServer \<lparr> sa_ip = rn_tunnel_ip run', sa_port = 4402 \<rparr>, True) \<in> set (ds_acts d3)"
proof -
  have "start_identity en' ident d2 = (Inr run', d3)" using assms(4) by (simp add: start_from_existing_def)
  then have "(DaRpcServer \<lparr> sa_ip = rn_tunnel_ip run', sa_port = 4402 \<rparr>, True) \<in> set (ds_acts d3)"
    by (rule start_identity_done)
  moreover obtain key network q where
    "ds_acts d1 = all_done [DaSaveKey key, DaSaveIdentity (joined_identity en opts token ji),
       DaOpenRaft (ji_next_raft_id ji) network, DaRaftListener \<lparr> sa_ip = ji_tunnel_ip ji, sa_port = 4401 \<rparr>, DaPostJoin q,
       DaSubsystems (acme_config (joined_identity en opts token ji)), DaSecondary [] (ji_tunnel_ip ji), DaPrimary True, DaWritePid]"
    "jq_rpc_address q = Some \<lparr> sa_ip = rn_tunnel_ip run, sa_port = 4402 \<rparr>"
    using daemon_join_done [OF assms(3,1)] assms(2) by (metis append_Nil)
  ultimately show ?thesis by auto
qed

text \<open>A cluster of one node at 10.99.0.1, a second node with a host on which every command succeeds.\<close>

definition quiet_host :: host where
  "quiet_host h c = Exited True [] []"

definition first_node :: fsm_node where
  "first_node = \<lparr> n_raft_id = 1, n_mill_id = ''n1'', n_address = \<lparr> sa_ip = V4 0x0A630001, sa_port = 4400 \<rparr>,
     n_resources = \<lparr> nr_cpu_total = Fin 4, nr_cpu_available = Fin 4, nr_memory_total = 8, nr_memory_available = 8 \<rparr>,
     n_status = NReady, n_wireguard_pubkey = Some ''k1'', n_instance_id = None, n_rpc_address = None,
     n_advertise_addr = Some ''192.0.2.7'' \<rparr>"

definition one_node :: fsm_state where
  "one_node = fsm_default\<lparr> f_nodes := [(1, first_node)] \<rparr>"

definition join_info1 :: join_info_response where
  "join_info1 = \<lparr> ji_subnet = ''10.99.0.0/16'', ji_prefix_len = 16, ji_api_port = 4400, ji_tunnel_ip = V4 0x0A630002,
     ji_next_raft_id = 2, ji_peers = [join_peer first_node] \<rparr>"

definition daemon_env1 :: daemon_env where
  "daemon_env1 = \<lparr> en_host = quiet_host, en_mode = 420, en_fails = (\<lambda>_. None), en_join_info = Inr join_info1,
     en_leader_key = Inr (replicate 32 7), en_load_key = Inr (replicate 32 7), en_metadata = (None, None), en_node_id = ''n2'',
     en_token = [], en_key = [], en_resources = n_resources first_node, en_fsm = one_node, en_pid = None \<rparr>"

definition daemon_opts1 :: daemon_opts where
  "daemon_opts1 = \<lparr> op_token = None, op_advertise = None, op_provider = None, op_provider_token = None,
     op_acme_email = None, op_acme_staging = False \<rparr>"

definition fresh_disk :: dstate where
  "fresh_disk = \<lparr> ds_cmds = [], ds_key_file = None, ds_acts = [] \<rparr>"

lemma quiet_cmd [simp]: "run_cmd quiet_host c h = (Inr [], h @ [c])"
  by (simp add: run_cmd_def quiet_host_def str_trim_def trim_start.simps)

lemma quiet_all [simp]: "run_all quiet_host cs h = (Inr (), h @ cs)"
  by (induction cs arbitrary: h) simp_all

lemma one_node_join_info: "get_join_info one_node = Inr join_info1"
proof -
  have c: "tunnel_candidates = V4 0x0A630001 # V4 0x0A630002 # map (\<lambda>i. V4 (0x0A630000 + word_of_nat i)) [Suc (Suc 1)..<65534]"
    unfolding tunnel_candidates_def by (subst upt_conv_Cons, simp, subst upt_conv_Cons) simp_all
  have "allocate_tunnel_ip [V4 0x0A630001] = Some (V4 0x0A630002)" unfolding allocate_tunnel_ip_def c by simp
  then show ?thesis
    by (simp add: get_join_info_def one_node_def join_info1_def next_raft_id_def join_peer_def first_node_def Let_def)
qed

lemma quiet_wg_join: "\<exists>h. wg_join quiet_host m True None i p ip l ps [] = (Inr ([], ip), save_key m [], h)"
  by (simp add: wg_join_def load_or_generate_keypair_def generate_keypair_def run_command_def run_command_stdin_def bring_up_def)

lemma quiet_wg_init:
  "\<exists>h. wg_init quiet_host m True None i p ''10.99.0.0/16'' [] = (Inr ([], V4 0x0A630001), save_key m [], h)"
  by (simp add: wg_init_def load_or_generate_keypair_def generate_keypair_def run_command_def run_command_stdin_def bring_up_def
      mesh_subnet_first)

abbreviation ident1 :: node_identity where
  "ident1 \<equiv> joined_identity daemon_env1 daemon_opts1 ''t'' join_info1"

lemma join1_runs:
  "\<exists>run d. daemon_join daemon_env1 daemon_opts1 ''t'' fresh_disk = (Inr run, d) \<and> (DaSaveIdentity ident1, True) \<in> set (ds_acts d)"
proof -
  obtain h where h: "wg_join quiet_host 420 True None ''mill0'' 51820 (ji_tunnel_ip join_info1) (word_of_nat (ji_prefix_len join_info1))
      (map tunnel_peer (ji_peers join_info1)) [] = (Inr ([], ji_tunnel_ip join_info1), save_key 420 [], h)"
    using quiet_wg_join by blast
  have e: "en_join_info daemon_env1 = Inr join_info1" "en_leader_key daemon_env1 = Inr (replicate 32 7)"
    "en_host daemon_env1 = quiet_host" "en_mode daemon_env1 = 420" "\<And>a. en_fails daemon_env1 a = None"
    by (simp_all add: daemon_env1_def)
  have f: "ds_cmds fresh_disk = []" "ds_key_file fresh_disk = None" "ds_acts fresh_disk = []" by (simp_all add: fresh_disk_def)
  show ?thesis unfolding daemon_join_def e sum.case f h after_tunnel_def after_acts_def
    by (simp add: Let_def e f)
qed

lemma start1_runs: "\<exists>run d. start_from_existing daemon_env1 (Inr ident1) fresh_disk = (Inr run, d)"
proof -
  obtain h where h: "wg_init quiet_host 420 True None ''mill0'' 51820 ''10.99.0.0/16'' [] =
      (Inr ([], V4 0x0A630001), save_key 420 [], h)"
    using quiet_wg_init by blast
  have e: "en_load_key daemon_env1 = Inr (replicate 32 7)" "en_host daemon_env1 = quiet_host" "en_mode daemon_env1 = 420"
    "\<And>a. en_fails daemon_env1 a = None" by (simp_all add: daemon_env1_def)
  have f: "ds_cmds fresh_disk = []" "ds_key_file fresh_disk = None" by (simp_all add: fresh_disk_def)
  have n: "ni_wireguard_subnet ident1 = ''10.99.0.0/16''" by (simp add: joined_identity_def join_info1_def)
  show ?thesis unfolding start_from_existing_def sum.case start_identity_def n e f h after_tunnel_def after_acts_def
    by (simp add: Let_def e)
qed

theorem restart_takes_first_address_witness:
  "\<exists>run run' d d'. daemon_join daemon_env1 daemon_opts1 ''t'' fresh_disk = (Inr run, d)
     \<and> start_from_existing daemon_env1 (Inr ident1) fresh_disk = (Inr run', d')
     \<and> rn_tunnel_ip run' = V4 0x0A630001 \<and> rn_tunnel_ip run' \<noteq> rn_tunnel_ip run"
proof -
  obtain run d where j: "daemon_join daemon_env1 daemon_opts1 ''t'' fresh_disk = (Inr run, d)"
    "(DaSaveIdentity ident1, True) \<in> set (ds_acts d)" using join1_runs by blast
  obtain run' d' where s: "start_from_existing daemon_env1 (Inr ident1) fresh_disk = (Inr run', d')" using start1_runs by blast
  have n: "first_node \<in> set (hm_values (f_nodes one_node))" "sa_ip (n_address first_node) = V4 0x0A630001"
    and e: "en_join_info daemon_env1 = Inr join_info1" "ds_acts fresh_disk = []"
    by (simp_all add: one_node_def first_node_def daemon_env1_def fresh_disk_def)
  show ?thesis using restart_takes_first_address [OF one_node_join_info e(1) n e(2) j s] n(2) j(1) s by metis
qed

theorem joined_node_has_no_rpc_server_witness:
  "\<exists>run d. daemon_join daemon_env1 daemon_opts1 ''t'' fresh_disk = (Inr run, d)
     \<and> (\<exists>q. (DaPostJoin q, True) \<in> set (ds_acts d) \<and> jq_rpc_address q = Some \<lparr> sa_ip = rn_tunnel_ip run, sa_port = 4402 \<rparr>)
     \<and> (\<nexists>a b. (DaRpcServer a, b) \<in> set (ds_acts d))"
proof -
  obtain run d where j: "daemon_join daemon_env1 daemon_opts1 ''t'' fresh_disk = (Inr run, d)" using join1_runs by blast
  obtain run' d' where s: "start_from_existing daemon_env1 (Inr ident1) fresh_disk = (Inr run', d')" using start1_runs by blast
  have "en_join_info daemon_env1 = Inr join_info1" "ds_acts fresh_disk = []" by (simp_all add: daemon_env1_def fresh_disk_def)
  then show ?thesis using joined_node_has_no_rpc_server [OF _ _ j s] j by blast
qed

text \<open>The file and the tunnel of a node stay unless the cluster has let the node go.\<close>

theorem leave_needs_the_cluster:
  assumes "en_fails en (DaDrain (ni_node_id ident)) \<noteq> None \<or> en_fails en (DaRemoveNode (ni_node_id ident)) \<noteq> None"
    and "daemon_leave en (Inr ident) d = (r, d')" "ds_acts d = []"
  shows "isl r \<and> ds_cmds d' = ds_cmds d \<and> (DaDeleteIdentity, True) \<notin> set (ds_acts d')"
  using assms by (auto simp: daemon_leave_def after_acts_def split: option.splits)

end
