(* ===== verification/Spec2Isabelle.thy ===== *)
theory Spec2Isabelle
  imports Store Ports Scheduler Validate Watchdog Secondary Routing Metrics Handlers Containers Mesh Exposition Cloud Daemon
begin

text \<open>
  A verification development of the container orchestrator \<^verbatim>\<open>mill\<close>.

  \<^bold>\<open>The program.\<close> A cluster of mill has a few nodes. Each runs a \<^emph>\<open>secondary\<close>, which
  starts and stops containers on commands and reports what happens to them. The leader also runs
  the \<^emph>\<open>primary\<close>: it validates the configurations that clients deploy, decides where containers
  run, commands the secondaries over an RPC connection, watches their heartbeats and restarts what
  is missing. The state of the cluster is a replicated state machine over the openraft library; the
  primary changes it by proposing commands and never otherwise. Paths below are those under
  \<^verbatim>\<open>src/crates\<close>.

  \<^bold>\<open>Base theories.\<close> \<open>Prelude\<close> has results as sums, hash maps as association lists whose
  order is the iteration order, saturating and checked word arithmetic, and the interfaces
  \<open>keyed_store\<close>, \<open>guarded_steps\<close> and \<open>stepped\<close>, which hash maps, the peer and route
  tables, the log, the port pool and the state machine interpret. \<open>F64\<close> has binary64 with
  rounding and \<open>Decimal\<close> its decimal text, \<open>Strings\<close> and \<open>Text\<close> the parts of the Rust library that the code prints and
  parses with, \<open>Types\<close> the types of \<^verbatim>\<open>config/src/types\<close>. Unsigned integers of the
  code are words of their width, times and durations are nanoseconds.

  \<^bold>\<open>Replicated state.\<close>
  \<^item> \<open>Fsm\<close> (\<^verbatim>\<open>raft/src/fsm\<close>): \<open>fsm_state\<close>, \<open>command\<close> and \<open>apply_command\<close>
    for \<^verbatim>\<open>FsmState\<close>, \<^verbatim>\<open>Command\<close> and \<^verbatim>\<open>apply\<close>. Replicas whose tables agree
    as maps, in whatever order they iterate, agree after every sequence of commands and give the
    same responses; every command keeps the invariant; what a heartbeat and a removal change; what
    \<^verbatim>\<open>available_resources\<close> computes.
  \<^item> \<open>Store\<close> (\<^verbatim>\<open>raft/src\<close>): the state machine store, the log, snapshots and votes on
    disk, \<^verbatim>\<open>MillRaft::open\<close>, the cluster key and the peer table. A disk is a map from file
    names to contents and \<open>atomic_write\<close> its three steps, so that a crash can fall between any two.
    A restart restores the last snapshot and replays the rest; the log has no holes; which pair of
    files a crash can leave.

  \<^bold>\<open>Decisions of the primary.\<close>
  \<^item> \<open>Validate\<close> (\<^verbatim>\<open>config/src/validate\<close>): \<open>resolve\<close> accepts exactly the configurations
    that meet the declarative \<open>valid_raw\<close>; values of environment variables read back as printed.
  \<^item> \<open>Scheduler\<close> (\<^verbatim>\<open>node/src/primary/scheduler.rs\<close>): \<open>schedule\<close> finds a node if there
    is one, prefers as documented, and placements never exceed the memory of a node.
  \<^item> \<open>Plan\<close> (\<^verbatim>\<open>deploy/diff.rs\<close>, \<^verbatim>\<open>deploy/validate.rs\<close>, \<^verbatim>\<open>resolve_env\<close>): the
    plan partitions the services; what the checks of capacity and secrets decide.
  \<^item> \<open>Util\<close> and \<open>Health\<close>: dates, suffixes and settings; the loops of the readiness probes,
    which end.

  \<^bold>\<open>Actions of the primary.\<close> \<open>Effects\<close> has the worlds on which the async functions act: the
  state, a trace of the actions of the task, and a clock that counts them. An environment says for
  each clock value what other tasks commit meanwhile and whether the call fails; a theorem for every
  environment is one for every interleaving and every pattern of failures. The calculi
  \<open>evolves\<close>, \<open>does\<close> and \<open>logs\<close> follow the structure of a function and give what it does to the
  state and which traces it can write.
  \<^item> \<open>Deploy\<close> (\<^verbatim>\<open>deploy/mod.rs\<close>): an old replica is stopped only after all new ones are
    healthy; a failed start marks its allocation and stops its container; the outcome of a
    deployment, rollback included; where volumes are attached.
  \<^item> \<open>Report\<close> (\<^verbatim>\<open>report.rs\<close>): the command of each report; histograms count what was recorded.
  \<^item> \<open>Ops\<close> (\<^verbatim>\<open>tasks.rs\<close>, \<^verbatim>\<open>nodes.rs\<close>): a drain stops an allocation after its
    replacement is healthy; a spawn that fails leaves its allocation behind.
  \<^item> \<open>Watchdog\<close> (\<^verbatim>\<open>watchdog.rs\<close>): only silent nodes are declared down, and undisturbed they
    are; when and how many replicas are restarted.

  \<^bold>\<open>The connection and the nodes.\<close>
  \<^item> \<open>Rpc\<close> (\<^verbatim>\<open>node/src/rpc\<close>): frames read back as written; the handshake succeeds exactly
    with the right token; the delays between reconnections.
  \<^item> \<open>Ports\<close> (\<^verbatim>\<open>net/src/ports.rs\<close>): free and allocated ports partition the range; the
    interface \<open>port_allocator\<close> is what the secondary relies on.
  \<^item> \<open>Secondary\<close> (\<^verbatim>\<open>node/src/secondary\<close>): commands, exits of containers and log lines are
    the steps \<open>sec_step\<close>. An exit can come whenever a handler waits for the runtime. Ports belong
    to one allocation as long as the waiter of a stopped container runs before its stop returns, and
    a reachable state shows that they need not otherwise; what a start reports; what a restart
    recovers.
  \<^item> \<open>Metrics\<close> (\<^verbatim>\<open>node/src/secondary/metrics.rs\<close>): the resources of the host and the rates of
    processor use between two polls.
  \<^item> \<open>Containers\<close> (\<^verbatim>\<open>containerd/src\<close>): the client of the container runtime. The service is
    any function of the requests so far. What a restart reads from the labels is what was written; a
    failed start cleans up after itself, except for the snapshot when the log pipes fail; where
    volumes are mounted.
  \<^item> \<open>Mesh\<close> (\<^verbatim>\<open>net/src/wireguard\<close>): the private network as the commands that set it up. The
    peers that \<^verbatim>\<open>wg\<close> prints are listed back; IPv4 addresses read back as printed.

  \<^bold>\<open>Traffic and clients.\<close>
  \<^item> \<open>Routing\<close> (\<^verbatim>\<open>node/src/primary/dns.rs\<close> and \<^verbatim>\<open>proxy.rs\<close>, \<^verbatim>\<open>net/src/dns\<close>,
    \<^verbatim>\<open>proxy/src\<close>): names and routes lead to the active allocations of the state, composed from
    the function of the state to the answer; a routed host is served over HTTPS only; what a backend
    sees of a request; which replica gets the traffic.
  \<^item> \<open>Api\<close> (\<^verbatim>\<open>api/auth.rs\<close>, \<^verbatim>\<open>api/leader.rs\<close>, \<^verbatim>\<open>logs.rs\<close>): who gets in, and what a
    stream of logs shows and when it ends.
  \<^item> \<open>Handlers\<close> (\<^verbatim>\<open>api/handlers.rs\<close>, \<^verbatim>\<open>api/mod.rs\<close>): \<open>serve_api\<close> is the router
    with both layers over the handlers. Nothing changes without the token and the leadership, and
    then by commands only; secrets read back as stored; a join adds a node, two concurrent ones
    collide; a volume can be destroyed while it is being attached.
  \<^item> \<open>Exposition\<close> (\<^verbatim>\<open>get_metrics\<close> of \<^verbatim>\<open>api/handlers.rs\<close>): the text of the metrics page, on which
    replicas that share a node share a series.
  \<^item> \<open>Cloud\<close> (\<^verbatim>\<open>storage/digitalocean.rs\<close>): the requests of the volume driver; sizes are
    rounded down.
  \<^item> \<open>Daemon\<close> (\<^verbatim>\<open>daemon/mod.rs\<close>, \<^verbatim>\<open>daemon/identity.rs\<close>): a new cluster, a join, a restart and
    a leave as sequences of actions (\<open>daemon_init\<close>, \<open>daemon_join\<close>, \<open>start_from_existing\<close>, \<open>daemon_leave\<close>) up to
    the wait for a signal. A node that joined comes back from a restart at the first address of the
    subnet, and has no server for remote calls before; a node leaves only once the cluster has let it go.

  \<^bold>\<open>Parameters.\<close> Third-party code is an argument of the definitions that use it: the codecs
  (JSON, MessagePack, zstd), the cipher, the parsers of sizes and durations, the container runtime,
  the volume driver, the network of the probes, the messages of DNS and HTTP, the certificate
  authority and the store of certificates.

  \<^bold>\<open>Bounds and fuel.\<close> No definition has fuel. Scanners and readers of streams recur on what is left
  of their input, the readiness probes on the time to their deadline, since an attempt takes at
  least a nanosecond; the environment ends a wait for a report at its deadline. Loops that serve
  forever are steps or one round each: a command of the secondary, a tick of the watchdog, a report.

  \<^bold>\<open>Not modelled.\<close> Input and output of processes: the command line client, the signals and the shutdown of the daemon, the sockets
  of the servers, the TLS and ACME clients; the pull of an image and the readers of log pipes; openraft itself,
  whose promise that every node applies the same commands in order is the list of commands that the theorems on \<open>Fsm\<close> and
  \<open>Store\<close> take.
\<close>

end
